(* ===== verification/Dssh_Prelude.thy ===== *)
theory Dssh_Prelude
  imports Main "HOL-Library.Word" "HOL-Library.Sublist"
begin

text \<open>
  Shared vocabulary of the development: bytes, Rust strings as byte strings, a
  state-and-error monad for code that reads or writes a stream and may return early with an
  error (the \<open>?\<close> operator and snafu's \<open>.context\<close>), and the collections the component
  theories feed to the simplifier.
\<close>

named_theorems io_simps \<open>equations of the state-and-error monad and of the streams\<close>
named_theorems wire_simps \<open>decoders applied to the image of an encoder\<close>
named_theorems emits_intros \<open>what an encoder writes, compositionally\<close>

type_synonym u8 = "8 word"
type_synonym bytes = "u8 list"

text \<open>
  A computation over a state \<open>'s\<close> (a writer, a reader, a channel) that ends with an error
  \<open>'e\<close> or a value \<open>'a\<close>; the state is returned on both paths, because bytes already
  written or consumed stay written or consumed when an operation fails.
\<close>

type_synonym ('s, 'e, 'a) io = "'s \<Rightarrow> ('e + 'a) \<times> 's"

definition okS :: "'a \<Rightarrow> ('s, 'e, 'a) io" where
  "okS x = (\<lambda>s. (Inr x, s))"

definition failS :: "'e \<Rightarrow> ('s, 'e, 'a) io" where
  "failS e = (\<lambda>s. (Inl e, s))"

definition bindS :: "('s, 'e, 'a) io \<Rightarrow> ('a \<Rightarrow> ('s, 'e, 'b) io) \<Rightarrow> ('s, 'e, 'b) io" where
  "bindS m f = (\<lambda>s. case m s of (Inl e, t) \<Rightarrow> (Inl e, t) | (Inr x, t) \<Rightarrow> f x t)"

definition ctx :: "('e \<Rightarrow> 'f) \<Rightarrow> ('s, 'e, 'a) io \<Rightarrow> ('s, 'f, 'a) io" where
  "ctx g m = (\<lambda>s. case m s of (Inl e, t) \<Rightarrow> (Inl (g e), t) | (Inr x, t) \<Rightarrow> (Inr x, t))"

primrec seqS :: "('s, 'e, unit) io list \<Rightarrow> ('s, 'e, unit) io" where
  "seqS [] = okS ()"
| "seqS (m # ms) = bindS m (\<lambda>_. seqS ms)"

definition is_ok :: "'e + 'a \<Rightarrow> bool" where
  "is_ok r = (case r of Inl _ \<Rightarrow> False | Inr _ \<Rightarrow> True)"

lemma is_ok_simps [simp]: "is_ok (Inr x)" "\<not> is_ok (Inl e)"
  by (simp_all add: is_ok_def)

lemma is_ok_iff: "is_ok r \<longleftrightarrow> (\<exists>x. r = Inr x)"
  by (cases r) auto

lemma is_ok_unit: "is_ok (fst (p :: ('e + unit) \<times> 's)) \<Longrightarrow> \<exists>s. p = (Inr (), s)"
  by (cases p) (auto simp: is_ok_iff)

lemma okS_apply [io_simps]: "okS x s = (Inr x, s)"
  by (simp add: okS_def)

lemma failS_apply [io_simps]: "failS e s = (Inl e, s)"
  by (simp add: failS_def)

lemma bindS_ok [io_simps]: "m s = (Inr x, t) \<Longrightarrow> bindS m f s = f x t"
  by (simp add: bindS_def)

lemma bindS_err [io_simps]: "m s = (Inl e, t) \<Longrightarrow> bindS m f s = (Inl e, t)"
  by (simp add: bindS_def)

lemma ctx_ok [io_simps]: "m s = (Inr x, t) \<Longrightarrow> ctx g m s = (Inr x, t)"
  by (simp add: ctx_def)

lemma ctx_err [io_simps]: "m s = (Inl e, t) \<Longrightarrow> ctx g m s = (Inl (g e), t)"
  by (simp add: ctx_def)

lemma bindS_Inr_iff:
  "bindS m f s = (Inr y, u) \<longleftrightarrow> (\<exists>x t. m s = (Inr x, t) \<and> f x t = (Inr y, u))"
  by (auto simp: bindS_def split: prod.splits sum.splits)

lemma ctx_Inr_iff: "ctx g m s = (Inr x, t) \<longleftrightarrow> m s = (Inr x, t)"
  by (auto simp: ctx_def split: prod.splits sum.splits)

lemma snd_ctx [simp]: "snd (ctx g m s) = snd (m s)"
  by (simp add: ctx_def split: prod.splits sum.splits)

lemma is_ok_ctx [simp]: "is_ok (fst (ctx g m s)) = is_ok (fst (m s))"
  by (simp add: ctx_def split: prod.splits sum.splits)

lemmas io_Inr_iffs = bindS_Inr_iff ctx_Inr_iff okS_apply failS_apply

subsection \<open>Strings\<close>

text \<open>
  A Rust \<open>str\<close> is its UTF-8 bytes; an HOL \<open>string\<close> is a list of 8-bit characters, so the
  two correspond byte for byte. \<open>lit\<close> turns a literal of the source into wire bytes and
  \<open>text_of\<close> reads wire bytes as a string (\<open>SshString::to_string\<close>).
\<close>

definition byte_of :: "char \<Rightarrow> u8" where
  "byte_of c = word_of_nat (of_char c)"

definition char_at :: "u8 \<Rightarrow> char" where
  "char_at b = char_of (unat b)"

definition lit :: "string \<Rightarrow> bytes" where
  "lit s = map byte_of s"

definition text_of :: "bytes \<Rightarrow> string" where
  "text_of bs = map char_at bs"

lemma char_at_byte_of [simp]: "char_at (byte_of c) = c"
proof -
  have "unat (byte_of c) = of_char c"
    by (simp add: byte_of_def unat_of_nat)
  then show ?thesis by (simp add: char_at_def)
qed

lemma byte_of_char_at [simp]: "byte_of (char_at b) = b"
proof -
  have "unat b < 256" using unsigned_less [of b] by simp
  then show ?thesis by (simp add: byte_of_def char_at_def)
qed

lemma lit_Nil [simp]: "lit [] = []"
  by (simp add: lit_def)

lemma lit_append [simp]: "lit (s @ t) = lit s @ lit t"
  by (simp add: lit_def)

lemma length_lit [simp]: "length (lit s) = length s"
  by (simp add: lit_def)

lemma text_of_lit [simp]: "text_of (lit s) = s"
  by (simp add: lit_def text_of_def comp_def map_idI)

lemma lit_text_of [simp]: "lit (text_of bs) = bs"
  by (simp add: lit_def text_of_def comp_def map_idI)

lemma lit_inject [simp]: "lit s = lit t \<longleftrightarrow> s = t"
  by (metis text_of_lit)

text \<open>
  UTF-8 well-formedness (\<open>std::str::from_utf8\<close>): the byte sequences of the Unicode
  standard's table of well-formed sequences, which excludes overlong forms, surrogates and
  values above U+10FFFF.
\<close>

definition utf8_cont :: "u8 \<Rightarrow> bool" where
  "utf8_cont b \<longleftrightarrow> 0x80 \<le> b \<and> b \<le> 0xBF"

definition utf8_second3 :: "u8 \<Rightarrow> u8 \<Rightarrow> bool" where
  "utf8_second3 a b \<longleftrightarrow>
     (if a = 0xE0 then 0xA0 \<le> b \<and> b \<le> 0xBF
      else if a = 0xED then 0x80 \<le> b \<and> b \<le> 0x9F else utf8_cont b)"

definition utf8_second4 :: "u8 \<Rightarrow> u8 \<Rightarrow> bool" where
  "utf8_second4 a b \<longleftrightarrow>
     (if a = 0xF0 then 0x90 \<le> b \<and> b \<le> 0xBF
      else if a = 0xF4 then 0x80 \<le> b \<and> b \<le> 0x8F else utf8_cont b)"

fun utf8_valid :: "bytes \<Rightarrow> bool" where
  "utf8_valid [] = True"
| "utf8_valid (a # bs) =
     (if a < 0x80 then utf8_valid bs
      else case bs of
        [] \<Rightarrow> False
      | b # cs \<Rightarrow>
          if 0xC2 \<le> a \<and> a \<le> 0xDF then utf8_cont b \<and> utf8_valid cs
          else (case cs of
            [] \<Rightarrow> False
          | c # ds \<Rightarrow>
              if 0xE0 \<le> a \<and> a \<le> 0xEF then utf8_second3 a b \<and> utf8_cont c \<and> utf8_valid ds
              else (case ds of
                [] \<Rightarrow> False
              | d # es \<Rightarrow>
                  0xF0 \<le> a \<and> a \<le> 0xF4 \<and> utf8_second4 a b \<and> utf8_cont c \<and> utf8_cont d
                  \<and> utf8_valid es)))"

definition ascii :: "string \<Rightarrow> bool" where
  "ascii s \<longleftrightarrow> list_all (\<lambda>c. byte_of c < 0x80) s"

lemma utf8_valid_ascii: "list_all (\<lambda>b. b < 0x80) bs \<Longrightarrow> utf8_valid bs"
  by (induction bs) simp_all

lemma utf8_valid_lit: "ascii s \<Longrightarrow> utf8_valid (lit s)"
  by (rule utf8_valid_ascii) (simp add: ascii_def lit_def list_all_iff)

end
