(* ===== verification/Streams.thy ===== *)
theory Streams
  imports Dssh_Prelude
begin

text \<open>
  The byte streams every component is generic over (\<open>W: AsyncWrite\<close>, \<open>R: AsyncRead\<close>). A
  writer remembers the bytes accepted so far and how many of them were flushed; its
  environment is a budget after which writes fail and a flag that makes a flush fail, so every
  error path of the callers is reachable. A reader is the bytes still to arrive and how the
  stream ends: cleanly, or with a transport error.
\<close>

datatype io_kind =
    NotFound | PermissionDenied | ConnectionRefused | ConnectionReset | HostUnreachable
  | NetworkUnreachable | ConnectionAborted | NotConnected | AddrInUse | AddrNotAvailable
  | NetworkDown | BrokenPipe | AlreadyExists | WouldBlock | InvalidInput | InvalidData
  | TimedOut | WriteZero | Interrupted | Unsupported | UnexpectedEof | OutOfMemory
  | OtherKind nat

type_synonym io_error = io_kind

record writer =
  w_out :: bytes
  w_room :: "nat option"
  w_flushed :: nat
  w_flush_ok :: bool
  w_shut :: bool
  w_err :: io_error

record reader =
  r_in :: bytes
  r_end :: "io_error option"

abbreviation rd :: "bytes \<Rightarrow> io_error option \<Rightarrow> reader" where
  "rd bs e \<equiv> \<lparr>r_in = bs, r_end = e\<rparr>"

definition fresh_writer :: writer where
  "fresh_writer = \<lparr>w_out = [], w_room = None, w_flushed = 0, w_flush_ok = True,
     w_shut = False, w_err = BrokenPipe\<rparr>"

definition fits :: "writer \<Rightarrow> bytes \<Rightarrow> bool" where
  "fits w bs \<longleftrightarrow> (case w_room w of None \<Rightarrow> True | Some n \<Rightarrow> length bs \<le> n)"

definition push :: "writer \<Rightarrow> bytes \<Rightarrow> writer" where
  "push w bs = w\<lparr>
     w_out := w_out w @ (case w_room w of None \<Rightarrow> bs | Some n \<Rightarrow> take n bs),
     w_room := map_option (\<lambda>n. n - length bs) (w_room w)\<rparr>"

definition write_all :: "bytes \<Rightarrow> (writer, io_error, unit) io" where
  "write_all bs = (\<lambda>w. (if fits w bs then Inr () else Inl (w_err w), push w bs))"

definition flush :: "(writer, io_error, unit) io" where
  "flush = (\<lambda>w. if w_flush_ok w then (Inr (), w\<lparr>w_flushed := length (w_out w)\<rparr>)
                else (Inl (w_err w), w))"

definition shutdown :: "(writer, io_error, unit) io" where
  "shutdown = (\<lambda>w. if w_flush_ok w
                   then (Inr (), w\<lparr>w_flushed := length (w_out w), w_shut := True\<rparr>)
                   else (Inl (w_err w), w))"

definition eof_error :: "reader \<Rightarrow> io_error" where
  "eof_error r = (case r_end r of None \<Rightarrow> UnexpectedEof | Some e \<Rightarrow> e)"

definition read_exact :: "nat \<Rightarrow> (reader, io_error, bytes) io" where
  "read_exact n = (\<lambda>r.
     if n \<le> length (r_in r) then (Inr (take n (r_in r)), r\<lparr>r_in := drop n (r_in r)\<rparr>)
     else (Inl (eof_error r), r\<lparr>r_in := []\<rparr>))"

definition read_u8 :: "(reader, io_error, u8) io" where
  "read_u8 = (\<lambda>r. case r_in r of
       [] \<Rightarrow> (Inl (eof_error r), r)
     | b # bs \<Rightarrow> (Inr b, r\<lparr>r_in := bs\<rparr>))"

subsection \<open>What an encoder writes\<close>

text \<open>
  \<open>emits m bs\<close>: whatever the writer's budget, \<open>m\<close> pushes the bytes \<open>bs\<close> (all of them, or
  the prefix that still fits) and succeeds exactly when all of them fit.
\<close>

definition emits :: "(writer, 'e, unit) io \<Rightarrow> bytes \<Rightarrow> bool" where
  "emits m bs \<longleftrightarrow> (\<forall>w. snd (m w) = push w bs \<and> (is_ok (fst (m w)) \<longleftrightarrow> fits w bs))"

lemma push_Nil [simp]: "push w [] = w"
  by (cases "w_room w") (simp_all add: push_def)

lemma fits_Nil [simp]: "fits w []"
  by (simp add: fits_def split: option.split)

lemma push_push: "push (push w a) b = push w (a @ b)"
  by (cases "w_room w") (simp_all add: push_def)

lemma fits_append: "fits w (a @ b) \<longleftrightarrow> fits w a \<and> fits (push w a) b"
  by (cases "w_room w") (auto simp: fits_def push_def)

lemma push_overflow: "\<not> fits w a \<Longrightarrow> push w (a @ b) = push w a"
  by (cases "w_room w") (auto simp: fits_def push_def)

lemma push_fields [simp]:
  "w_flush_ok (push w bs) = w_flush_ok w" "w_err (push w bs) = w_err w"
  "w_flushed (push w bs) = w_flushed w" "w_shut (push w bs) = w_shut w"
  by (simp_all add: push_def)

lemma w_out_push_fits: "fits w bs \<Longrightarrow> w_out (push w bs) = w_out w @ bs"
  by (auto simp: fits_def push_def split: option.splits)

lemma w_out_push_prefix: "\<exists>p. prefix p bs \<and> w_out (push w bs) = w_out w @ p"
  by (auto simp: push_def take_is_prefix split: option.splits)

lemma emits_ok [emits_intros]: "emits (okS ()) []"
  by (simp add: emits_def okS_def)

lemma emits_write_all [emits_intros]: "emits (write_all bs) bs"
  by (simp add: emits_def write_all_def)

lemma emits_ctx [emits_intros]: "emits m bs \<Longrightarrow> emits (ctx g m) bs"
  by (simp add: emits_def)

lemma emits_bind [emits_intros]:
  assumes "emits m a" and "emits k b"
  shows "emits (bindS m (\<lambda>_. k)) (a @ b)"
  unfolding emits_def
proof (intro allI)
  fix w
  obtain r t where m: "m w = (r, t)" by fastforce
  with assms(1) have t: "t = push w a" and r: "is_ok r \<longleftrightarrow> fits w a"
    unfolding emits_def by (metis snd_conv, metis fst_conv)
  show "snd (bindS m (\<lambda>_. k) w) = push w (a @ b)
        \<and> is_ok (fst (bindS m (\<lambda>_. k) w)) = fits w (a @ b)"
  proof (cases r)
    case (Inl e)
    with m t r show ?thesis
      by (simp add: bindS_def push_overflow fits_append)
  next
    case (Inr x)
    with m t r assms(2) show ?thesis
      by (simp add: bindS_def emits_def push_push fits_append)
  qed
qed

lemma emits_seq_Cons [emits_intros]:
  "emits m a \<Longrightarrow> emits (seqS ms) b \<Longrightarrow> emits (seqS (m # ms)) (a @ b)"
  by (simp add: emits_bind)

lemma emits_seq_Nil [emits_intros]: "emits (seqS []) []"
  by (simp add: emits_ok)

lemma emits_seq_single [emits_intros]: "emits m a \<Longrightarrow> emits (seqS [m]) a"
  using emits_seq_Cons [OF _ emits_seq_Nil, of m a] by simp

lemma emits_ok_state: "emits m bs \<Longrightarrow> m w = (Inr (), w') \<Longrightarrow> fits w bs \<and> w' = push w bs"
  unfolding emits_def by (metis fst_conv is_ok_simps(1) snd_conv)

lemma emits_run: "emits m bs \<Longrightarrow> fits w bs \<Longrightarrow> m w = (Inr (), push w bs)"
  unfolding emits_def by (metis is_ok_iff old.unit.exhaust prod.collapse)

lemma emits_prefix:
  "emits m bs \<Longrightarrow> \<exists>p. prefix p bs \<and> w_out (snd (m w)) = w_out w @ p"
  unfolding emits_def by (metis w_out_push_prefix)

text \<open>
  A message is a sequence of fields followed by a flush: on success everything written is
  flushed, and on any outcome the stream gained a prefix of the message.
\<close>

definition sends :: "(writer, 'e, unit) io \<Rightarrow> bytes \<Rightarrow> bool" where
  "sends m bs \<longleftrightarrow> (\<forall>w.
     (is_ok (fst (m w)) \<longleftrightarrow> fits w bs \<and> w_flush_ok w) \<and>
     (snd (m w) = (if fits w bs \<and> w_flush_ok w
                   then (push w bs)\<lparr>w_flushed := length (w_out w) + length bs\<rparr>
                   else push w bs)))"

lemma sends_flush:
  assumes "emits m bs"
  shows "sends (bindS m (\<lambda>_. ctx g flush)) bs"
  unfolding sends_def
proof (intro allI)
  fix w
  obtain r t where m: "m w = (r, t)" by fastforce
  with assms have t: "t = push w bs" and r: "is_ok r \<longleftrightarrow> fits w bs"
    unfolding emits_def by (metis snd_conv, metis fst_conv)
  show "(is_ok (fst (bindS m (\<lambda>_. ctx g flush) w)) \<longleftrightarrow> fits w bs \<and> w_flush_ok w) \<and>
     snd (bindS m (\<lambda>_. ctx g flush) w) =
       (if fits w bs \<and> w_flush_ok w
        then (push w bs)\<lparr>w_flushed := length (w_out w) + length bs\<rparr> else push w bs)"
    using m t r by (cases r) (auto simp: bindS_def ctx_def flush_def w_out_push_fits)
qed

lemma seqS_append: "seqS (ms @ ns) = bindS (seqS ms) (\<lambda>_. seqS ns)"
  by (induction ms) (auto simp: fun_eq_iff bindS_def okS_def split: prod.splits sum.splits)

lemma bindS_ok_right: "bindS m okS = m"
  by (auto simp: fun_eq_iff bindS_def okS_def split: prod.splits sum.splits)

lemma sends_seq: "emits (seqS ms) bs \<Longrightarrow> sends (seqS (ms @ [ctx g flush])) bs"
  by (simp add: seqS_append bindS_ok_right sends_flush)

lemma sends_ok_state:
  assumes "sends m bs" and "m w = (Inr (), w')"
  shows "w_out w' = w_out w @ bs" "w_flushed w' = length (w_out w')" "fits w bs"
proof -
  have ok: "fits w bs \<and> w_flush_ok w"
    using assms(1) [unfolded sends_def, rule_format, of w] assms(2) by simp
  then have "w' = (push w bs)\<lparr>w_flushed := length (w_out w) + length bs\<rparr>"
    using assms(1) [unfolded sends_def, rule_format, of w] assms(2) by simp
  with ok show "w_out w' = w_out w @ bs" "w_flushed w' = length (w_out w')" "fits w bs"
    by (simp_all add: w_out_push_fits)
qed

lemma sends_prefix:
  assumes "sends m bs"
  shows "\<exists>p. prefix p bs \<and> w_out (snd (m w)) = w_out w @ p"
proof -
  have "w_out (snd (m w)) = w_out (push w bs)"
    using assms by (simp add: sends_def)
  then show ?thesis by (metis w_out_push_prefix)
qed

lemma sends_run:
  assumes "sends m bs" and "fits w bs" and "w_flush_ok w"
  shows "\<exists>w'. m w = (Inr (), w') \<and> w_out w' = w_out w @ bs
           \<and> w_flushed w' = length (w_out w')"
proof -
  obtain w' where "m w = (Inr (), w')"
    using assms unfolding sends_def by (metis is_ok_iff old.unit.exhaust prod.collapse)
  with sends_ok_state [OF assms(1) this] show ?thesis by blast
qed

lemma fits_fresh [simp]: "fits fresh_writer bs"
  by (simp add: fits_def fresh_writer_def)

lemma fresh_writer_sel [simp]:
  "w_out fresh_writer = []" "w_flush_ok fresh_writer"
  by (simp_all add: fresh_writer_def)

text \<open>A writer whose transport takes everything.\<close>

definition endless :: "writer \<Rightarrow> bool" where
  "endless w \<longleftrightarrow> w_room w = None \<and> w_flush_ok w"

lemma endless_fits [simp]: "endless w \<Longrightarrow> fits w bs"
  by (simp add: endless_def fits_def)

lemma sends_endless:
  assumes "sends m bs" "endless w"
  shows "\<exists>w'. m w = (Inr (), w') \<and> endless w' \<and> w_out w' = w_out w @ bs"
proof -
  have f: "fits w bs \<and> w_flush_ok w" using assms(2) by (simp add: endless_def fits_def)
  then have "is_ok (fst (m w))" and st: "snd (m w) = (push w bs)\<lparr>w_flushed := length (w_out w) + length bs\<rparr>"
    using assms(1) by (simp_all add: sends_def)
  then obtain w' where w': "m w = (Inr (), w')" using is_ok_unit by blast
  then have "w' = (push w bs)\<lparr>w_flushed := length (w_out w) + length bs\<rparr>" using st by simp
  then have "endless w'" using assms(2) by (simp add: endless_def push_def)
  with w' sends_ok_state(1) [OF assms(1) w'] show ?thesis by blast
qed

lemma endless_fresh: "endless fresh_writer"
  by (simp add: endless_def fresh_writer_def)

lemma shutdown_endless: "endless w \<Longrightarrow> \<exists>w'. shutdown w = (Inr (), w')"
  by (simp add: shutdown_def endless_def)

subsection \<open>Reading\<close>

lemma read_exact_append [wire_simps]:
  "length xs = n \<Longrightarrow> read_exact n (rd (xs @ rest) e) = (Inr xs, rd rest e)"
  by (auto simp: read_exact_def)

lemma read_exact_Inr:
  "read_exact n r = (Inr xs, r') \<Longrightarrow> r_in r = xs @ r_in r' \<and> length xs = n \<and> r_end r' = r_end r"
  by (auto simp: read_exact_def split: if_splits)

lemma read_u8_Cons [wire_simps]: "read_u8 (rd (b # bs) e) = (Inr b, rd bs e)"
  by (simp add: read_u8_def)

lemma read_u8_Inr: "read_u8 r = (Inr b, r') \<Longrightarrow> r_in r = b # r_in r' \<and> r_end r' = r_end r"
  by (auto simp: read_u8_def split: list.splits)

subsection \<open>Streaming decoders\<close>

text \<open>
  \<open>streaming d\<close>: when \<open>d\<close> succeeds it consumed a prefix of the input, left the stream's end
  alone, and would have returned the same value whatever bytes follow. The predicate is closed
  under the monad, so a message decoder inherits it from its fields.
\<close>

definition streaming :: "(reader, 'e, 'a) io \<Rightarrow> bool" where
  "streaming d \<longleftrightarrow> (\<forall>bs e x r'. d (rd bs e) = (Inr x, r') \<longrightarrow>
     (\<exists>pre. bs = pre @ r_in r' \<and> r_end r' = e \<and>
        (\<forall>xs. d (rd (pre @ xs) e) = (Inr x, rd xs e))))"

named_theorems streaming_intros \<open>streaming decoders, compositionally\<close>

lemma reader_eta: "r = rd (r_in r) (r_end r)"
  by simp

lemma streaming_ok [streaming_intros]: "streaming (okS x)"
  by (auto simp: streaming_def okS_def)

lemma streaming_fail [streaming_intros]: "streaming (failS e)"
  by (simp add: streaming_def failS_def)

lemma streaming_ctx [streaming_intros]: "streaming d \<Longrightarrow> streaming (ctx g d)"
  by (fastforce simp: streaming_def ctx_Inr_iff)

lemma streaming_if [streaming_intros]:
  "streaming d \<Longrightarrow> streaming d' \<Longrightarrow> streaming (if b then d else d')"
  by simp

lemma streaming_bind [streaming_intros]:
  assumes m: "streaming m" and f: "\<And>x. streaming (f x)"
  shows "streaming (bindS m f)"
  unfolding streaming_def
proof (intro allI impI)
  fix bs e y r'
  assume "bindS m f (rd bs e) = (Inr y, r')"
  then obtain x t where 1: "m (rd bs e) = (Inr x, t)" and 2: "f x t = (Inr y, r')"
    by (auto simp: bindS_Inr_iff)
  from 1 m obtain p where p: "bs = p @ r_in t" "r_end t = e"
      "\<And>xs. m (rd (p @ xs) e) = (Inr x, rd xs e)"
    unfolding streaming_def by blast
  from 2 p(2) have "f x (rd (r_in t) e) = (Inr y, r')" by (metis reader_eta)
  with f [of x] obtain q where q: "r_in t = q @ r_in r'" "r_end r' = e"
      "\<And>xs. f x (rd (q @ xs) e) = (Inr y, rd xs e)"
    unfolding streaming_def by blast
  show "\<exists>pre. bs = pre @ r_in r' \<and> r_end r' = e \<and>
          (\<forall>xs. bindS m f (rd (pre @ xs) e) = (Inr y, rd xs e))"
    by (rule exI [of _ "p @ q"]) (simp add: p(1) q(1,2), simp add: bindS_def p(3) q(3))
qed

lemma streaming_read_exact [streaming_intros]: "streaming (read_exact n)"
  unfolding streaming_def
proof (intro allI impI)
  fix bs e x r'
  assume "read_exact n (rd bs e) = (Inr x, r')"
  then have "bs = x @ r_in r'" "length x = n" "r_end r' = e"
    using read_exact_Inr by force+
  then show "\<exists>pre. bs = pre @ r_in r' \<and> r_end r' = e \<and>
          (\<forall>xs. read_exact n (rd (pre @ xs) e) = (Inr x, rd xs e))"
    by (auto simp: read_exact_append)
qed

lemma streaming_read_u8 [streaming_intros]: "streaming read_u8"
  unfolding streaming_def
proof (intro allI impI)
  fix bs e x r'
  assume "read_u8 (rd bs e) = (Inr x, r')"
  then have "bs = [x] @ r_in r'" "r_end r' = e"
    using read_u8_Inr by force+
  then show "\<exists>pre. bs = pre @ r_in r' \<and> r_end r' = e \<and>
          (\<forall>xs. read_u8 (rd (pre @ xs) e) = (Inr x, rd xs e))"
    by (metis append_Cons append_Nil read_u8_Cons)
qed

lemma streaming_consumes:
  assumes "streaming d" and "d r = (Inr x, r')"
  shows "suffix (r_in r') (r_in r) \<and> r_end r' = r_end r"
proof -
  have "d (rd (r_in r) (r_end r)) = (Inr x, r')" using assms(2) by (metis reader_eta)
  with assms(1) obtain p where "r_in r = p @ r_in r'" "r_end r' = r_end r"
    unfolding streaming_def by blast
  then show ?thesis by (simp add: suffix_def)
qed

subsection \<open>Wire formats\<close>

text \<open>
  The contract of a type that is encoded onto and decoded from a stream (\<open>EncodeInto\<close> and
  \<open>DecodeFrom\<close>): \<open>img\<close> is the byte image of a value, \<open>valid\<close> the values the format can carry
  across. Encoding writes the image, decoding inverts it, a decoder only returns valid values,
  and it is streaming.
\<close>

definition survives ::
    "('a \<Rightarrow> (writer, 'e, unit) io) \<Rightarrow> (reader, 'd, 'a) io \<Rightarrow> 'a \<Rightarrow> bool" where
  "survives enc dec x \<longleftrightarrow> (\<forall>w w'. enc x w = (Inr (), w') \<longrightarrow>
     (\<exists>bs. w_out w' = w_out w @ bs
        \<and> (\<forall>rest e. dec (rd (bs @ rest) e) = (Inr x, rd rest e))
        \<and> (\<forall>p e. strict_prefix p bs \<longrightarrow> \<not> is_ok (fst (dec (rd p e))))))
   \<and> is_ok (fst (enc x fresh_writer))"

text \<open>
  \<open>survives enc dec x\<close>: \<open>x\<close> can be encoded, and whatever a successful encoding appended
  decodes to \<open>x\<close>, consuming exactly those bytes, while no truncation of them decodes.
\<close>

locale wire_format =
  fixes enc :: "'a \<Rightarrow> (writer, 'e, unit) io"
    and dec :: "(reader, 'd, 'a) io"
    and img :: "'a \<Rightarrow> bytes"
    and valid :: "'a \<Rightarrow> bool"
  assumes enc_emits: "valid x \<Longrightarrow> emits (enc x) (img x)"
    and dec_img: "valid x \<Longrightarrow> dec (rd (img x @ rest) e) = (Inr x, rd rest e)"
    and dec_valid: "dec r = (Inr x, r') \<Longrightarrow> valid x"
    and dec_streaming: "streaming dec"
begin

lemma img_prefix_free:
  assumes "valid x" and "valid y" and "img x @ xs = img y @ ys"
  shows "x = y \<and> xs = ys"
proof -
  have "dec (rd (img x @ xs) None) = (Inr y, rd ys None)"
    using assms(2,3) by (simp add: dec_img)
  with assms(1) show ?thesis by (simp add: dec_img)
qed

lemma dec_truncated:
  assumes "valid x" and "strict_prefix p (img x)"
  shows "\<not> is_ok (fst (dec (rd p e)))"
proof
  assume "is_ok (fst (dec (rd p e)))"
  then obtain y r' where d: "dec (rd p e) = (Inr y, r')"
    by (metis is_ok_iff prod.collapse)
  from dec_streaming d obtain q where q: "p = q @ r_in r'"
      "\<And>xs. dec (rd (q @ xs) e) = (Inr y, rd xs e)"
    unfolding streaming_def by blast
  from assms(2) obtain t where t: "img x = p @ t" "t \<noteq> []"
    by (auto simp: strict_prefix_def prefix_def)
  have "dec (rd (img x @ []) e) = (Inr x, rd [] e)" by (rule dec_img [OF assms(1)])
  moreover have "dec (rd (img x @ []) e) = (Inr y, rd (r_in r' @ t) e)"
    using q(2) [of "r_in r' @ t"] by (simp add: t(1) q(1))
  ultimately show False using t(2) by simp
qed

lemma delivery:
  assumes "valid x" and "enc x w = (Inr (), w')"
  shows "\<exists>bs. w_out w' = w_out w @ bs
    \<and> (\<forall>rest e. dec (rd (bs @ rest) e) = (Inr x, rd rest e))
    \<and> (\<forall>p e. strict_prefix p bs \<longrightarrow> \<not> is_ok (fst (dec (rd p e))))"
proof (intro exI conjI allI impI)
  show "w_out w' = w_out w @ img x"
    using emits_ok_state [OF enc_emits [OF assms(1)] assms(2)] by (simp add: w_out_push_fits)
qed (use assms(1) dec_img dec_truncated in blast)+

lemma survives: "valid x \<Longrightarrow> survives enc dec x"
  using delivery enc_emits [of x] by (simp add: survives_def emits_def)

end

end
