(* ===== verification/Varint_Api.thy ===== *)
theory Varint_Api
  imports Streams
begin

text \<open>
  The variable-length integer of the transport library (\<open>h3x::varint::VarInt\<close>), which is not
  part of this repository: a parameter of the model. The locale \<open>varint_codec\<close> names what the
  code relies on, the documented behaviour of QUIC integers (RFC 9000, section 16): values
  below \<open>2^62\<close>, a self-delimiting encoding that the decoder inverts. The RFC's encoding itself,
  \<open>quic_varint\<close>, is an instance: it discharges the laws and evaluates the witnesses.
\<close>

record varint_api =
  vi_enc :: "nat \<Rightarrow> bytes"
  vi_dec :: "bytes \<Rightarrow> (nat \<times> bytes) option"

definition VARINT_LIMIT :: nat where
  "VARINT_LIMIT = 2 ^ 62"

definition encode_varint :: "varint_api \<Rightarrow> nat \<Rightarrow> (writer, io_error, unit) io" where
  "encode_varint V n = write_all (vi_enc V n)"

definition decode_varint :: "varint_api \<Rightarrow> (reader, io_error, nat) io" where
  "decode_varint V = (\<lambda>r. case vi_dec V (r_in r) of
       None \<Rightarrow> (Inl (eof_error r), r\<lparr>r_in := []\<rparr>)
     | Some (n, rest) \<Rightarrow> (Inr n, r\<lparr>r_in := rest\<rparr>))"

definition quic_enc :: "nat \<Rightarrow> bytes" where
  "quic_enc n =
     (if n < 2 ^ 6 then [word_of_nat n]
      else if n < 2 ^ 14 then [word_of_nat (2 ^ 6 + n div 2 ^ 8), word_of_nat n]
      else if n < 2 ^ 30 then
        [word_of_nat (2 ^ 7 + n div 2 ^ 24), word_of_nat (n div 2 ^ 16),
         word_of_nat (n div 2 ^ 8), word_of_nat n]
      else
        [word_of_nat (3 * 2 ^ 6 + n div 2 ^ 56), word_of_nat (n div 2 ^ 48),
         word_of_nat (n div 2 ^ 40), word_of_nat (n div 2 ^ 32), word_of_nat (n div 2 ^ 24),
         word_of_nat (n div 2 ^ 16), word_of_nat (n div 2 ^ 8), word_of_nat n])"

definition quic_extra :: "u8 \<Rightarrow> nat" where
  "quic_extra b = (if b < 0x40 then 0 else if b < 0x80 then 1 else if b < 0xC0 then 3 else 7)"

definition big_endian :: "nat \<Rightarrow> bytes \<Rightarrow> nat" where
  "big_endian a bs = foldl (\<lambda>acc b. acc * 256 + unat b) a bs"

definition quic_dec :: "bytes \<Rightarrow> (nat \<times> bytes) option" where
  "quic_dec bs = (case bs of
       [] \<Rightarrow> None
     | b # rest \<Rightarrow>
         (if quic_extra b \<le> length rest
          then Some (big_endian (unat b mod 64) (take (quic_extra b) rest), drop (quic_extra b) rest)
          else None))"

definition quic_varint :: varint_api where
  "quic_varint = \<lparr>vi_enc = quic_enc, vi_dec = quic_dec\<rparr>"

locale varint_codec =
  fixes V :: varint_api
  assumes vi_dec_enc: "n < VARINT_LIMIT \<Longrightarrow> vi_dec V (vi_enc V n @ rest) = Some (n, rest)"
    and vi_dec_bound: "vi_dec V bs = Some (n, rest) \<Longrightarrow> n < VARINT_LIMIT"
    and vi_dec_streaming: "vi_dec V bs = Some (n, rest) \<Longrightarrow>
      \<exists>pre. pre \<noteq> [] \<and> bs = pre @ rest \<and> (\<forall>xs. vi_dec V (pre @ xs) = Some (n, xs))"
begin

lemma decode_varint_img:
  "n < VARINT_LIMIT \<Longrightarrow> decode_varint V (rd (vi_enc V n @ rest) e) = (Inr n, rd rest e)"
  by (simp add: decode_varint_def vi_dec_enc)

lemma decode_varint_bound: "decode_varint V r = (Inr n, r') \<Longrightarrow> n < VARINT_LIMIT"
  by (auto simp: decode_varint_def vi_dec_bound split: option.splits)

lemma decode_varint_streaming: "streaming (decode_varint V)"
  unfolding streaming_def
proof (intro allI impI)
  fix bs e n r'
  assume "decode_varint V (rd bs e) = (Inr n, r')"
  then obtain rest where d: "vi_dec V bs = Some (n, rest)" and r': "r' = rd rest e"
    by (auto simp: decode_varint_def split: option.splits)
  from vi_dec_streaming [OF d] obtain pre where
      "bs = pre @ rest" "\<forall>xs. vi_dec V (pre @ xs) = Some (n, xs)" by blast
  with r' show "\<exists>pre. bs = pre @ r_in r' \<and> r_end r' = e \<and>
        (\<forall>xs. decode_varint V (rd (pre @ xs) e) = (Inr n, rd xs e))"
    by (auto simp: decode_varint_def)
qed

lemma decode_varint_consumes:
  "decode_varint V r = (Inr n, r') \<Longrightarrow> length (r_in r') < length (r_in r)"
  by (force simp: decode_varint_def split: option.splits dest: vi_dec_streaming)

lemma decode_varint_prefix_code:
  "n < VARINT_LIMIT \<Longrightarrow> vi_enc V n \<noteq> []"
  using vi_dec_enc [of n "[]"] vi_dec_streaming [of "vi_enc V n" n "[]"] by auto

end

lemma emits_encode_varint [emits_intros]: "emits (encode_varint V n) (vi_enc V n)"
  by (simp add: encode_varint_def emits_write_all)

sublocale varint_codec \<subseteq> varint: wire_format "encode_varint V" "decode_varint V" "vi_enc V"
    "\<lambda>n. n < VARINT_LIMIT"
  by unfold_locales
    (simp_all add: emits_encode_varint decode_varint_img decode_varint_bound decode_varint_streaming)

text \<open>The RFC 9000 encoding satisfies the laws.\<close>

lemma unat_byte: "n < 256 \<Longrightarrow> unat (word_of_nat n :: u8) = n"
  by (simp add: unat_of_nat)

lemma unat_byte_mod: "unat (word_of_nat n :: u8) = n mod 256"
  by (simp add: unat_of_nat)

lemma tag_mod [simp]:
  "m < 64 \<Longrightarrow> (128 + m) mod 64 = (m :: nat)" "m < 64 \<Longrightarrow> (192 + m) mod 64 = (m :: nat)"
  using mod_mult_self1 [of m 2 64] mod_mult_self1 [of m 3 64] by (simp_all add: add.commute)

lemma quic_dec_1:
  "unat b = m \<Longrightarrow> m < 64 \<Longrightarrow> quic_dec (b # rest) = Some (m, rest)"
  by (auto simp: quic_dec_def quic_extra_def word_less_nat_alt big_endian_def)

lemma quic_dec_2:
  "unat b = 64 + m \<Longrightarrow> m < 64 \<Longrightarrow> quic_dec (b # c # rest) = Some (m * 256 + unat c, rest)"
  by (auto simp: quic_dec_def quic_extra_def word_less_nat_alt big_endian_def)

lemma quic_dec_4:
  "unat b = 128 + m \<Longrightarrow> m < 64 \<Longrightarrow> quic_dec (b # b1 # b2 # b3 # rest)
     = Some (((m * 256 + unat b1) * 256 + unat b2) * 256 + unat b3, rest)"
  by (auto simp: quic_dec_def quic_extra_def word_less_nat_alt big_endian_def)

lemma quic_dec_8:
  "unat b = 192 + m \<Longrightarrow> m < 64 \<Longrightarrow> quic_dec (b # b1 # b2 # b3 # b4 # b5 # b6 # b7 # rest)
     = Some (((((((m * 256 + unat b1) * 256 + unat b2) * 256 + unat b3) * 256 + unat b4) * 256
         + unat b5) * 256 + unat b6) * 256 + unat b7, rest)"
  by (auto simp: quic_dec_def quic_extra_def word_less_nat_alt big_endian_def)

lemma div_mod_256: "(n div 256 ^ Suc k) * 256 + (n div 256 ^ k) mod 256 = (n :: nat) div 256 ^ k"
proof -
  have "n div 256 ^ Suc k = n div 256 ^ k div 256"
    by (simp only: power_Suc2 div_mult2_eq)
  then show ?thesis by simp
qed

lemma quic_dec_enc:
  assumes "n < VARINT_LIMIT"
  shows "quic_dec (quic_enc n @ rest) = Some (n, rest)"
proof -
  have D: "(n div 2 ^ 8) * 256 + n mod 256 = n"
    "(n div 2 ^ 16) * 256 + (n div 2 ^ 8) mod 256 = n div 2 ^ 8"
    "(n div 2 ^ 24) * 256 + (n div 2 ^ 16) mod 256 = n div 2 ^ 16"
    "(n div 2 ^ 32) * 256 + (n div 2 ^ 24) mod 256 = n div 2 ^ 24"
    "(n div 2 ^ 40) * 256 + (n div 2 ^ 32) mod 256 = n div 2 ^ 32"
    "(n div 2 ^ 48) * 256 + (n div 2 ^ 40) mod 256 = n div 2 ^ 40"
    "(n div 2 ^ 56) * 256 + (n div 2 ^ 48) mod 256 = n div 2 ^ 48"
    using div_mod_256 [of n 0] div_mod_256 [of n 1] div_mod_256 [of n 2] div_mod_256 [of n 3]
      div_mod_256 [of n 4] div_mod_256 [of n 5] div_mod_256 [of n 6]
    by simp_all
  consider "n < 2 ^ 6" | "2 ^ 6 \<le> n" "n < 2 ^ 14" | "2 ^ 14 \<le> n" "n < 2 ^ 30" | "2 ^ 30 \<le> n"
    by linarith
  then show ?thesis
  proof cases
    case 1
    then show ?thesis by (simp add: quic_enc_def quic_dec_1 unat_byte)
  next
    case 2
    then have m: "n div 2 ^ 8 < 64" by (simp add: less_mult_imp_div_less)
    have "unat (word_of_nat (2 ^ 6 + n div 2 ^ 8) :: u8) = 64 + n div 2 ^ 8"
      using m by (subst unat_byte) simp_all
    from quic_dec_2 [OF this m] 2 D(1) show ?thesis
      by (simp add: quic_enc_def unat_byte_mod)
  next
    case 3
    then have m: "n div 2 ^ 24 < 64" by (simp add: less_mult_imp_div_less)
    have "unat (word_of_nat (2 ^ 7 + n div 2 ^ 24) :: u8) = 128 + n div 2 ^ 24"
      using m by (subst unat_byte) simp_all
    from quic_dec_4 [OF this m, of "word_of_nat (n div 2 ^ 16)" "word_of_nat (n div 2 ^ 8)"
        "word_of_nat n" rest] 3
    show ?thesis unfolding quic_enc_def unat_byte_mod D by simp
  next
    case 4
    from assms have m: "n div 2 ^ 56 < 64"
      by (simp add: VARINT_LIMIT_def less_mult_imp_div_less)
    have "unat (word_of_nat (3 * 2 ^ 6 + n div 2 ^ 56) :: u8) = 192 + n div 2 ^ 56"
      using m by (subst unat_byte) simp_all
    from quic_dec_8 [OF this m, of "word_of_nat (n div 2 ^ 48)" "word_of_nat (n div 2 ^ 40)"
        "word_of_nat (n div 2 ^ 32)" "word_of_nat (n div 2 ^ 24)" "word_of_nat (n div 2 ^ 16)"
        "word_of_nat (n div 2 ^ 8)" "word_of_nat n" rest] 4
    show ?thesis unfolding quic_enc_def unat_byte_mod D by simp
  qed
qed

lemma big_endian_bound: "a < 64 \<Longrightarrow> length bs \<le> 7 \<Longrightarrow> big_endian a bs < VARINT_LIMIT"
proof -
  have *: "big_endian a bs < (a + 1) * 256 ^ length bs" for a bs
  proof (induction bs rule: rev_induct)
    case (snoc b bs)
    have "unat b < 256" using unsigned_less [of b] by simp
    with snoc show ?case by (simp add: big_endian_def)
  qed (simp add: big_endian_def)
  assume "a < 64" "length bs \<le> 7"
  then have "(a + 1) * 256 ^ length bs \<le> 64 * 256 ^ 7"
    by (intro mult_le_mono power_increasing) auto
  with * [of a bs] show ?thesis by (simp add: VARINT_LIMIT_def)
qed

lemma quic_dec_bound: "quic_dec bs = Some (n, rest) \<Longrightarrow> n < VARINT_LIMIT"
  by (auto simp: quic_dec_def quic_extra_def split: list.splits if_splits
      intro!: big_endian_bound)

lemma quic_dec_streaming:
  assumes "quic_dec bs = Some (n, rest)"
  shows "\<exists>pre. pre \<noteq> [] \<and> bs = pre @ rest \<and> (\<forall>xs. quic_dec (pre @ xs) = Some (n, xs))"
proof -
  from assms obtain b t where bs: "bs = b # t" and k: "quic_extra b \<le> length t"
    and n: "n = big_endian (unat b mod 64) (take (quic_extra b) t)"
    and r: "rest = drop (quic_extra b) t"
    by (auto simp: quic_dec_def split: list.splits if_splits)
  show ?thesis
    by (rule exI [of _ "b # take (quic_extra b) t"])
      (use k in \<open>simp add: bs r n quic_dec_def min_def\<close>)
qed

interpretation quic: varint_codec quic_varint
  by unfold_locales
    (simp_all add: quic_varint_def quic_dec_enc quic_dec_bound quic_dec_streaming)

end
