(* ===== verification/Codec.thy ===== *)
theory Codec
  imports Varint_Api
begin

text \<open>
  The primitive wire types of \<open>src/codec.rs\<close>: length-prefixed strings and byte strings and
  the one-byte boolean, with their error type, and the bound on every length received from
  the peer. Byte sequences are lists of 8-bit words; a \<open>usize\<close> is that of a 64-bit target.
\<close>

datatype codec_error =
    FieldLengthOverflow string nat
  | FieldTooLarge string nat nat
  | SshStringTooLong
  | SshBytesTooLong
  | InvalidSshStringUtf8
  | InvalidSshBoolByte u8
  | CodecReadIo io_error
  | CodecWriteIo io_error

definition USIZE_MAX :: nat where
  "USIZE_MAX = 2 ^ 64 - 1"

definition MAX_REMOTE_FIELD_SIZE :: nat where
  "MAX_REMOTE_FIELD_SIZE = 2 ^ 20"

definition checked_remote_field_len :: "nat \<Rightarrow> string \<Rightarrow> codec_error + nat" where
  "checked_remote_field_len len field_name =
     (if len > USIZE_MAX then Inl (FieldLengthOverflow field_name len)
      else if len > MAX_REMOTE_FIELD_SIZE
      then Inl (FieldTooLarge field_name len MAX_REMOTE_FIELD_SIZE)
      else Inr len)"

text \<open>
  \<open>SshString\<close> and \<open>SshBytes\<close> both wrap \<open>Bytes\<close>; the string's constructors keep the bytes
  valid UTF-8, which \<open>Deref\<close> relies on (\<open>from_utf8_unchecked\<close>).
\<close>

type_synonym ssh_string = bytes
type_synonym ssh_bytes = bytes

definition ssh_string_from_static :: "string \<Rightarrow> ssh_string" where
  "ssh_string_from_static s = lit s"

definition ssh_string_from :: "string \<Rightarrow> ssh_string" where
  "ssh_string_from s = lit s"

definition ssh_string_try_from :: "bytes \<Rightarrow> ssh_string option" where
  "ssh_string_try_from bs = (if utf8_valid bs then Some bs else None)"

definition ssh_string_to_string :: "ssh_string \<Rightarrow> string" where
  "ssh_string_to_string s = text_of s"

definition liftE :: "'e + 'a \<Rightarrow> ('s, 'e, 'a) io" where
  "liftE r = (case r of Inl e \<Rightarrow> failS e | Inr x \<Rightarrow> okS x)"

definition enc_ssh_string :: "varint_api \<Rightarrow> ssh_string \<Rightarrow> (writer, codec_error, unit) io" where
  "enc_ssh_string V s =
     (if length s < VARINT_LIMIT
      then seqS [ctx CodecWriteIo (encode_varint V (length s)), ctx CodecWriteIo (write_all s)]
      else failS SshStringTooLong)"

definition dec_ssh_string :: "varint_api \<Rightarrow> (reader, codec_error, ssh_string) io" where
  "dec_ssh_string V =
     bindS (ctx CodecReadIo (decode_varint V)) (\<lambda>n.
     bindS (liftE (checked_remote_field_len n ''ssh string'')) (\<lambda>len.
     bindS (ctx CodecReadIo (read_exact len)) (\<lambda>buf.
       if utf8_valid buf then okS buf else failS InvalidSshStringUtf8)))"

definition enc_ssh_bytes :: "varint_api \<Rightarrow> ssh_bytes \<Rightarrow> (writer, codec_error, unit) io" where
  "enc_ssh_bytes V s =
     (if length s < VARINT_LIMIT
      then seqS [ctx CodecWriteIo (encode_varint V (length s)), ctx CodecWriteIo (write_all s)]
      else failS SshBytesTooLong)"

definition dec_ssh_bytes :: "varint_api \<Rightarrow> (reader, codec_error, ssh_bytes) io" where
  "dec_ssh_bytes V =
     bindS (ctx CodecReadIo (decode_varint V)) (\<lambda>n.
     bindS (liftE (checked_remote_field_len n ''ssh bytes'')) (\<lambda>len.
       ctx CodecReadIo (read_exact len)))"

definition enc_ssh_bool :: "bool \<Rightarrow> (writer, codec_error, unit) io" where
  "enc_ssh_bool b = ctx CodecWriteIo (write_all [if b then 0x01 else 0x00])"

definition dec_ssh_bool :: "(reader, codec_error, bool) io" where
  "dec_ssh_bool =
     bindS (ctx CodecReadIo read_u8) (\<lambda>byte.
       if byte = 0x00 then okS False
       else if byte = 0x01 then okS True
       else failS (InvalidSshBoolByte byte))"

definition img_ssh_string :: "varint_api \<Rightarrow> ssh_string \<Rightarrow> bytes" where
  "img_ssh_string V s = vi_enc V (length s) @ s"

definition img_ssh_bool :: "bool \<Rightarrow> bytes" where
  "img_ssh_bool b = [if b then 0x01 else 0x00]"

definition valid_ssh_string :: "ssh_string \<Rightarrow> bool" where
  "valid_ssh_string s \<longleftrightarrow> utf8_valid s \<and> length s \<le> MAX_REMOTE_FIELD_SIZE"

definition valid_ssh_bytes :: "ssh_bytes \<Rightarrow> bool" where
  "valid_ssh_bytes s \<longleftrightarrow> length s \<le> MAX_REMOTE_FIELD_SIZE"

subsection \<open>Basic facts\<close>

lemma size_limits:
  "n \<le> MAX_REMOTE_FIELD_SIZE \<Longrightarrow> n < VARINT_LIMIT"
  "n < VARINT_LIMIT \<Longrightarrow> n \<le> USIZE_MAX"
  by (simp_all add: MAX_REMOTE_FIELD_SIZE_def VARINT_LIMIT_def USIZE_MAX_def)

lemma checked_len_ok:
  "len \<le> MAX_REMOTE_FIELD_SIZE \<Longrightarrow> checked_remote_field_len len f = Inr len"
  by (simp add: checked_remote_field_len_def MAX_REMOTE_FIELD_SIZE_def USIZE_MAX_def)

lemma checked_len_Inr:
  "checked_remote_field_len len f = Inr n \<longleftrightarrow> n = len \<and> len \<le> MAX_REMOTE_FIELD_SIZE"
  by (auto simp: checked_remote_field_len_def MAX_REMOTE_FIELD_SIZE_def USIZE_MAX_def)

lemma liftE_simps [io_simps]: "liftE (Inr x) s = (Inr x, s)" "liftE (Inl e) s = (Inl e, s)"
  by (simp_all add: liftE_def io_simps)

lemma liftE_Inr_iff: "liftE v s = (Inr x, t) \<longleftrightarrow> v = Inr x \<and> t = s"
  by (cases v) (auto simp: io_simps)

lemma streaming_liftE [streaming_intros]: "streaming (liftE v)"
  by (cases v) (simp_all add: liftE_def streaming_intros)

lemma valid_lit: "ascii s \<Longrightarrow> length s \<le> MAX_REMOTE_FIELD_SIZE \<Longrightarrow> valid_ssh_string (lit s)"
  by (simp add: valid_ssh_string_def utf8_valid_lit)

lemma emits_ssh_string [emits_intros]:
  "length s < VARINT_LIMIT \<Longrightarrow> emits (enc_ssh_string V s) (img_ssh_string V s)"
  unfolding enc_ssh_string_def img_ssh_string_def
  by (auto simp: bindS_ok_right intro!: emits_intros)

lemma emits_ssh_bytes [emits_intros]:
  "length s < VARINT_LIMIT \<Longrightarrow> emits (enc_ssh_bytes V s) (img_ssh_string V s)"
  unfolding enc_ssh_bytes_def img_ssh_string_def
  by (auto simp: bindS_ok_right intro!: emits_intros)

lemma emits_ssh_bool [emits_intros]: "emits (enc_ssh_bool b) (img_ssh_bool b)"
  unfolding enc_ssh_bool_def img_ssh_bool_def by (intro emits_intros)

interpretation ssh_bool: wire_format enc_ssh_bool dec_ssh_bool img_ssh_bool "\<lambda>_. True"
proof unfold_locales
  show "dec_ssh_bool (rd (img_ssh_bool x @ rest) e) = (Inr x, rd rest e)" for x rest e
    by (simp add: dec_ssh_bool_def img_ssh_bool_def io_simps wire_simps)
  show "streaming dec_ssh_bool"
    unfolding dec_ssh_bool_def by (intro streaming_intros)
qed (simp_all add: emits_ssh_bool)

lemmas ssh_bool_img [wire_simps] = ssh_bool.dec_img [OF TrueI]

context varint_codec
begin

lemma dec_varint_append [wire_simps]:
  "n < VARINT_LIMIT \<Longrightarrow> decode_varint V (rd (vi_enc V n @ rest) e) = (Inr n, rd rest e)"
  by (rule decode_varint_img)

lemma dec_varint_exact:
  "n < VARINT_LIMIT \<Longrightarrow> decode_varint V (rd (vi_enc V n) e) = (Inr n, rd [] e)"
  using decode_varint_img [of n "[]"] by simp

lemma dec_ssh_string_append:
  "valid_ssh_string s \<Longrightarrow> dec_ssh_string V (rd (img_ssh_string V s @ rest) e) = (Inr s, rd rest e)"
  by (simp add: valid_ssh_string_def dec_ssh_string_def img_ssh_string_def io_simps wire_simps
      size_limits checked_len_ok)

lemma dec_ssh_bytes_append:
  "valid_ssh_bytes s \<Longrightarrow> dec_ssh_bytes V (rd (img_ssh_string V s @ rest) e) = (Inr s, rd rest e)"
  by (simp add: valid_ssh_bytes_def dec_ssh_bytes_def img_ssh_string_def io_simps wire_simps
      size_limits checked_len_ok)

lemma dec_ssh_string_valid: "dec_ssh_string V r = (Inr s, r') \<Longrightarrow> valid_ssh_string s"
  by (auto simp: dec_ssh_string_def valid_ssh_string_def io_Inr_iffs liftE_Inr_iff checked_len_Inr
      split: if_splits dest!: read_exact_Inr)

lemma dec_ssh_bytes_valid: "dec_ssh_bytes V r = (Inr s, r') \<Longrightarrow> valid_ssh_bytes s"
  by (auto simp: dec_ssh_bytes_def valid_ssh_bytes_def io_Inr_iffs liftE_Inr_iff checked_len_Inr
      split: if_splits dest!: read_exact_Inr)

lemma streaming_codec [streaming_intros]:
  "streaming (dec_ssh_string V)" "streaming (dec_ssh_bytes V)" "streaming dec_ssh_bool"
  unfolding dec_ssh_string_def dec_ssh_bytes_def
  by (intro streaming_intros decode_varint_streaming, intro streaming_intros decode_varint_streaming,
      rule ssh_bool.dec_streaming)

end

sublocale varint_codec \<subseteq> ssh_string: wire_format "enc_ssh_string V" "dec_ssh_string V"
    "img_ssh_string V" valid_ssh_string
  by unfold_locales
    (auto simp: valid_ssh_string_def size_limits dec_ssh_string_append streaming_codec
      dest: dec_ssh_string_valid intro: emits_ssh_string)

sublocale varint_codec \<subseteq> ssh_bytes: wire_format "enc_ssh_bytes V" "dec_ssh_bytes V"
    "img_ssh_string V" valid_ssh_bytes
  by unfold_locales
    (auto simp: valid_ssh_bytes_def size_limits dec_ssh_bytes_append streaming_codec
      dest: dec_ssh_bytes_valid intro: emits_ssh_bytes)


context varint_codec
begin

lemmas ssh_string_delivery = ssh_string.delivery

end

subsection \<open>Properties\<close>

lemma fresh_run: "emits m bs \<Longrightarrow> \<exists>w'. m fresh_writer = (Inr (), w')"
  using emits_run [of m bs fresh_writer] by simp

text \<open>
  Strings survive the wire. A string of at most 1 MiB of valid UTF-8 that is encoded
  successfully is decoded to itself from the bytes written, consuming exactly those bytes,
  whatever follows; a truncated image is never accepted.
\<close>

theorem ssh_string_roundtrip:
  assumes "varint_codec V" and "valid_ssh_string s" and "enc_ssh_string V s w = (Inr (), w')"
  shows "\<exists>bs. w_out w' = w_out w @ bs
    \<and> (\<forall>rest e. dec_ssh_string V (rd (bs @ rest) e) = (Inr s, rd rest e))
    \<and> (\<forall>p e. strict_prefix p bs \<longrightarrow> \<not> is_ok (fst (dec_ssh_string V (rd p e))))"
  by (rule varint_codec.ssh_string_delivery [OF assms])

theorem ssh_string_roundtrip_witness:
  "\<exists>w'. enc_ssh_string quic_varint (lit ''exec'') fresh_writer = (Inr (), w') \<and>
     dec_ssh_string quic_varint (rd (w_out w' @ [9]) None) = (Inr (lit ''exec''), rd [9] None)"
proof -
  have v: "valid_ssh_string (lit ''exec'')"
    by (simp add: valid_ssh_string_def MAX_REMOTE_FIELD_SIZE_def lit_def byte_of_def)
  obtain w' where "enc_ssh_string quic_varint (lit ''exec'') fresh_writer = (Inr (), w')"
    using fresh_run [OF quic.ssh_string.enc_emits [OF v]] by blast
  from ssh_string_roundtrip [OF quic.varint_codec_axioms v this] this show ?thesis by force
qed

text \<open>
  C26: fields from the peer are bounded. Whatever bytes arrive, a decoded string is at most
  1 MiB of valid UTF-8 and a decoded byte string at most 1 MiB; a larger announced length is
  refused before any of the payload is read or buffered.
\<close>

theorem remote_fields_bounded:
  assumes "varint_codec V"
  shows "(\<forall>r s r'. dec_ssh_string V r = (Inr s, r') \<longrightarrow>
           utf8_valid s \<and> length s \<le> MAX_REMOTE_FIELD_SIZE)
    \<and> (\<forall>r s r'. dec_ssh_bytes V r = (Inr s, r') \<longrightarrow> length s \<le> MAX_REMOTE_FIELD_SIZE)
    \<and> (\<forall>n rest e. MAX_REMOTE_FIELD_SIZE < n \<and> n < VARINT_LIMIT \<longrightarrow>
         dec_ssh_string V (rd (vi_enc V n @ rest) e)
           = (Inl (FieldTooLarge ''ssh string'' n MAX_REMOTE_FIELD_SIZE), rd rest e) \<and>
         dec_ssh_bytes V (rd (vi_enc V n @ rest) e)
           = (Inl (FieldTooLarge ''ssh bytes'' n MAX_REMOTE_FIELD_SIZE), rd rest e))"
  using varint_codec.dec_ssh_string_valid [OF assms] varint_codec.dec_ssh_bytes_valid [OF assms]
  by (auto simp: valid_ssh_string_def valid_ssh_bytes_def dec_ssh_string_def dec_ssh_bytes_def
      io_simps varint_codec.dec_varint_append [OF assms] checked_remote_field_len_def
      dest: size_limits(2))

theorem remote_fields_bounded_witness:
  "fst (dec_ssh_bytes quic_varint (rd (vi_enc quic_varint (2 ^ 21) @ [1, 2]) None))
     = Inl (FieldTooLarge ''ssh bytes'' (2 ^ 21) MAX_REMOTE_FIELD_SIZE)"
  using remote_fields_bounded [OF quic.varint_codec_axioms]
  by (simp add: MAX_REMOTE_FIELD_SIZE_def VARINT_LIMIT_def)

end
