(* ===== verification/Channel.thy ===== *)
theory Channel
  imports Codec
begin

text \<open>
  SSH channels: the message numbers of \<open>src/message.rs\<close> and \<open>src/channel.rs\<close> and the reader,
  writer and handshake operations of \<open>src/conversation/channel.rs\<close>. A writer operation is a
  sequence of fields, each with the error it is reported under, followed by a flush; a reader
  operation decodes a message header and leaves the payload on the stream. The constructors
  of the source's error enums carry a prefix, because HOL constructors share one name space.
\<close>

subsection \<open>Message numbers and reason codes\<close>

definition SSH_MSG_GLOBAL_REQUEST :: nat where "SSH_MSG_GLOBAL_REQUEST = 80"
definition SSH_MSG_REQUEST_SUCCESS :: nat where "SSH_MSG_REQUEST_SUCCESS = 81"
definition SSH_MSG_REQUEST_FAILURE :: nat where "SSH_MSG_REQUEST_FAILURE = 82"
definition SSH_MSG_CHANNEL_OPEN_CONFIRMATION :: nat where "SSH_MSG_CHANNEL_OPEN_CONFIRMATION = 91"
definition SSH_MSG_CHANNEL_OPEN_FAILURE :: nat where "SSH_MSG_CHANNEL_OPEN_FAILURE = 92"
definition SSH_MSG_CHANNEL_DATA :: nat where "SSH_MSG_CHANNEL_DATA = 94"
definition SSH_MSG_CHANNEL_EXTENDED_DATA :: nat where "SSH_MSG_CHANNEL_EXTENDED_DATA = 95"
definition SSH_MSG_CHANNEL_EOF :: nat where "SSH_MSG_CHANNEL_EOF = 96"
definition SSH_MSG_CHANNEL_CLOSE :: nat where "SSH_MSG_CHANNEL_CLOSE = 97"
definition SSH_MSG_CHANNEL_REQUEST :: nat where "SSH_MSG_CHANNEL_REQUEST = 98"
definition SSH_MSG_CHANNEL_SUCCESS :: nat where "SSH_MSG_CHANNEL_SUCCESS = 99"
definition SSH_MSG_CHANNEL_FAILURE :: nat where "SSH_MSG_CHANNEL_FAILURE = 100"
definition SSH_EXTENDED_DATA_STDERR :: nat where "SSH_EXTENDED_DATA_STDERR = 1"
definition ADMINISTRATIVELY_PROHIBITED :: nat where "ADMINISTRATIVELY_PROHIBITED = 1"
definition CONNECT_FAILED :: nat where "CONNECT_FAILED = 2"
definition UNKNOWN_CHANNEL_TYPE :: nat where "UNKNOWN_CHANNEL_TYPE = 3"
definition RESOURCE_SHORTAGE :: nat where "RESOURCE_SHORTAGE = 4"
definition DEFAULT_MAX_MESSAGE_SIZE :: nat where "DEFAULT_MAX_MESSAGE_SIZE = 2 ^ 20"
definition DSHELL_CONTROL_STREAM_KIND :: nat where "DSHELL_CONTROL_STREAM_KIND = 0"
definition DSHELL_CHANNEL_STREAM_KIND :: nat where "DSHELL_CHANNEL_STREAM_KIND = 1"

lemmas msg_nums =
  SSH_MSG_GLOBAL_REQUEST_def SSH_MSG_REQUEST_SUCCESS_def SSH_MSG_REQUEST_FAILURE_def
  SSH_MSG_CHANNEL_OPEN_CONFIRMATION_def SSH_MSG_CHANNEL_OPEN_FAILURE_def SSH_MSG_CHANNEL_DATA_def
  SSH_MSG_CHANNEL_EXTENDED_DATA_def SSH_MSG_CHANNEL_EOF_def SSH_MSG_CHANNEL_CLOSE_def
  SSH_MSG_CHANNEL_REQUEST_def SSH_MSG_CHANNEL_SUCCESS_def SSH_MSG_CHANNEL_FAILURE_def
  SSH_EXTENDED_DATA_STDERR_def ADMINISTRATIVELY_PROHIBITED_def CONNECT_FAILED_def
  UNKNOWN_CHANNEL_TYPE_def RESOURCE_SHORTAGE_def DEFAULT_MAX_MESSAGE_SIZE_def
  DSHELL_CONTROL_STREAM_KIND_def DSHELL_CHANNEL_STREAM_KIND_def

subsection \<open>Error types\<close>

record channel_open_failure =
  reason_code :: nat
  description :: ssh_string

datatype ('pe, 'se) send_channel_request_error =
    SCR_EncodeMessageType io_error
  | SCR_EncodeRequestType codec_error
  | SCR_EncodeWantReply codec_error
  | SCR_EncodePayload 'pe
  | SCR_Flush io_error
  | SCR_DecodeResponseType io_error
  | SCR_DecodeSuccess 'se
  | SCR_Rejected
  | SCR_UnexpectedResponseType nat

datatype 'pe send_channel_notice_error =
    SCN_EncodeMessageType io_error
  | SCN_EncodeRequestType codec_error
  | SCN_EncodeWantReply codec_error
  | SCN_EncodePayload 'pe
  | SCN_Flush io_error

datatype read_channel_event_error =
    RCE_DecodeMessageType io_error
  | RCE_DecodeData io_error
  | RCE_DecodeExtendedDataType io_error
  | RCE_DecodeExtendedData io_error
  | RCE_DecodeRequestType codec_error
  | RCE_DecodeWantReply codec_error
  | RCE_UnexpectedMessageType nat
  | RCE_UnexpectedWantReply ssh_string

datatype 're respond_channel_success_error =
    RCS_EncodeMessageType io_error
  | RCS_EncodePayload 're
  | RCS_Flush io_error

datatype respond_channel_failure_error =
    RCF_EncodeMessageType io_error
  | RCF_Flush io_error

text \<open>\<open>WD_Panic\<close> and \<open>WED_Panic\<close> are the \<open>expect\<close> on a length beyond the integer's range.\<close>

datatype write_data_error =
    WD_EncodeMessageType io_error
  | WD_EncodeLength io_error
  | WD_WritePayload io_error
  | WD_ShortSource nat nat
  | WD_Flush io_error
  | WD_Panic

datatype write_extended_data_error =
    WED_EncodeMessageType io_error
  | WED_EncodeDataType io_error
  | WED_EncodeLength io_error
  | WED_WritePayload io_error
  | WED_ShortSource nat nat
  | WED_Flush io_error
  | WED_Panic

datatype write_channel_eof_error = WCE_EncodeMessageType io_error | WCE_Flush io_error
datatype write_channel_close_error = WCC_EncodeMessageType io_error | WCC_Flush io_error

datatype await_open_error =
    AO_DecodeMessageType io_error
  | AO_DecodeMaxMessageSize io_error
  | AO_DecodeReasonCode io_error
  | AO_DecodeDescription codec_error
  | AO_Rejected channel_open_failure
  | AO_UnexpectedMessageType nat

datatype write_channel_open_confirmation_error =
    WOC_EncodeMessageType io_error
  | WOC_EncodeMaxMessageSize io_error
  | WOC_Flush io_error

datatype write_channel_open_failure_error =
    WOF_EncodeMessageType io_error
  | WOF_EncodeReasonCode io_error
  | WOF_EncodeDescription codec_error
  | WOF_Flush io_error

subsection \<open>Writer operations\<close>

definition writer_data :: "varint_api \<Rightarrow> bytes \<Rightarrow> (writer, write_data_error, unit) io" where
  "writer_data V data =
     (if length data < VARINT_LIMIT
      then seqS [ctx WD_EncodeMessageType (encode_varint V SSH_MSG_CHANNEL_DATA),
                 ctx WD_EncodeLength (encode_varint V (length data)),
                 ctx WD_WritePayload (write_all data),
                 ctx WD_Flush flush]
      else failS WD_Panic)"

definition writer_extended_data ::
    "varint_api \<Rightarrow> nat \<Rightarrow> bytes \<Rightarrow> (writer, write_extended_data_error, unit) io" where
  "writer_extended_data V data_type data =
     (if length data < VARINT_LIMIT
      then seqS [ctx WED_EncodeMessageType (encode_varint V SSH_MSG_CHANNEL_EXTENDED_DATA),
                 ctx WED_EncodeDataType (encode_varint V data_type),
                 ctx WED_EncodeLength (encode_varint V (length data)),
                 ctx WED_WritePayload (write_all data),
                 ctx WED_Flush flush]
      else failS WED_Panic)"

text \<open>
  \<open>tokio::io::copy\<close> of at most \<open>k\<close> bytes: it stops at the end of the source and flushes the
  destination; when the source fails, up to \<open>lag\<close> bytes already read were not yet written.
\<close>

definition copy_limited :: "nat \<Rightarrow> nat \<Rightarrow> (reader \<times> writer, io_error, nat) io" where
  "copy_limited lag k = (\<lambda>(r, w).
     let bs = take k (r_in r); r' = r\<lparr>r_in := drop k (r_in r)\<rparr> in
     case (if length bs < k then r_end r else None) of
       Some e \<Rightarrow>
         let part = take (length bs - lag) bs in
         (Inl (if fits w part then e else w_err w), (r', push w part))
     | None \<Rightarrow>
         (case bindS (write_all bs) (\<lambda>_. flush) w of
            (Inl e, w') \<Rightarrow> (Inl e, (r', w'))
          | (Inr _, w') \<Rightarrow> (Inr (length bs), (r', w'))))"

definition on_dest :: "(writer, 'e, 'a) io \<Rightarrow> (reader \<times> writer, 'e, 'a) io" where
  "on_dest m = (\<lambda>(r, w). case m w of (v, w') \<Rightarrow> (v, (r, w')))"

definition writer_data_from ::
    "varint_api \<Rightarrow> nat \<Rightarrow> nat \<Rightarrow> (reader \<times> writer, write_data_error, unit) io" where
  "writer_data_from V lag len =
     (if len < VARINT_LIMIT
      then bindS (on_dest (seqS [ctx WD_EncodeMessageType (encode_varint V SSH_MSG_CHANNEL_DATA),
                                 ctx WD_EncodeLength (encode_varint V len)])) (\<lambda>_.
           bindS (ctx WD_WritePayload (copy_limited lag len)) (\<lambda>copied.
           if copied = len then on_dest (ctx WD_Flush flush)
           else failS (WD_ShortSource len copied)))
      else failS WD_Panic)"

definition writer_extended_data_from ::
    "varint_api \<Rightarrow> nat \<Rightarrow> nat \<Rightarrow> nat \<Rightarrow> (reader \<times> writer, write_extended_data_error, unit) io" where
  "writer_extended_data_from V lag data_type len =
     (if len < VARINT_LIMIT
      then bindS (on_dest (seqS
             [ctx WED_EncodeMessageType (encode_varint V SSH_MSG_CHANNEL_EXTENDED_DATA),
              ctx WED_EncodeDataType (encode_varint V data_type),
              ctx WED_EncodeLength (encode_varint V len)])) (\<lambda>_.
           bindS (ctx WED_WritePayload (copy_limited lag len)) (\<lambda>copied.
           if copied = len then on_dest (ctx WED_Flush flush)
           else failS (WED_ShortSource len copied)))
      else failS WED_Panic)"

definition writer_eof :: "varint_api \<Rightarrow> (writer, write_channel_eof_error, unit) io" where
  "writer_eof V = seqS [ctx WCE_EncodeMessageType (encode_varint V SSH_MSG_CHANNEL_EOF),
                        ctx WCE_Flush flush]"

definition writer_close :: "varint_api \<Rightarrow> (writer, write_channel_close_error, unit) io" where
  "writer_close V = seqS [ctx WCC_EncodeMessageType (encode_varint V SSH_MSG_CHANNEL_CLOSE),
                          ctx WCC_Flush flush]"

text \<open>
  A notice is given by its request type and the encoder of its payload
  (\<open>NotifyChannelRequest\<close>), a request also by the decoder of its success reply.
\<close>

definition writer_notice ::
    "varint_api \<Rightarrow> ssh_string \<Rightarrow> (writer, 'pe, unit) io
     \<Rightarrow> (writer, 'pe send_channel_notice_error, unit) io" where
  "writer_notice V request_type penc =
     seqS [ctx SCN_EncodeMessageType (encode_varint V SSH_MSG_CHANNEL_REQUEST),
           ctx SCN_EncodeRequestType (enc_ssh_string V request_type),
           ctx SCN_EncodeWantReply (enc_ssh_bool False),
           ctx SCN_EncodePayload penc,
           ctx SCN_Flush flush]"

definition respond_success ::
    "varint_api \<Rightarrow> (writer, 're, unit) io \<Rightarrow> (writer, 're respond_channel_success_error, unit) io" where
  "respond_success V penc =
     seqS [ctx RCS_EncodeMessageType (encode_varint V SSH_MSG_CHANNEL_SUCCESS),
           ctx RCS_EncodePayload penc,
           ctx RCS_Flush flush]"

definition respond_failure :: "varint_api \<Rightarrow> (writer, respond_channel_failure_error, unit) io" where
  "respond_failure V =
     seqS [ctx RCF_EncodeMessageType (encode_varint V SSH_MSG_CHANNEL_FAILURE),
           ctx RCF_Flush flush]"

subsection \<open>Reader operations\<close>

text \<open>
  Events leave their payload on the stream: \<open>RE_Data n\<close> is a \<open>ChannelDataRead\<close> of \<open>n\<close> bytes
  over the reader returned with it, \<open>RE_Notice\<close> a notice whose payload is still to be decoded.
\<close>

datatype reader_event =
    RE_Data nat | RE_ExtendedData nat nat | RE_Notice ssh_string
  | RE_Success | RE_Failure | RE_Eof | RE_Close

datatype channel_event =
    CE_Data nat | CE_ExtendedData nat nat | CE_Request ssh_string bool
  | CE_Success | CE_Failure | CE_Eof | CE_Close

definition reader_next_event :: "varint_api \<Rightarrow> (reader, read_channel_event_error, reader_event) io" where
  "reader_next_event V =
     bindS (ctx RCE_DecodeMessageType (decode_varint V)) (\<lambda>msg_type.
       if msg_type = SSH_MSG_CHANNEL_DATA then
         bindS (ctx RCE_DecodeData (decode_varint V)) (\<lambda>len. okS (RE_Data len))
       else if msg_type = SSH_MSG_CHANNEL_EXTENDED_DATA then
         bindS (ctx RCE_DecodeExtendedDataType (decode_varint V)) (\<lambda>data_type.
         bindS (ctx RCE_DecodeExtendedData (decode_varint V)) (\<lambda>len.
           okS (RE_ExtendedData data_type len)))
       else if msg_type = SSH_MSG_CHANNEL_REQUEST then
         bindS (ctx RCE_DecodeRequestType (dec_ssh_string V)) (\<lambda>request_type.
         bindS (ctx RCE_DecodeWantReply dec_ssh_bool) (\<lambda>want_reply.
           if want_reply then failS (RCE_UnexpectedWantReply request_type)
           else okS (RE_Notice request_type)))
       else if msg_type = SSH_MSG_CHANNEL_SUCCESS then okS RE_Success
       else if msg_type = SSH_MSG_CHANNEL_FAILURE then okS RE_Failure
       else if msg_type = SSH_MSG_CHANNEL_EOF then okS RE_Eof
       else if msg_type = SSH_MSG_CHANNEL_CLOSE then okS RE_Close
       else failS (RCE_UnexpectedMessageType msg_type))"

record ssh_channel =
  ch_reader :: reader
  ch_writer :: writer

definition on_reader :: "(reader, 'e, 'a) io \<Rightarrow> (ssh_channel, 'e, 'a) io" where
  "on_reader m = (\<lambda>c. case m (ch_reader c) of (v, r) \<Rightarrow> (v, c\<lparr>ch_reader := r\<rparr>))"

definition on_writer :: "(writer, 'e, 'a) io \<Rightarrow> (ssh_channel, 'e, 'a) io" where
  "on_writer m = (\<lambda>c. case m (ch_writer c) of (v, w) \<Rightarrow> (v, c\<lparr>ch_writer := w\<rparr>))"

definition channel_next_event :: "varint_api \<Rightarrow> (ssh_channel, read_channel_event_error, channel_event) io" where
  "channel_next_event V =
     bindS (on_reader (ctx RCE_DecodeMessageType (decode_varint V))) (\<lambda>msg_type.
       if msg_type = SSH_MSG_CHANNEL_DATA then
         bindS (on_reader (ctx RCE_DecodeData (decode_varint V))) (\<lambda>len. okS (CE_Data len))
       else if msg_type = SSH_MSG_CHANNEL_EXTENDED_DATA then
         bindS (on_reader (ctx RCE_DecodeExtendedDataType (decode_varint V))) (\<lambda>data_type.
         bindS (on_reader (ctx RCE_DecodeExtendedData (decode_varint V))) (\<lambda>len.
           okS (CE_ExtendedData data_type len)))
       else if msg_type = SSH_MSG_CHANNEL_REQUEST then
         bindS (on_reader (ctx RCE_DecodeRequestType (dec_ssh_string V))) (\<lambda>request_type.
         bindS (on_reader (ctx RCE_DecodeWantReply dec_ssh_bool)) (\<lambda>want_reply.
           okS (CE_Request request_type want_reply)))
       else if msg_type = SSH_MSG_CHANNEL_SUCCESS then okS CE_Success
       else if msg_type = SSH_MSG_CHANNEL_FAILURE then okS CE_Failure
       else if msg_type = SSH_MSG_CHANNEL_EOF then okS CE_Eof
       else if msg_type = SSH_MSG_CHANNEL_CLOSE then okS CE_Close
       else failS (RCE_UnexpectedMessageType msg_type))"

definition channel_request ::
    "varint_api \<Rightarrow> ssh_string \<Rightarrow> (writer, 'pe, unit) io \<Rightarrow> (reader, 'se, 's) io
     \<Rightarrow> (ssh_channel, ('pe, 'se) send_channel_request_error, 's) io" where
  "channel_request V request_type penc sdec =
     bindS (on_writer (seqS
       [ctx SCR_EncodeMessageType (encode_varint V SSH_MSG_CHANNEL_REQUEST),
        ctx SCR_EncodeRequestType (enc_ssh_string V request_type),
        ctx SCR_EncodeWantReply (enc_ssh_bool True),
        ctx SCR_EncodePayload penc,
        ctx SCR_Flush flush])) (\<lambda>_.
     bindS (on_reader (ctx SCR_DecodeResponseType (decode_varint V))) (\<lambda>msg_type.
       if msg_type = SSH_MSG_CHANNEL_SUCCESS then on_reader (ctx SCR_DecodeSuccess sdec)
       else if msg_type = SSH_MSG_CHANNEL_FAILURE then failS SCR_Rejected
       else failS (SCR_UnexpectedResponseType msg_type)))"

text \<open>\<open>IncomingChannelRequest::decode_payload\<close>: the value, and whether a responder is handed out.\<close>

definition decode_request_payload ::
    "(reader, 'de, 'a) io \<Rightarrow> bool \<Rightarrow> (ssh_channel, 'de, 'a \<times> bool) io" where
  "decode_request_payload pdec want_reply =
     bindS (on_reader pdec) (\<lambda>value. okS (value, want_reply))"

subsection \<open>The channel handshake\<close>

definition pending_accept ::
    "varint_api \<Rightarrow> nat \<Rightarrow> (ssh_channel, write_channel_open_confirmation_error, unit) io" where
  "pending_accept V max_message_size = on_writer (seqS
     [ctx WOC_EncodeMessageType (encode_varint V SSH_MSG_CHANNEL_OPEN_CONFIRMATION),
      ctx WOC_EncodeMaxMessageSize (encode_varint V max_message_size),
      ctx WOC_Flush flush])"

definition pending_reject ::
    "varint_api \<Rightarrow> nat \<Rightarrow> ssh_string \<Rightarrow> (ssh_channel, write_channel_open_failure_error, unit) io" where
  "pending_reject V reason desc = on_writer (seqS
     [ctx WOF_EncodeMessageType (encode_varint V SSH_MSG_CHANNEL_OPEN_FAILURE),
      ctx WOF_EncodeReasonCode (encode_varint V reason),
      ctx WOF_EncodeDescription (enc_ssh_string V desc),
      ctx WOF_Flush flush])"

definition read_channel_open_response :: "varint_api \<Rightarrow> (reader, await_open_error, unit) io" where
  "read_channel_open_response V =
     bindS (ctx AO_DecodeMessageType (decode_varint V)) (\<lambda>msg_type.
       if msg_type = SSH_MSG_CHANNEL_OPEN_CONFIRMATION then
         bindS (ctx AO_DecodeMaxMessageSize (decode_varint V)) (\<lambda>_. okS ())
       else if msg_type = SSH_MSG_CHANNEL_OPEN_FAILURE then
         bindS (ctx AO_DecodeReasonCode (decode_varint V)) (\<lambda>reason.
         bindS (ctx AO_DecodeDescription (dec_ssh_string V)) (\<lambda>desc.
           failS (AO_Rejected \<lparr>reason_code = reason, description = desc\<rparr>)))
       else failS (AO_UnexpectedMessageType msg_type))"

subsection \<open>ChannelDataRead: the bounded payload reader\<close>

text \<open>
  One \<open>poll_read\<close> of the underlying stream into \<open>limit\<close> bytes of buffer: the transport may
  deliver any positive number of the available bytes, \<open>chunk\<close> says how many. At the end of
  the stream it delivers nothing, or its error.
\<close>

definition poll_inner :: "nat \<Rightarrow> nat \<Rightarrow> (reader, io_error, bytes) io" where
  "poll_inner limit chunk = (\<lambda>r.
     if r_in r = [] \<and> limit > 0 then ((case r_end r of None \<Rightarrow> Inr [] | Some e \<Rightarrow> Inl e), r)
     else let n = min limit (Suc chunk) in (Inr (take n (r_in r)), r\<lparr>r_in := drop n (r_in r)\<rparr>))"

definition cdr_poll_read :: "nat \<Rightarrow> nat \<Rightarrow> (reader \<times> nat, io_error, bytes) io" where
  "cdr_poll_read buf_remaining chunk = (\<lambda>(r, remaining).
     if remaining = 0 then (Inr [], (r, remaining))
     else let max_read = min remaining buf_remaining in
       case poll_inner max_read chunk r of
         (Inl e, r') \<Rightarrow> (Inl e, (r', remaining))
       | (Inr bs, r') \<Rightarrow> (Inr bs, (r', remaining - length bs)))"

text \<open>
  \<open>read_all\<close>: \<open>read_exact\<close> polls until the buffer of \<open>remaining\<close> bytes is full; \<open>sched\<close> is the
  transport's choice of chunk at each poll.
\<close>

function cdr_read_exact :: "(nat \<Rightarrow> nat) \<Rightarrow> nat \<Rightarrow> nat \<Rightarrow> (reader \<times> nat, io_error, bytes) io" where
  "cdr_read_exact sched i k s =
     (if k = 0 then (Inr [], s)
      else case cdr_poll_read k (sched i) s of
        (Inl e, t) \<Rightarrow> (Inl e, t)
      | (Inr [], t) \<Rightarrow> (Inl UnexpectedEof, t)
      | (Inr (b # bs), t) \<Rightarrow>
          (case cdr_read_exact sched (Suc i) (k - length (b # bs)) t of
             (Inl e, u) \<Rightarrow> (Inl e, u)
           | (Inr rest, u) \<Rightarrow> (Inr ((b # bs) @ rest), u)))"
  by pat_completeness auto
termination
  by (relation "measure (\<lambda>(_, _, k, _). k)") auto

definition cdr_read_all :: "(nat \<Rightarrow> nat) \<Rightarrow> (reader \<times> nat, io_error, bytes) io" where
  "cdr_read_all sched = (\<lambda>(r, remaining). cdr_read_exact sched 0 remaining (r, remaining))"

declare cdr_read_exact.simps [simp del]

end
