(* ===== verification/Channel_Wire.thy ===== *)
theory Channel_Wire
  imports Channel
begin

text \<open>
  Properties of the channel operations of \<open>Channel\<close>: the byte image of every message, that the
  writer's operations send exactly that image, that \<open>next_event\<close> recovers the message and stops
  at its payload, that payloads are read exactly whatever chunks the transport delivers, and
  that the opener and the acceptor agree on the outcome of a channel open.
\<close>

subsection \<open>Messages and their images\<close>

datatype channel_msg =
    M_Data bytes | M_ExtendedData nat bytes | M_Notice ssh_string bytes
  | M_Success bytes | M_Failure | M_Eof | M_Close

primrec img_msg :: "varint_api \<Rightarrow> channel_msg \<Rightarrow> bytes" where
  "img_msg V (M_Data d) = vi_enc V SSH_MSG_CHANNEL_DATA @ vi_enc V (length d) @ d"
| "img_msg V (M_ExtendedData t d) =
     vi_enc V SSH_MSG_CHANNEL_EXTENDED_DATA @ vi_enc V t @ vi_enc V (length d) @ d"
| "img_msg V (M_Notice rt p) =
     vi_enc V SSH_MSG_CHANNEL_REQUEST @ img_ssh_string V rt @ img_ssh_bool False @ p"
| "img_msg V (M_Success p) = vi_enc V SSH_MSG_CHANNEL_SUCCESS @ p"
| "img_msg V M_Failure = vi_enc V SSH_MSG_CHANNEL_FAILURE"
| "img_msg V M_Eof = vi_enc V SSH_MSG_CHANNEL_EOF"
| "img_msg V M_Close = vi_enc V SSH_MSG_CHANNEL_CLOSE"

primrec event_of :: "channel_msg \<Rightarrow> reader_event" where
  "event_of (M_Data d) = RE_Data (length d)"
| "event_of (M_ExtendedData t d) = RE_ExtendedData t (length d)"
| "event_of (M_Notice rt p) = RE_Notice rt"
| "event_of (M_Success p) = RE_Success"
| "event_of M_Failure = RE_Failure"
| "event_of M_Eof = RE_Eof"
| "event_of M_Close = RE_Close"

primrec payload_of :: "channel_msg \<Rightarrow> bytes" where
  "payload_of (M_Data d) = d"
| "payload_of (M_ExtendedData t d) = d"
| "payload_of (M_Notice rt p) = p"
| "payload_of (M_Success p) = p"
| "payload_of M_Failure = []"
| "payload_of M_Eof = []"
| "payload_of M_Close = []"

primrec valid_msg :: "channel_msg \<Rightarrow> bool" where
  "valid_msg (M_Data d) \<longleftrightarrow> length d < VARINT_LIMIT"
| "valid_msg (M_ExtendedData t d) \<longleftrightarrow> t < VARINT_LIMIT \<and> length d < VARINT_LIMIT"
| "valid_msg (M_Notice rt p) \<longleftrightarrow> valid_ssh_string rt"
| "valid_msg (M_Success p) \<longleftrightarrow> True"
| "valid_msg M_Failure \<longleftrightarrow> True"
| "valid_msg M_Eof \<longleftrightarrow> True"
| "valid_msg M_Close \<longleftrightarrow> True"

text \<open>The writer operation that sends each message; payload encoders write the given bytes.\<close>

primrec write_msg :: "varint_api \<Rightarrow> channel_msg \<Rightarrow> (writer, unit, unit) io" where
  "write_msg V (M_Data d) = ctx (\<lambda>_. ()) (writer_data V d)"
| "write_msg V (M_ExtendedData t d) = ctx (\<lambda>_. ()) (writer_extended_data V t d)"
| "write_msg V (M_Notice rt p) = ctx (\<lambda>_. ()) (writer_notice V rt (write_all p))"
| "write_msg V (M_Success p) = ctx (\<lambda>_. ()) (respond_success V (write_all p))"
| "write_msg V M_Failure = ctx (\<lambda>_. ()) (respond_failure V)"
| "write_msg V M_Eof = ctx (\<lambda>_. ()) (writer_eof V)"
| "write_msg V M_Close = ctx (\<lambda>_. ()) (writer_close V)"

lemma msg_in_range [simp]:
  "SSH_MSG_GLOBAL_REQUEST < VARINT_LIMIT" "SSH_MSG_REQUEST_SUCCESS < VARINT_LIMIT"
  "SSH_MSG_REQUEST_FAILURE < VARINT_LIMIT" "SSH_MSG_CHANNEL_OPEN_CONFIRMATION < VARINT_LIMIT"
  "SSH_MSG_CHANNEL_OPEN_FAILURE < VARINT_LIMIT" "SSH_MSG_CHANNEL_DATA < VARINT_LIMIT"
  "SSH_MSG_CHANNEL_EXTENDED_DATA < VARINT_LIMIT" "SSH_MSG_CHANNEL_EOF < VARINT_LIMIT"
  "SSH_MSG_CHANNEL_CLOSE < VARINT_LIMIT" "SSH_MSG_CHANNEL_REQUEST < VARINT_LIMIT"
  "SSH_MSG_CHANNEL_SUCCESS < VARINT_LIMIT" "SSH_MSG_CHANNEL_FAILURE < VARINT_LIMIT"
  "DSHELL_CONTROL_STREAM_KIND < VARINT_LIMIT" "DSHELL_CHANNEL_STREAM_KIND < VARINT_LIMIT"
  by (simp_all add: msg_nums VARINT_LIMIT_def)

lemma sends_ctx: "sends m bs \<Longrightarrow> sends (ctx g m) bs"
  by (simp add: sends_def)

lemma sends_seq2: "emits a x \<Longrightarrow> sends (seqS [a, ctx g flush]) x"
  using sends_seq [of "[a]" x g] by (simp add: bindS_ok_right)

lemma sends_seq3:
  "emits a x \<Longrightarrow> emits b y \<Longrightarrow> sends (seqS [a, b, ctx g flush]) (x @ y)"
  using sends_seq [of "[a, b]" "x @ y" g] emits_seq_Cons [OF _ emits_seq_Cons [OF _ emits_seq_Nil]]
  by fastforce

lemma sends_seq4:
  "emits a x \<Longrightarrow> emits b y \<Longrightarrow> emits c z \<Longrightarrow> sends (seqS [a, b, c, ctx g flush]) (x @ y @ z)"
  using sends_seq [of "[a, b, c]" "x @ y @ z" g]
    emits_seq_Cons [OF _ emits_seq_Cons [OF _ emits_seq_Cons [OF _ emits_seq_Nil]]]
  by fastforce

lemma sends_seq5:
  "emits a x \<Longrightarrow> emits b y \<Longrightarrow> emits c z \<Longrightarrow> emits d u
   \<Longrightarrow> sends (seqS [a, b, c, d, ctx g flush]) (x @ y @ z @ u)"
  using sends_seq [of "[a, b, c, d]" "x @ y @ z @ u" g]
    emits_seq_Cons [OF _ emits_seq_Cons [OF _ emits_seq_Cons [OF _ emits_seq_Cons [OF _ emits_seq_Nil]]]]
  by fastforce

declare seqS.simps [simp del]

lemmas sends_intros = sends_ctx sends_seq2 sends_seq3 sends_seq4 sends_seq5

lemma sends_writer_notice:
  "valid_ssh_string rt \<Longrightarrow> emits penc p
   \<Longrightarrow> sends (writer_notice V rt penc) (img_msg V (M_Notice rt p))"
  by (auto simp: writer_notice_def valid_ssh_string_def size_limits
      intro!: sends_intros emits_intros)

lemma sends_respond_success:
  "emits penc p \<Longrightarrow> sends (respond_success V penc) (img_msg V (M_Success p))"
  by (auto simp: respond_success_def intro!: sends_intros emits_intros)

lemma sends_data: "length d < VARINT_LIMIT \<Longrightarrow> sends (writer_data V d) (img_msg V (M_Data d))"
  by (auto simp: writer_data_def intro!: sends_intros emits_intros)

lemma sends_extended_data:
  "length d < VARINT_LIMIT \<Longrightarrow> sends (writer_extended_data V t d) (img_msg V (M_ExtendedData t d))"
  by (auto simp: writer_extended_data_def intro!: sends_intros emits_intros)

lemma sends_plain:
  "sends (respond_failure V) (img_msg V M_Failure)" "sends (writer_eof V) (img_msg V M_Eof)"
  "sends (writer_close V) (img_msg V M_Close)"
  by (auto simp: respond_failure_def writer_eof_def writer_close_def
      intro!: sends_intros emits_intros)

lemma sends_write_msg: "valid_msg m \<Longrightarrow> sends (write_msg V m) (img_msg V m)"
  by (cases m; simp only: write_msg.simps valid_msg.simps; rule sends_ctx)
    (blast intro: sends_data sends_extended_data sends_writer_notice sends_respond_success
      sends_plain emits_intros)+

context varint_codec
begin

lemmas wire = wire_simps dec_varint_append dec_ssh_string_append dec_ssh_bytes_append
  dec_varint_exact

lemma next_event_img:
  assumes "valid_msg m"
  shows "reader_next_event V (rd (img_msg V m @ rest) e) = (Inr (event_of m), rd (payload_of m @ rest) e)"
  using assms
  by (cases m) (simp_all add: reader_next_event_def io_simps wire, simp_all add: msg_nums)

lemma next_event_transfer:
  assumes "valid_msg m" and "write_msg V m w = (Inr (), w')"
  shows "\<exists>bs. w_out w' = w_out w @ bs \<and> w_flushed w' = length (w_out w') \<and>
    reader_next_event V (rd (bs @ rest) e) = (Inr (event_of m), rd (payload_of m @ rest) e)"
  using sends_ok_state [OF sends_write_msg [OF assms(1)] assms(2)] next_event_img [OF assms(1)]
  by blast

end


subsection \<open>Bounded payload reads\<close>

lemma cdr_poll_step:
  assumes "0 < k" "k \<le> n" "bs \<noteq> []"
  shows "cdr_poll_read k c (rd bs e, n) =
    (Inr (take (min k (Suc c)) bs), (rd (drop (min k (Suc c)) bs) e, n - length (take (min k (Suc c)) bs)))"
  using assms by (auto simp: cdr_poll_read_def poll_inner_def Let_def min_def)

lemma cdr_read_exact_enough:
  "k \<le> n \<Longrightarrow> k \<le> length bs \<Longrightarrow>
   cdr_read_exact sched i k (rd bs e, n) = (Inr (take k bs), (rd (drop k bs) e, n - k))"
proof (induction k arbitrary: bs n i rule: less_induct)
  case (less k)
  show ?case
  proof (cases "k = 0")
    case True
    then show ?thesis by (simp add: cdr_read_exact.simps [of sched i 0])
  next
    case False
    define m where "m = min k (Suc (sched i))"
    have m: "0 < m" "m \<le> k" using False by (auto simp: m_def)
    with less.prems False have ne: "bs \<noteq> []" and lm: "length (take m bs) = m" by auto
    have poll: "cdr_poll_read k (sched i) (rd bs e, n) = (Inr (take m bs), (rd (drop m bs) e, n - m))"
      using cdr_poll_step [of k n bs "sched i" e] False less.prems ne lm by (simp add: m_def)
    obtain b t where bt: "take m bs = b # t" using m ne by (cases "take m bs") auto
    have IH: "cdr_read_exact sched (Suc i) (k - m) (rd (drop m bs) e, n - m) =
        (Inr (take (k - m) (drop m bs)), (rd (drop (k - m) (drop m bs)) e, n - m - (k - m)))"
      by (rule less.IH) (use m less.prems False in auto)
    have "b # t @ take (k - m) (drop m bs) = take k bs"
      using m(2) bt by (metis append_Cons le_add_diff_inverse take_add)
    moreover have "length (b # t) = m" using lm bt by simp
    ultimately show ?thesis using False poll bt IH m(2)
      by (simp add: cdr_read_exact.simps [of sched i k])
  qed
qed

lemma cdr_read_exact_short:
  "k \<le> n \<Longrightarrow> length bs < k \<Longrightarrow> cdr_read_exact sched i k (rd bs e, n) =
     (Inl (case e of None \<Rightarrow> UnexpectedEof | Some x \<Rightarrow> x), (rd [] e, n - length bs))"
proof (induction k arbitrary: bs n i rule: less_induct)
  case (less k)
  show ?case
  proof (cases "bs = []")
    case True
    with less.prems show ?thesis
      by (simp add: cdr_read_exact.simps [of sched i k] cdr_poll_read_def poll_inner_def
          split: option.split)
  next
    case False
    define m where "m = min (length bs) (min k (Suc (sched i)))"
    have m: "0 < m" "m \<le> length bs" "m \<le> k" using False less.prems by (auto simp: m_def)
    have tk: "take (min k (Suc (sched i))) bs = take m bs"
      "drop (min k (Suc (sched i))) bs = drop m bs"
      by (auto simp: m_def min_def)
    have poll: "cdr_poll_read k (sched i) (rd bs e, n) = (Inr (take m bs), (rd (drop m bs) e, n - m))"
      using cdr_poll_step [of k n bs "sched i" e] False less.prems m unfolding tk by simp
    obtain b t where bt: "take m bs = b # t" using m False by (cases "take m bs") auto
    have lm: "length (b # t) = m" using m by (simp flip: bt)
    have IH: "cdr_read_exact sched (Suc i) (k - m) (rd (drop m bs) e, n - m) =
        (Inl (case e of None \<Rightarrow> UnexpectedEof | Some x \<Rightarrow> x),
         (rd [] e, n - m - length (drop m bs)))"
      by (rule less.IH) (use m less.prems in auto)
    have "k \<noteq> 0" using less.prems by auto
    with poll bt IH lm m show ?thesis
      by (simp add: cdr_read_exact.simps [of sched i k])
  qed
qed

subsection \<open>Copying a payload from a reader\<close>

lemma copy_limited_enough:
  assumes "k \<le> length bs" and "fits w (take k bs)" and "w_flush_ok w"
  shows "\<exists>w'. copy_limited lag k (rd bs e, w) = (Inr k, (rd (drop k bs) e, w'))
     \<and> w_out w' = w_out w @ take k bs"
  using assms by (simp add: copy_limited_def Let_def bindS_def write_all_def flush_def w_out_push_fits)

lemma copy_limited_Inr:
  assumes "copy_limited lag k (r, w) = (Inr n, (r', w'))"
  shows "n = min k (length (r_in r)) \<and> w_out w' = w_out w @ take k (r_in r)
     \<and> r_in r' = drop k (r_in r) \<and> r_end r' = r_end r \<and> w_flush_ok w' = w_flush_ok w \<and> w_flush_ok w"
  using assms
  by (auto simp: copy_limited_def Let_def bindS_def write_all_def flush_def w_out_push_fits
      split: if_splits option.splits sum.splits prod.splits)

lemma copy_limited_flushed:
  assumes "copy_limited lag k (r, w) = (Inr n, (r', w'))"
  shows "w_flushed w' = length (w_out w')"
  using assms
  by (auto simp: copy_limited_def Let_def bindS_def write_all_def flush_def
      split: if_splits option.splits sum.splits prod.splits)

lemma on_dest_Inr:
  "on_dest m (r, w) = (Inr x, (r', w')) \<longleftrightarrow> r' = r \<and> m w = (Inr x, w')"
  by (auto simp: on_dest_def split: prod.splits)

lemma data_header_emits:
  "emits (seqS [ctx WD_EncodeMessageType (encode_varint V SSH_MSG_CHANNEL_DATA),
                ctx WD_EncodeLength (encode_varint V n)])
     (vi_enc V SSH_MSG_CHANNEL_DATA @ vi_enc V n)"
  by (rule emits_seq_Cons [where b = "vi_enc V n", OF _ emits_seq_Cons [where b = "[]", simplified]])
    (intro emits_intros)+

lemma flush_Inr: "ctx g flush w = (Inr x, w') \<longleftrightarrow> w_flush_ok w \<and> w' = w\<lparr>w_flushed := length (w_out w)\<rparr>"
  by (auto simp: ctx_def flush_def)

lemma data_from_ok:
  assumes "writer_data_from V lag len (r, w) = (Inr (), (r', w'))"
  shows "len \<le> length (r_in r) \<and> r_in r' = drop len (r_in r)
    \<and> w_out w' = w_out w @ img_msg V (M_Data (take len (r_in r)))
    \<and> w_flushed w' = length (w_out w')"
proof -
  from assms have l: "len < VARINT_LIMIT" by (auto simp: writer_data_from_def failS_def split: if_splits)
  with assms obtain w1 n r2 w2 where
      1: "seqS [ctx WD_EncodeMessageType (encode_varint V SSH_MSG_CHANNEL_DATA),
                ctx WD_EncodeLength (encode_varint V len)] w = (Inr (), w1)"
    and 2: "copy_limited lag len (r, w1) = (Inr n, (r2, w2))"
    and 3: "(if n = len then on_dest (ctx WD_Flush flush) else failS (WD_ShortSource len n)) (r2, w2)
            = (Inr (), (r', w'))"
    by (auto simp: writer_data_from_def bindS_Inr_iff ctx_Inr_iff on_dest_Inr)
  from 3 have n: "n = len" and r': "r' = r2" and w': "w' = w2\<lparr>w_flushed := length (w_out w2)\<rparr>"
    by (auto simp: on_dest_Inr flush_Inr failS_def split: if_splits)
  from emits_ok_state [OF data_header_emits 1]
  have "w_out w1 = w_out w @ vi_enc V SSH_MSG_CHANNEL_DATA @ vi_enc V len"
    by (auto simp: w_out_push_fits)
  moreover have "len \<le> length (r_in r)" using copy_limited_Inr [OF 2, THEN conjunct1] n by linarith
  ultimately show ?thesis using copy_limited_Inr [OF 2] r' w' by (simp add: min_absorb1)
qed


lemma on_dest_run: "m w = (v, w') \<Longrightarrow> on_dest m (r, w) = (v, (r, w'))"
  by (simp add: on_dest_def)

lemma data_from_run:
  assumes l: "len < VARINT_LIMIT" and n: "len \<le> length bs" and fl: "w_flush_ok w"
    and fit: "fits w (img_msg V (M_Data (take len bs)))"
  shows "is_ok (fst (writer_data_from V lag len (rd bs e, w)))"
proof -
  define h where "h = vi_enc V SSH_MSG_CHANNEL_DATA @ vi_enc V len"
  have "img_msg V (M_Data (take len bs)) = h @ take len bs" using n by (simp add: h_def min_absorb2)
  with fit have "fits w (h @ take len bs)" by (simp only:)
  then have f: "fits w h" "fits (push w h) (take len bs)" by (simp_all only: fits_append)
  from emits_run [OF data_header_emits f(1) [unfolded h_def]]
  have hd: "seqS [ctx WD_EncodeMessageType (encode_varint V SSH_MSG_CHANNEL_DATA),
                ctx WD_EncodeLength (encode_varint V len)] w = (Inr (), push w h)"
    by (simp add: h_def)
  have "w_flush_ok (push w h)" using fl by simp
  from copy_limited_enough [OF n f(2) this] obtain w2 where
    c: "copy_limited lag len (rd bs e, push w h) = (Inr len, (rd (drop len bs) e, w2))" by blast
  from copy_limited_Inr [OF c] fl have "w_flush_ok w2" by simp
  with l show ?thesis
    by (simp add: writer_data_from_def io_simps on_dest_run hd c flush_def)
qed

subsection \<open>Handshake and requests\<close>

lemma on_writer_run: "m (ch_writer c) = (v, w) \<Longrightarrow> on_writer m c = (v, c\<lparr>ch_writer := w\<rparr>)"
  by (simp add: on_writer_def)

lemma on_reader_run: "m (ch_reader c) = (v, r) \<Longrightarrow> on_reader m c = (v, c\<lparr>ch_reader := r\<rparr>)"
  by (simp add: on_reader_def)

lemma on_writer_Inr:
  "on_writer m c = (Inr x, c') \<longleftrightarrow> (\<exists>w. m (ch_writer c) = (Inr x, w) \<and> c' = c\<lparr>ch_writer := w\<rparr>)"
  by (auto simp: on_writer_def split: prod.splits)

lemma on_reader_Inr:
  "on_reader m c = (Inr x, c') \<longleftrightarrow> (\<exists>r. m (ch_reader c) = (Inr x, r) \<and> c' = c\<lparr>ch_reader := r\<rparr>)"
  by (auto simp: on_reader_def split: prod.splits)

definition img_confirmation :: "varint_api \<Rightarrow> nat \<Rightarrow> bytes" where
  "img_confirmation V n = vi_enc V SSH_MSG_CHANNEL_OPEN_CONFIRMATION @ vi_enc V n"

definition img_open_failure :: "varint_api \<Rightarrow> nat \<Rightarrow> ssh_string \<Rightarrow> bytes" where
  "img_open_failure V n d = vi_enc V SSH_MSG_CHANNEL_OPEN_FAILURE @ vi_enc V n @ img_ssh_string V d"

lemma accept_out:
  "pending_accept V n c = (Inr (), c') \<Longrightarrow>
   w_out (ch_writer c') = w_out (ch_writer c) @ img_confirmation V n"
  unfolding pending_accept_def img_confirmation_def on_writer_Inr
  by (auto dest!: sends_ok_state(1) [rotated] intro!: sends_intros emits_intros)

lemma reject_out:
  "valid_ssh_string d \<Longrightarrow> pending_reject V n d c = (Inr (), c') \<Longrightarrow>
   w_out (ch_writer c') = w_out (ch_writer c) @ img_open_failure V n d"
  unfolding pending_reject_def img_open_failure_def on_writer_Inr valid_ssh_string_def
  by (auto dest!: sends_ok_state(1) [rotated] intro!: sends_intros emits_intros simp: size_limits)

definition img_request :: "varint_api \<Rightarrow> ssh_string \<Rightarrow> bytes \<Rightarrow> bytes" where
  "img_request V rt p = vi_enc V SSH_MSG_CHANNEL_REQUEST @ img_ssh_string V rt @ img_ssh_bool True @ p"

lemma sends_channel_request:
  "valid_ssh_string rt \<Longrightarrow> emits penc p \<Longrightarrow> sends (seqS
     [ctx SCR_EncodeMessageType (encode_varint V SSH_MSG_CHANNEL_REQUEST),
      ctx SCR_EncodeRequestType (enc_ssh_string V rt),
      ctx SCR_EncodeWantReply (enc_ssh_bool True),
      ctx SCR_EncodePayload penc,
      ctx SCR_Flush flush]) (img_request V rt p)"
  unfolding img_request_def
  by (auto intro!: sends_intros emits_intros simp: size_limits valid_ssh_string_def)

context varint_codec
begin

lemma open_response_img:
  "n < VARINT_LIMIT \<Longrightarrow>
   read_channel_open_response V (rd (img_confirmation V n @ rest) e) = (Inr (), rd rest e)"
  "n < VARINT_LIMIT \<Longrightarrow> valid_ssh_string d \<Longrightarrow>
   read_channel_open_response V (rd (img_open_failure V n d @ rest) e) =
     (Inl (AO_Rejected \<lparr>reason_code = n, description = d\<rparr>), rd rest e)"
  by (simp_all add: read_channel_open_response_def img_confirmation_def img_open_failure_def
      io_simps wire) (simp add: msg_nums)

lemma channel_next_event_request:
  assumes "valid_ssh_string rt" and "ch_reader c = rd (img_request V rt p @ rest) e"
  shows "channel_next_event V c = (Inr (CE_Request rt True), c\<lparr>ch_reader := rd (p @ rest) e\<rparr>)"
  using assms
  by (simp add: channel_next_event_def img_request_def io_simps wire on_reader_run)
    (simp add: msg_nums)

lemma channel_request_reply:
  fixes penc :: "(writer, 'pe, unit) io" and sdec :: "(reader, 'se, 's) io"
  assumes "valid_ssh_string rt" "emits penc p"
    and "fits (ch_writer c) (img_request V rt p)" "w_flush_ok (ch_writer c)"
    and "valid_msg reply" "ch_reader c = rd (img_msg V reply @ rest) e"
  shows "\<exists>w. w_out w = w_out (ch_writer c) @ img_request V rt p \<and>
    channel_request V rt penc sdec c =
      (case reply of
         M_Success q \<Rightarrow> on_reader (ctx SCR_DecodeSuccess sdec)
            (c\<lparr>ch_writer := w, ch_reader := rd (q @ rest) e\<rparr>)
       | M_Failure \<Rightarrow> (Inl SCR_Rejected, c\<lparr>ch_writer := w, ch_reader := rd rest e\<rparr>)
       | M_Data d \<Rightarrow> (Inl (SCR_UnexpectedResponseType SSH_MSG_CHANNEL_DATA),
            c\<lparr>ch_writer := w, ch_reader := rd (vi_enc V (length d) @ d @ rest) e\<rparr>)
       | M_ExtendedData t d \<Rightarrow> (Inl (SCR_UnexpectedResponseType SSH_MSG_CHANNEL_EXTENDED_DATA),
            c\<lparr>ch_writer := w, ch_reader := rd (vi_enc V t @ vi_enc V (length d) @ d @ rest) e\<rparr>)
       | M_Notice r q \<Rightarrow> (Inl (SCR_UnexpectedResponseType SSH_MSG_CHANNEL_REQUEST),
            c\<lparr>ch_writer := w,
              ch_reader := rd (img_ssh_string V r @ img_ssh_bool False @ q @ rest) e\<rparr>)
       | M_Eof \<Rightarrow> (Inl (SCR_UnexpectedResponseType SSH_MSG_CHANNEL_EOF),
            c\<lparr>ch_writer := w, ch_reader := rd rest e\<rparr>)
       | M_Close \<Rightarrow> (Inl (SCR_UnexpectedResponseType SSH_MSG_CHANNEL_CLOSE),
            c\<lparr>ch_writer := w, ch_reader := rd rest e\<rparr>))"
proof -
  from sends_run [OF sends_channel_request [OF assms(1,2)] assms(3,4)] obtain w where
    w: "seqS [ctx SCR_EncodeMessageType (encode_varint V SSH_MSG_CHANNEL_REQUEST),
      ctx SCR_EncodeRequestType (enc_ssh_string V rt),
      ctx SCR_EncodeWantReply (enc_ssh_bool True),
      ctx SCR_EncodePayload penc,
      ctx (SCR_Flush :: _ \<Rightarrow> ('pe, 'se) send_channel_request_error) flush] (ch_writer c) = (Inr (), w)"
    and out: "w_out w = w_out (ch_writer c) @ img_request V rt p" by blast
  from w have W: "on_writer (seqS [ctx SCR_EncodeMessageType (encode_varint V SSH_MSG_CHANNEL_REQUEST),
      ctx SCR_EncodeRequestType (enc_ssh_string V rt),
      ctx SCR_EncodeWantReply (enc_ssh_bool True),
      ctx SCR_EncodePayload penc,
      ctx (SCR_Flush :: _ \<Rightarrow> ('pe, 'se) send_channel_request_error) flush]) c = (Inr (), c\<lparr>ch_writer := w\<rparr>)" by (simp add: on_writer_def)
  show ?thesis
    by (rule exI [of _ w], cases reply)
      (use assms(5,6) in \<open>simp_all add: channel_request_def io_simps W on_reader_run out wire\<close>,
        simp_all add: msg_nums)
qed

end


subsection \<open>Properties\<close>

lemma fresh_write:
  "valid_msg m \<Longrightarrow> \<exists>w'. write_msg V m fresh_writer = (Inr (), w')"
  using sends_run [OF sends_write_msg, of m fresh_writer V] by auto

text \<open>
  C23: message delivery. Whatever message the writer of a channel sends (data, extended data, a
  notice with any payload, success, failure, EOF, close), a successful write appends bytes,
  all flushed, from which the peer's \<open>next_event\<close> reports that very message and stops exactly
  at its payload, whatever follows on the stream.
\<close>

theorem message_delivery:
  assumes "varint_codec V" and "valid_msg m" and "write_msg V m w = (Inr (), w')"
  shows "\<exists>bs. w_out w' = w_out w @ bs \<and> w_flushed w' = length (w_out w') \<and>
    reader_next_event V (rd (bs @ rest) e) = (Inr (event_of m), rd (payload_of m @ rest) e)"
  by (rule varint_codec.next_event_transfer [OF assms])

theorem message_delivery_witness:
  "\<exists>w' bs. write_msg quic_varint (M_ExtendedData 1 [104, 105]) fresh_writer = (Inr (), w') \<and>
     w_out w' = bs \<and> w_flushed w' = length bs \<and>
     reader_next_event quic_varint (rd (bs @ [7]) None) = (Inr (RE_ExtendedData 1 2), rd [104, 105, 7] None)"
proof -
  have v: "valid_msg (M_ExtendedData 1 [104, 105])" by (simp add: VARINT_LIMIT_def)
  obtain w' where "write_msg quic_varint (M_ExtendedData 1 [104, 105]) fresh_writer = (Inr (), w')"
    using fresh_write [OF v] by blast
  from message_delivery [OF quic.varint_codec_axioms v this, of "[7]" None] this
  show ?thesis by force
qed

text \<open>
  A write is all or a prefix. A channel write succeeds exactly when the transport has room
  for the whole message and the flush works; when it fails, the stream gained only a prefix of
  that message's image, never bytes of anything else.
\<close>

theorem write_all_or_prefix:
  assumes "valid_msg m"
  shows "(is_ok (fst (write_msg V m w)) \<longleftrightarrow> fits w (img_msg V m) \<and> w_flush_ok w) \<and>
    (\<exists>p. prefix p (img_msg V m) \<and> w_out (snd (write_msg V m w)) = w_out w @ p \<and>
       (is_ok (fst (write_msg V m w)) \<longrightarrow> p = img_msg V m))"
proof -
  note s = sends_write_msg [OF assms, of V]
  have ok: "is_ok (fst (write_msg V m w)) \<longleftrightarrow> fits w (img_msg V m) \<and> w_flush_ok w"
    using s by (simp add: sends_def)
  have out: "w_out (snd (write_msg V m w)) = w_out (push w (img_msg V m))"
    using s by (simp add: sends_def)
  from ok out show ?thesis by (metis w_out_push_fits w_out_push_prefix prefix_order.refl)
qed

theorem write_all_or_prefix_witness:
  "valid_msg M_Eof \<and> \<not> is_ok (fst (write_msg quic_varint M_Eof (fresh_writer\<lparr>w_room := Some 1\<rparr>)))"
proof -
  have v: "valid_msg M_Eof" by simp
  show ?thesis
    using write_all_or_prefix [OF v, of quic_varint "fresh_writer\<lparr>w_room := Some 1\<rparr>"] v
    by (simp add: fits_def quic_varint_def quic_enc_def msg_nums)
qed

text \<open>
  C24: bounded payload reads. Reading a payload of announced length \<open>n\<close> to its end returns
  exactly the next \<open>n\<close> bytes of the stream and leaves the rest, however the transport splits
  them into chunks; if the stream ends first, it fails with the transport's error or an
  unexpected end of file, never with a short payload.
\<close>

theorem payload_read_exact:
  "cdr_read_all sched (rd bs e, n) =
     (if n \<le> length bs then (Inr (take n bs), (rd (drop n bs) e, 0))
      else (Inl (case e of None \<Rightarrow> UnexpectedEof | Some x \<Rightarrow> x), (rd [] e, n - length bs)))"
  by (simp add: cdr_read_all_def cdr_read_exact_enough cdr_read_exact_short)

text \<open>
  The channel-open handshake. What the acceptor writes to confirm an open is read by the
  opener as a confirmation, and what it writes to reject one is read as a rejection with the
  same reason and description; nothing beyond the response is consumed.
\<close>

theorem open_handshake:
  assumes "varint_codec V" and "n < VARINT_LIMIT" and "valid_ssh_string d"
  shows "(\<forall>c c'. pending_accept V n c = (Inr (), c') \<longrightarrow>
      (\<exists>bs. w_out (ch_writer c') = w_out (ch_writer c) @ bs \<and>
        read_channel_open_response V (rd (bs @ rest) e) = (Inr (), rd rest e)))
    \<and> (\<forall>c c'. pending_reject V n d c = (Inr (), c') \<longrightarrow>
      (\<exists>bs. w_out (ch_writer c') = w_out (ch_writer c) @ bs \<and>
        read_channel_open_response V (rd (bs @ rest) e) =
          (Inl (AO_Rejected \<lparr>reason_code = n, description = d\<rparr>), rd rest e)))"
  using varint_codec.open_response_img [OF assms(1)] assms(2,3) accept_out reject_out by blast

theorem open_handshake_witness:
  "\<exists>c' bs. pending_reject quic_varint 1 (lit ''no'') \<lparr>ch_reader = rd [] None, ch_writer = fresh_writer\<rparr>
        = (Inr (), c') \<and> w_out (ch_writer c') = bs \<and>
      read_channel_open_response quic_varint (rd (bs @ [5]) None) =
        (Inl (AO_Rejected \<lparr>reason_code = 1, description = lit ''no''\<rparr>), rd [5] None)"
proof -
  have h: "(1::nat) < VARINT_LIMIT" "valid_ssh_string (lit ''no'')"
    by (simp add: VARINT_LIMIT_def)
      (simp add: valid_ssh_string_def MAX_REMOTE_FIELD_SIZE_def lit_def byte_of_def)
  have "is_ok (fst (pending_reject quic_varint 1 (lit ''no'')
      \<lparr>ch_reader = rd [] None, ch_writer = fresh_writer\<rparr>))"
    by (simp add: pending_reject_def on_writer_def seqS.simps bindS_def ctx_def okS_def
        encode_varint_def write_all_def enc_ssh_string_def VARINT_LIMIT_def fits_def push_def
        fresh_writer_def flush_def)
  from is_ok_unit [OF this] obtain c' where "pending_reject quic_varint 1 (lit ''no'')
      \<lparr>ch_reader = rd [] None, ch_writer = fresh_writer\<rparr> = (Inr (), c')" by blast
  with open_handshake [OF quic.varint_codec_axioms h, of "[5]" None] show ?thesis by force
qed

text \<open>
  C25: request and reply. A channel request reaches the peer as a request of the same type that
  wants a reply, its payload next on the stream; the requester returns the decoded success
  payload on a success reply, \<open>Rejected\<close> on a failure reply, and an error naming the message
  type on every other reply.
\<close>

theorem request_reply:
  fixes penc :: "(writer, 'pe, unit) io" and sdec :: "(reader, 'se, 's) io"
  assumes "varint_codec V" and "valid_ssh_string rt" and "emits penc p"
    and "fits (ch_writer c) (img_request V rt p)" and "w_flush_ok (ch_writer c)"
    and "valid_msg reply" and "ch_reader c = rd (img_msg V reply @ rest) e"
    and "ch_reader peer = rd (img_request V rt p @ rest') e'"
  shows "channel_next_event V peer = (Inr (CE_Request rt True), peer\<lparr>ch_reader := rd (p @ rest') e'\<rparr>)
    \<and> w_out (ch_writer (snd (channel_request V rt penc sdec c)))
        = w_out (ch_writer c) @ img_request V rt p
    \<and> fst (channel_request V rt penc sdec c) =
      (case reply of
         M_Success q \<Rightarrow> fst (ctx SCR_DecodeSuccess sdec (rd (q @ rest) e))
       | M_Failure \<Rightarrow> Inl SCR_Rejected
       | M_Data _ \<Rightarrow> Inl (SCR_UnexpectedResponseType SSH_MSG_CHANNEL_DATA)
       | M_ExtendedData _ _ \<Rightarrow> Inl (SCR_UnexpectedResponseType SSH_MSG_CHANNEL_EXTENDED_DATA)
       | M_Notice _ _ \<Rightarrow> Inl (SCR_UnexpectedResponseType SSH_MSG_CHANNEL_REQUEST)
       | M_Eof \<Rightarrow> Inl (SCR_UnexpectedResponseType SSH_MSG_CHANNEL_EOF)
       | M_Close \<Rightarrow> Inl (SCR_UnexpectedResponseType SSH_MSG_CHANNEL_CLOSE))"
proof -
  note ev = varint_codec.channel_next_event_request [OF assms(1,2,8)]
  from varint_codec.channel_request_reply [OF assms(1-7), of sdec] obtain w where
    "w_out w = w_out (ch_writer c) @ img_request V rt p" and
    "channel_request V rt penc sdec c = (case reply of
         M_Success q \<Rightarrow> on_reader (ctx SCR_DecodeSuccess sdec)
            (c\<lparr>ch_writer := w, ch_reader := rd (q @ rest) e\<rparr>)
       | M_Failure \<Rightarrow> (Inl SCR_Rejected, c\<lparr>ch_writer := w, ch_reader := rd rest e\<rparr>)
       | M_Data d \<Rightarrow> (Inl (SCR_UnexpectedResponseType SSH_MSG_CHANNEL_DATA),
            c\<lparr>ch_writer := w, ch_reader := rd (vi_enc V (length d) @ d @ rest) e\<rparr>)
       | M_ExtendedData t d \<Rightarrow> (Inl (SCR_UnexpectedResponseType SSH_MSG_CHANNEL_EXTENDED_DATA),
            c\<lparr>ch_writer := w, ch_reader := rd (vi_enc V t @ vi_enc V (length d) @ d @ rest) e\<rparr>)
       | M_Notice r q \<Rightarrow> (Inl (SCR_UnexpectedResponseType SSH_MSG_CHANNEL_REQUEST),
            c\<lparr>ch_writer := w,
              ch_reader := rd (img_ssh_string V r @ img_ssh_bool False @ q @ rest) e\<rparr>)
       | M_Eof \<Rightarrow> (Inl (SCR_UnexpectedResponseType SSH_MSG_CHANNEL_EOF),
            c\<lparr>ch_writer := w, ch_reader := rd rest e\<rparr>)
       | M_Close \<Rightarrow> (Inl (SCR_UnexpectedResponseType SSH_MSG_CHANNEL_CLOSE),
            c\<lparr>ch_writer := w, ch_reader := rd rest e\<rparr>))" by blast
  then show ?thesis
    by (intro conjI ev) (auto simp: on_reader_def split: channel_msg.splits prod.splits)
qed

theorem request_reply_witness:
  "\<exists>c'. channel_request quic_varint (lit ''x'') (write_all [1]) (okS (3::nat))
     \<lparr>ch_reader = rd (img_msg quic_varint M_Failure) None, ch_writer = fresh_writer\<rparr>
       = (Inl SCR_Rejected :: (io_error, unit) send_channel_request_error + nat, c')"
proof -
  have v: "valid_ssh_string (lit ''x'')"
    by (simp add: valid_ssh_string_def MAX_REMOTE_FIELD_SIZE_def lit_def byte_of_def)
  let ?c = "\<lparr>ch_reader = rd (img_msg quic_varint M_Failure) None, ch_writer = fresh_writer\<rparr>"
  let ?p = "\<lparr>ch_reader = rd (img_request quic_varint (lit ''x'') [1]) None, ch_writer = fresh_writer\<rparr>"
  have "fst (channel_request quic_varint (lit ''x'') (write_all [1]) (okS (3::nat)) ?c)
      = (Inl SCR_Rejected :: (io_error, unit) send_channel_request_error + nat)"
    using request_reply [OF quic.varint_codec_axioms v emits_write_all [of "[1]"],
        of ?c M_Failure "[]" None ?p "[]" None "okS (3::nat) :: (reader, unit, nat) io"]
    by simp
  then show ?thesis by (metis prod.collapse)
qed

text \<open>
  Data copied from a reader. \<open>data_from\<close> succeeds when the source holds the
  announced number of bytes and the message fits. Whenever it succeeds the source did hold
  them, the stream carries the same message as \<open>data\<close> on those bytes, flushed, and the source
  has lost exactly them: a short source is always reported as an error.
\<close>

theorem data_from_spec:
  "(len < VARINT_LIMIT \<and> len \<le> length bs \<and> w_flush_ok w
      \<and> fits w (img_msg V (M_Data (take len bs)))
      \<longrightarrow> is_ok (fst (writer_data_from V lag len (rd bs e, w))))
   \<and> (\<forall>r' w'. writer_data_from V lag len (rd bs e, w) = (Inr (), (r', w')) \<longrightarrow>
      len \<le> length bs \<and> r_in r' = drop len bs \<and> w_flushed w' = length (w_out w') \<and>
      w_out w' = w_out w @ img_msg V (M_Data (take len bs)))"
proof (intro conjI allI impI; (elim conjE)?)
  fix r' w' assume "writer_data_from V lag len (rd bs e, w) = (Inr (), (r', w'))"
  from data_from_ok [OF this]
  show "len \<le> length bs" "r_in r' = drop len bs" "w_flushed w' = length (w_out w')"
    "w_out w' = w_out w @ img_msg V (M_Data (take len bs))" by simp_all
qed (rule data_from_run)

theorem data_from_spec_witness:
  "\<exists>r' w'. writer_data_from quic_varint 0 2 (rd [1, 2, 3] None, fresh_writer) = (Inr (), (r', w'))
     \<and> r_in r' = [3] \<and> w_out w' = img_msg quic_varint (M_Data [1, 2])"
proof -
  note spec = data_from_spec [where V = quic_varint and lag = 0 and len = 2 and bs = "[1, 2, 3]"
      and e = None and w = fresh_writer]
  have "is_ok (fst (writer_data_from quic_varint 0 2 (rd [1, 2, 3] None, fresh_writer)))"
    by (rule spec [THEN conjunct1, rule_format]) (simp add: VARINT_LIMIT_def)
  from is_ok_unit [OF this] obtain r' w' where
    d: "writer_data_from quic_varint 0 2 (rd [1, 2, 3] None, fresh_writer) = (Inr (), (r', w'))" by auto
  from spec [THEN conjunct2, rule_format, OF d]
  have "r_in r' = [3] \<and> w_out w' = img_msg quic_varint (M_Data [1, 2])" by simp
  with d show ?thesis by blast
qed

end
