(* ===== verification/Forward_Messages.thy ===== *)
theory Forward_Messages
  imports Channel_Wire
begin

text \<open>
  The payloads of port forwarding (\<open>src/forward/mod.rs\<close>): global requests, their reply, and the
  channel-open payloads, each an instance of the wire-format contract; the channel types and
  request types they travel under; the canonical form of a remote bind host; and the relay
  that joins two streams. Field names carry a prefix per record, because HOL record fields
  share one name space.
\<close>

definition CANONICAL_REMOTE_WILDCARD_HOST :: string where
  "CANONICAL_REMOTE_WILDCARD_HOST = []"

definition CANONICAL_REMOTE_LOOPBACK_HOST :: string where
  "CANONICAL_REMOTE_LOOPBACK_HOST = ''localhost''"

definition canonicalize_remote_bind_host :: "string \<Rightarrow> string" where
  "canonicalize_remote_bind_host host =
     (if host = [] \<or> host = ''*'' then CANONICAL_REMOTE_WILDCARD_HOST
      else if host = ''localhost'' then CANONICAL_REMOTE_LOOPBACK_HOST
      else host)"

text \<open>
  \<open>relay\<close>: copy everything, then shut the writer down. When the source fails, up to \<open>lag\<close>
  bytes already read were not yet written.
\<close>

definition relay :: "nat \<Rightarrow> (reader \<times> writer, io_error, nat) io" where
  "relay lag = (\<lambda>(r, w).
     case copy_limited lag (Suc (length (r_in r))) (r, w) of
       (Inl e, s) \<Rightarrow> (Inl e, s)
     | (Inr n, (r', w')) \<Rightarrow>
         (case shutdown w' of
            (Inl e, w'') \<Rightarrow> (Inl e, (r', w''))
          | (Inr _, w'') \<Rightarrow> (Inr n, (r', w''))))"

datatype forward_error =
    ForwardCodec codec_error | ForwardReadIo io_error | ForwardWriteIo io_error

record tcpip_forward_request =
  tf_bind_address :: ssh_string
  tf_bind_port :: nat

record direct_tcpip =
  dt_dest_host :: ssh_string
  dt_dest_port :: nat
  dt_originator_host :: ssh_string
  dt_originator_port :: nat

record cancel_tcpip_forward_request =
  ct_bind_address :: ssh_string
  ct_bind_port :: nat

record tcpip_forward_reply =
  tr_allocated_port :: nat

record forwarded_tcpip =
  ft_connected_address :: ssh_string
  ft_connected_port :: nat
  ft_originator_address :: ssh_string
  ft_originator_port :: nat

record streamlocal_forward_request =
  sf_socket_path :: ssh_string

record cancel_streamlocal_forward_request =
  cs_socket_path :: ssh_string

record forwarded_streamlocal =
  fs_socket_path :: ssh_string

record direct_streamlocal =
  ds_socket_path :: ssh_string

definition enc_tcpip_forward ::
    "varint_api \<Rightarrow> tcpip_forward_request \<Rightarrow> (writer, forward_error, unit) io" where
  "enc_tcpip_forward V r = seqS [ctx ForwardCodec (enc_ssh_string V (tf_bind_address r)),
     ctx ForwardWriteIo (encode_varint V (tf_bind_port r))]"

definition dec_tcpip_forward :: "varint_api \<Rightarrow> (reader, forward_error, tcpip_forward_request) io" where
  "dec_tcpip_forward V =
     bindS (ctx ForwardCodec (dec_ssh_string V)) (\<lambda>addr.
     bindS (ctx ForwardReadIo (decode_varint V)) (\<lambda>port.
       okS \<lparr>tf_bind_address = addr, tf_bind_port = port\<rparr>))"

definition enc_direct_tcpip ::
    "varint_api \<Rightarrow> direct_tcpip \<Rightarrow> (writer, forward_error, unit) io" where
  "enc_direct_tcpip V r = seqS [ctx ForwardCodec (enc_ssh_string V (dt_dest_host r)),
     ctx ForwardWriteIo (encode_varint V (dt_dest_port r)),
     ctx ForwardCodec (enc_ssh_string V (dt_originator_host r)),
     ctx ForwardWriteIo (encode_varint V (dt_originator_port r))]"

definition dec_direct_tcpip :: "varint_api \<Rightarrow> (reader, forward_error, direct_tcpip) io" where
  "dec_direct_tcpip V =
     bindS (ctx ForwardCodec (dec_ssh_string V)) (\<lambda>dest_host.
     bindS (ctx ForwardReadIo (decode_varint V)) (\<lambda>dest_port.
     bindS (ctx ForwardCodec (dec_ssh_string V)) (\<lambda>originator_host.
     bindS (ctx ForwardReadIo (decode_varint V)) (\<lambda>originator_port.
       okS \<lparr>dt_dest_host = dest_host, dt_dest_port = dest_port, dt_originator_host = originator_host, dt_originator_port = originator_port\<rparr>))))"

definition enc_cancel_tcpip_forward ::
    "varint_api \<Rightarrow> cancel_tcpip_forward_request \<Rightarrow> (writer, forward_error, unit) io" where
  "enc_cancel_tcpip_forward V r = seqS [ctx ForwardCodec (enc_ssh_string V (ct_bind_address r)),
     ctx ForwardWriteIo (encode_varint V (ct_bind_port r))]"

definition dec_cancel_tcpip_forward :: "varint_api \<Rightarrow> (reader, forward_error, cancel_tcpip_forward_request) io" where
  "dec_cancel_tcpip_forward V =
     bindS (ctx ForwardCodec (dec_ssh_string V)) (\<lambda>addr.
     bindS (ctx ForwardReadIo (decode_varint V)) (\<lambda>port.
       okS \<lparr>ct_bind_address = addr, ct_bind_port = port\<rparr>))"

definition enc_tcpip_forward_reply ::
    "varint_api \<Rightarrow> tcpip_forward_reply \<Rightarrow> (writer, forward_error, unit) io" where
  "enc_tcpip_forward_reply V r = seqS [ctx ForwardWriteIo (encode_varint V (tr_allocated_port r))]"

definition dec_tcpip_forward_reply :: "varint_api \<Rightarrow> (reader, forward_error, tcpip_forward_reply) io" where
  "dec_tcpip_forward_reply V =
     bindS (ctx ForwardReadIo (decode_varint V)) (\<lambda>allocated_port.
       okS \<lparr>tr_allocated_port = allocated_port\<rparr>)"

definition enc_forwarded_tcpip ::
    "varint_api \<Rightarrow> forwarded_tcpip \<Rightarrow> (writer, forward_error, unit) io" where
  "enc_forwarded_tcpip V r = seqS [ctx ForwardCodec (enc_ssh_string V (ft_connected_address r)),
     ctx ForwardWriteIo (encode_varint V (ft_connected_port r)),
     ctx ForwardCodec (enc_ssh_string V (ft_originator_address r)),
     ctx ForwardWriteIo (encode_varint V (ft_originator_port r))]"

definition dec_forwarded_tcpip :: "varint_api \<Rightarrow> (reader, forward_error, forwarded_tcpip) io" where
  "dec_forwarded_tcpip V =
     bindS (ctx ForwardCodec (dec_ssh_string V)) (\<lambda>connected_address.
     bindS (ctx ForwardReadIo (decode_varint V)) (\<lambda>connected_port.
     bindS (ctx ForwardCodec (dec_ssh_string V)) (\<lambda>originator_address.
     bindS (ctx ForwardReadIo (decode_varint V)) (\<lambda>originator_port.
       okS \<lparr>ft_connected_address = connected_address, ft_connected_port = connected_port, ft_originator_address = originator_address, ft_originator_port = originator_port\<rparr>))))"

definition enc_streamlocal_forward ::
    "varint_api \<Rightarrow> streamlocal_forward_request \<Rightarrow> (writer, forward_error, unit) io" where
  "enc_streamlocal_forward V r = seqS [ctx ForwardCodec (enc_ssh_string V (sf_socket_path r))]"

definition dec_streamlocal_forward :: "varint_api \<Rightarrow> (reader, forward_error, streamlocal_forward_request) io" where
  "dec_streamlocal_forward V =
     bindS (ctx ForwardCodec (dec_ssh_string V)) (\<lambda>socket_path.
       okS \<lparr>sf_socket_path = socket_path\<rparr>)"

definition enc_cancel_streamlocal_forward ::
    "varint_api \<Rightarrow> cancel_streamlocal_forward_request \<Rightarrow> (writer, forward_error, unit) io" where
  "enc_cancel_streamlocal_forward V r = seqS [ctx ForwardCodec (enc_ssh_string V (cs_socket_path r))]"

definition dec_cancel_streamlocal_forward :: "varint_api \<Rightarrow> (reader, forward_error, cancel_streamlocal_forward_request) io" where
  "dec_cancel_streamlocal_forward V =
     bindS (ctx ForwardCodec (dec_ssh_string V)) (\<lambda>socket_path.
       okS \<lparr>cs_socket_path = socket_path\<rparr>)"

definition enc_forwarded_streamlocal ::
    "varint_api \<Rightarrow> forwarded_streamlocal \<Rightarrow> (writer, forward_error, unit) io" where
  "enc_forwarded_streamlocal V r = seqS [ctx ForwardCodec (enc_ssh_string V (fs_socket_path r)),
     ctx ForwardCodec (enc_ssh_string V (ssh_string_from_static []))]"

definition dec_forwarded_streamlocal :: "varint_api \<Rightarrow> (reader, forward_error, forwarded_streamlocal) io" where
  "dec_forwarded_streamlocal V =
     bindS (ctx ForwardCodec (dec_ssh_string V)) (\<lambda>socket_path.
     bindS (ctx ForwardCodec (dec_ssh_string V)) (\<lambda>_.
       okS \<lparr>fs_socket_path = socket_path\<rparr>))"

definition enc_direct_streamlocal ::
    "varint_api \<Rightarrow> direct_streamlocal \<Rightarrow> (writer, forward_error, unit) io" where
  "enc_direct_streamlocal V r = seqS [ctx ForwardCodec (enc_ssh_string V (ds_socket_path r)),
     ctx ForwardCodec (enc_ssh_string V (ssh_string_from_static [])),
     ctx ForwardWriteIo (encode_varint V 0)]"

definition dec_direct_streamlocal :: "varint_api \<Rightarrow> (reader, forward_error, direct_streamlocal) io" where
  "dec_direct_streamlocal V =
     bindS (ctx ForwardCodec (dec_ssh_string V)) (\<lambda>socket_path.
     bindS (ctx ForwardCodec (dec_ssh_string V)) (\<lambda>_.
     bindS (ctx ForwardReadIo (decode_varint V)) (\<lambda>_.
       okS \<lparr>ds_socket_path = socket_path\<rparr>)))"

subsection \<open>Empty payload, channel types and global request types\<close>

definition enc_empty :: "(writer, 'e, unit) io" where
  "enc_empty = okS ()"

definition dec_empty :: "(reader, 'e, unit) io" where
  "dec_empty = okS ()"

datatype channel_open =
    SessionChannelOpen | OpenDirectTcpip direct_tcpip | OpenForwardedTcpip forwarded_tcpip
  | OpenDirectStreamlocal direct_streamlocal | OpenForwardedStreamlocal forwarded_streamlocal
  | Socks5ChannelOpen

primrec channel_type :: "channel_open \<Rightarrow> ssh_string" where
  "channel_type SessionChannelOpen = ssh_string_from_static ''session''"
| "channel_type (OpenDirectTcpip p) = ssh_string_from_static ''direct-tcpip''"
| "channel_type (OpenForwardedTcpip p) = ssh_string_from_static ''forwarded-tcpip''"
| "channel_type (OpenDirectStreamlocal p) = ssh_string_from_static ''direct-streamlocal@openssh.com''"
| "channel_type (OpenForwardedStreamlocal p) =
     ssh_string_from_static ''forwarded-streamlocal@openssh.com''"
| "channel_type Socks5ChannelOpen = ssh_string_from_static ''socks5''"

primrec channel_open_payload :: "varint_api \<Rightarrow> channel_open \<Rightarrow> (writer, forward_error, unit) io" where
  "channel_open_payload V SessionChannelOpen = enc_empty"
| "channel_open_payload V (OpenDirectTcpip p) = enc_direct_tcpip V p"
| "channel_open_payload V (OpenForwardedTcpip p) = enc_forwarded_tcpip V p"
| "channel_open_payload V (OpenDirectStreamlocal p) = enc_direct_streamlocal V p"
| "channel_open_payload V (OpenForwardedStreamlocal p) = enc_forwarded_streamlocal V p"
| "channel_open_payload V Socks5ChannelOpen = enc_empty"

datatype forward_global_request =
    TcpipForwardGlobalRequest tcpip_forward_request
  | CancelTcpipForwardGlobalRequest cancel_tcpip_forward_request
  | StreamlocalForwardGlobalRequest streamlocal_forward_request
  | CancelStreamlocalForwardGlobalRequest cancel_streamlocal_forward_request

primrec forward_request_type :: "forward_global_request \<Rightarrow> ssh_string" where
  "forward_request_type (TcpipForwardGlobalRequest p) = ssh_string_from_static ''tcpip-forward''"
| "forward_request_type (CancelTcpipForwardGlobalRequest p) =
     ssh_string_from_static ''cancel-tcpip-forward''"
| "forward_request_type (StreamlocalForwardGlobalRequest p) =
     ssh_string_from_static ''streamlocal-forward@openssh.com''"
| "forward_request_type (CancelStreamlocalForwardGlobalRequest p) =
     ssh_string_from_static ''cancel-streamlocal-forward@openssh.com''"

primrec forward_request_payload ::
    "varint_api \<Rightarrow> forward_global_request \<Rightarrow> (writer, forward_error, unit) io" where
  "forward_request_payload V (TcpipForwardGlobalRequest p) = enc_tcpip_forward V p"
| "forward_request_payload V (CancelTcpipForwardGlobalRequest p) = enc_cancel_tcpip_forward V p"
| "forward_request_payload V (StreamlocalForwardGlobalRequest p) = enc_streamlocal_forward V p"
| "forward_request_payload V (CancelStreamlocalForwardGlobalRequest p) =
     enc_cancel_streamlocal_forward V p"

subsection \<open>Images\<close>

definition img_tcpip_forward where
  "img_tcpip_forward V r = img_ssh_string V (tf_bind_address r)
     @ vi_enc V (tf_bind_port r)"

definition img_direct_tcpip where
  "img_direct_tcpip V r = img_ssh_string V (dt_dest_host r)
     @ vi_enc V (dt_dest_port r)
     @ img_ssh_string V (dt_originator_host r)
     @ vi_enc V (dt_originator_port r)"

definition img_cancel_tcpip_forward where
  "img_cancel_tcpip_forward V r = img_ssh_string V (ct_bind_address r)
     @ vi_enc V (ct_bind_port r)"

definition img_tcpip_forward_reply where
  "img_tcpip_forward_reply V r = vi_enc V (tr_allocated_port r)"

definition img_forwarded_tcpip where
  "img_forwarded_tcpip V r = img_ssh_string V (ft_connected_address r)
     @ vi_enc V (ft_connected_port r)
     @ img_ssh_string V (ft_originator_address r)
     @ vi_enc V (ft_originator_port r)"

definition img_streamlocal_forward where
  "img_streamlocal_forward V r = img_ssh_string V (sf_socket_path r)"

definition img_cancel_streamlocal_forward where
  "img_cancel_streamlocal_forward V r = img_ssh_string V (cs_socket_path r)"

definition img_forwarded_streamlocal where
  "img_forwarded_streamlocal V r = img_ssh_string V (fs_socket_path r)
     @ img_ssh_string V []"

definition img_direct_streamlocal where
  "img_direct_streamlocal V r = img_ssh_string V (ds_socket_path r)
     @ img_ssh_string V []
     @ vi_enc V 0"

definition valid_tcpip_forward :: "tcpip_forward_request \<Rightarrow> bool" where
  "valid_tcpip_forward r \<longleftrightarrow> valid_ssh_string (tf_bind_address r) \<and> tf_bind_port r < VARINT_LIMIT"

definition valid_direct_tcpip :: "direct_tcpip \<Rightarrow> bool" where
  "valid_direct_tcpip r \<longleftrightarrow> valid_ssh_string (dt_dest_host r) \<and> dt_dest_port r < VARINT_LIMIT \<and> valid_ssh_string (dt_originator_host r) \<and> dt_originator_port r < VARINT_LIMIT"

definition valid_cancel_tcpip_forward :: "cancel_tcpip_forward_request \<Rightarrow> bool" where
  "valid_cancel_tcpip_forward r \<longleftrightarrow> valid_ssh_string (ct_bind_address r) \<and> ct_bind_port r < VARINT_LIMIT"

definition valid_tcpip_forward_reply :: "tcpip_forward_reply \<Rightarrow> bool" where
  "valid_tcpip_forward_reply r \<longleftrightarrow> tr_allocated_port r < VARINT_LIMIT"

definition valid_forwarded_tcpip :: "forwarded_tcpip \<Rightarrow> bool" where
  "valid_forwarded_tcpip r \<longleftrightarrow> valid_ssh_string (ft_connected_address r) \<and> ft_connected_port r < VARINT_LIMIT \<and> valid_ssh_string (ft_originator_address r) \<and> ft_originator_port r < VARINT_LIMIT"

definition valid_streamlocal_forward :: "streamlocal_forward_request \<Rightarrow> bool" where
  "valid_streamlocal_forward r \<longleftrightarrow> valid_ssh_string (sf_socket_path r)"

definition valid_cancel_streamlocal_forward :: "cancel_streamlocal_forward_request \<Rightarrow> bool" where
  "valid_cancel_streamlocal_forward r \<longleftrightarrow> valid_ssh_string (cs_socket_path r)"

definition valid_forwarded_streamlocal :: "forwarded_streamlocal \<Rightarrow> bool" where
  "valid_forwarded_streamlocal r \<longleftrightarrow> valid_ssh_string (fs_socket_path r)"

definition valid_direct_streamlocal :: "direct_streamlocal \<Rightarrow> bool" where
  "valid_direct_streamlocal r \<longleftrightarrow> valid_ssh_string (ds_socket_path r)"

lemmas forward_encs = enc_tcpip_forward_def enc_direct_tcpip_def enc_cancel_tcpip_forward_def enc_tcpip_forward_reply_def enc_forwarded_tcpip_def enc_streamlocal_forward_def enc_cancel_streamlocal_forward_def enc_forwarded_streamlocal_def enc_direct_streamlocal_def

lemmas forward_decs = dec_tcpip_forward_def dec_direct_tcpip_def dec_cancel_tcpip_forward_def dec_tcpip_forward_reply_def dec_forwarded_tcpip_def dec_streamlocal_forward_def dec_cancel_streamlocal_forward_def dec_forwarded_streamlocal_def dec_direct_streamlocal_def

lemmas forward_imgs = img_tcpip_forward_def img_direct_tcpip_def img_cancel_tcpip_forward_def img_tcpip_forward_reply_def img_forwarded_tcpip_def img_streamlocal_forward_def img_cancel_streamlocal_forward_def img_forwarded_streamlocal_def img_direct_streamlocal_def

lemmas forward_valids = valid_tcpip_forward_def valid_direct_tcpip_def valid_cancel_tcpip_forward_def valid_tcpip_forward_reply_def valid_forwarded_tcpip_def valid_streamlocal_forward_def valid_cancel_streamlocal_forward_def valid_forwarded_streamlocal_def valid_direct_streamlocal_def

lemma valid_empty [simp]: "valid_ssh_string []"
  by (simp add: valid_ssh_string_def)

lemma forward_ranges [simp]: "0 < VARINT_LIMIT" "length ([] :: bytes) < VARINT_LIMIT"
  by (simp_all add: VARINT_LIMIT_def)

lemma valid_str_length: "valid_ssh_string s \<Longrightarrow> length s < VARINT_LIMIT"
  by (simp add: valid_ssh_string_def size_limits)

lemma forward_emits:
  "valid_tcpip_forward r0 \<Longrightarrow> emits (enc_tcpip_forward V r0) (img_tcpip_forward V r0)"
  "valid_direct_tcpip r1 \<Longrightarrow> emits (enc_direct_tcpip V r1) (img_direct_tcpip V r1)"
  "valid_cancel_tcpip_forward r2 \<Longrightarrow> emits (enc_cancel_tcpip_forward V r2) (img_cancel_tcpip_forward V r2)"
  "valid_tcpip_forward_reply r3 \<Longrightarrow> emits (enc_tcpip_forward_reply V r3) (img_tcpip_forward_reply V r3)"
  "valid_forwarded_tcpip r4 \<Longrightarrow> emits (enc_forwarded_tcpip V r4) (img_forwarded_tcpip V r4)"
  "valid_streamlocal_forward r5 \<Longrightarrow> emits (enc_streamlocal_forward V r5) (img_streamlocal_forward V r5)"
  "valid_cancel_streamlocal_forward r6 \<Longrightarrow> emits (enc_cancel_streamlocal_forward V r6) (img_cancel_streamlocal_forward V r6)"
  "valid_forwarded_streamlocal r7 \<Longrightarrow> emits (enc_forwarded_streamlocal V r7) (img_forwarded_streamlocal V r7)"
  "valid_direct_streamlocal r8 \<Longrightarrow> emits (enc_direct_streamlocal V r8) (img_direct_streamlocal V r8)"
  unfolding forward_encs forward_imgs forward_valids ssh_string_from_static_def lit_Nil
  by (intro emits_intros valid_str_length; simp)+

context varint_codec
begin

lemma forward_dec_img:
  "valid_tcpip_forward r0 \<Longrightarrow> dec_tcpip_forward V (rd (img_tcpip_forward V r0 @ rest) e) = (Inr r0, rd rest e)"
  "valid_direct_tcpip r1 \<Longrightarrow> dec_direct_tcpip V (rd (img_direct_tcpip V r1 @ rest) e) = (Inr r1, rd rest e)"
  "valid_cancel_tcpip_forward r2 \<Longrightarrow> dec_cancel_tcpip_forward V (rd (img_cancel_tcpip_forward V r2 @ rest) e) = (Inr r2, rd rest e)"
  "valid_tcpip_forward_reply r3 \<Longrightarrow> dec_tcpip_forward_reply V (rd (img_tcpip_forward_reply V r3 @ rest) e) = (Inr r3, rd rest e)"
  "valid_forwarded_tcpip r4 \<Longrightarrow> dec_forwarded_tcpip V (rd (img_forwarded_tcpip V r4 @ rest) e) = (Inr r4, rd rest e)"
  "valid_streamlocal_forward r5 \<Longrightarrow> dec_streamlocal_forward V (rd (img_streamlocal_forward V r5 @ rest) e) = (Inr r5, rd rest e)"
  "valid_cancel_streamlocal_forward r6 \<Longrightarrow> dec_cancel_streamlocal_forward V (rd (img_cancel_streamlocal_forward V r6 @ rest) e) = (Inr r6, rd rest e)"
  "valid_forwarded_streamlocal r7 \<Longrightarrow> dec_forwarded_streamlocal V (rd (img_forwarded_streamlocal V r7 @ rest) e) = (Inr r7, rd rest e)"
  "valid_direct_streamlocal r8 \<Longrightarrow> dec_direct_streamlocal V (rd (img_direct_streamlocal V r8 @ rest) e) = (Inr r8, rd rest e)"
  by (simp_all add: forward_decs forward_imgs forward_valids io_simps wire)

lemma forward_dec_valid:
  "dec_tcpip_forward V r = (Inr r0, r') \<Longrightarrow> valid_tcpip_forward r0"
  "dec_direct_tcpip V r = (Inr r1, r') \<Longrightarrow> valid_direct_tcpip r1"
  "dec_cancel_tcpip_forward V r = (Inr r2, r') \<Longrightarrow> valid_cancel_tcpip_forward r2"
  "dec_tcpip_forward_reply V r = (Inr r3, r') \<Longrightarrow> valid_tcpip_forward_reply r3"
  "dec_forwarded_tcpip V r = (Inr r4, r') \<Longrightarrow> valid_forwarded_tcpip r4"
  "dec_streamlocal_forward V r = (Inr r5, r') \<Longrightarrow> valid_streamlocal_forward r5"
  "dec_cancel_streamlocal_forward V r = (Inr r6, r') \<Longrightarrow> valid_cancel_streamlocal_forward r6"
  "dec_forwarded_streamlocal V r = (Inr r7, r') \<Longrightarrow> valid_forwarded_streamlocal r7"
  "dec_direct_streamlocal V r = (Inr r8, r') \<Longrightarrow> valid_direct_streamlocal r8"
  by (auto simp: forward_decs forward_valids io_Inr_iffs dest: dec_ssh_string_valid decode_varint_bound)

lemma forward_dec_streaming:
  "streaming (dec_tcpip_forward V)"
  "streaming (dec_direct_tcpip V)"
  "streaming (dec_cancel_tcpip_forward V)"
  "streaming (dec_tcpip_forward_reply V)"
  "streaming (dec_forwarded_tcpip V)"
  "streaming (dec_streamlocal_forward V)"
  "streaming (dec_cancel_streamlocal_forward V)"
  "streaming (dec_forwarded_streamlocal V)"
  "streaming (dec_direct_streamlocal V)"
  unfolding forward_decs
  by (intro streaming_intros streaming_codec decode_varint_streaming)+

end

sublocale varint_codec \<subseteq> tcpip_forward: wire_format "enc_tcpip_forward V" "dec_tcpip_forward V"
    "img_tcpip_forward V" valid_tcpip_forward
  by unfold_locales
    (simp_all add: forward_emits forward_dec_img forward_dec_valid forward_dec_streaming)

sublocale varint_codec \<subseteq> direct_tcpip: wire_format "enc_direct_tcpip V" "dec_direct_tcpip V"
    "img_direct_tcpip V" valid_direct_tcpip
  by unfold_locales
    (simp_all add: forward_emits forward_dec_img forward_dec_valid forward_dec_streaming)

sublocale varint_codec \<subseteq> cancel_tcpip_forward: wire_format "enc_cancel_tcpip_forward V" "dec_cancel_tcpip_forward V"
    "img_cancel_tcpip_forward V" valid_cancel_tcpip_forward
  by unfold_locales
    (simp_all add: forward_emits forward_dec_img forward_dec_valid forward_dec_streaming)

sublocale varint_codec \<subseteq> tcpip_forward_reply: wire_format "enc_tcpip_forward_reply V" "dec_tcpip_forward_reply V"
    "img_tcpip_forward_reply V" valid_tcpip_forward_reply
  by unfold_locales
    (simp_all add: forward_emits forward_dec_img forward_dec_valid forward_dec_streaming)

sublocale varint_codec \<subseteq> forwarded_tcpip: wire_format "enc_forwarded_tcpip V" "dec_forwarded_tcpip V"
    "img_forwarded_tcpip V" valid_forwarded_tcpip
  by unfold_locales
    (simp_all add: forward_emits forward_dec_img forward_dec_valid forward_dec_streaming)

sublocale varint_codec \<subseteq> streamlocal_forward: wire_format "enc_streamlocal_forward V" "dec_streamlocal_forward V"
    "img_streamlocal_forward V" valid_streamlocal_forward
  by unfold_locales
    (simp_all add: forward_emits forward_dec_img forward_dec_valid forward_dec_streaming)

sublocale varint_codec \<subseteq> cancel_streamlocal_forward: wire_format "enc_cancel_streamlocal_forward V" "dec_cancel_streamlocal_forward V"
    "img_cancel_streamlocal_forward V" valid_cancel_streamlocal_forward
  by unfold_locales
    (simp_all add: forward_emits forward_dec_img forward_dec_valid forward_dec_streaming)

sublocale varint_codec \<subseteq> forwarded_streamlocal: wire_format "enc_forwarded_streamlocal V" "dec_forwarded_streamlocal V"
    "img_forwarded_streamlocal V" valid_forwarded_streamlocal
  by unfold_locales
    (simp_all add: forward_emits forward_dec_img forward_dec_valid forward_dec_streaming)

sublocale varint_codec \<subseteq> direct_streamlocal: wire_format "enc_direct_streamlocal V" "dec_direct_streamlocal V"
    "img_direct_streamlocal V" valid_direct_streamlocal
  by unfold_locales
    (simp_all add: forward_emits forward_dec_img forward_dec_valid forward_dec_streaming)

context varint_codec
begin

lemmas forward_survives = tcpip_forward.survives
  direct_tcpip.survives
  cancel_tcpip_forward.survives
  tcpip_forward_reply.survives
  forwarded_tcpip.survives
  streamlocal_forward.survives
  cancel_streamlocal_forward.survives
  forwarded_streamlocal.survives
  direct_streamlocal.survives

end

subsection \<open>Properties\<close>

text \<open>
  C29: forwarding payloads survive the wire. Every global request, reply and channel-open
  payload of port forwarding can be encoded and decodes to the same record from exactly the
  bytes written (reserved fields included), while a truncation of them never decodes.
\<close>

theorem forward_payloads_roundtrip:
  assumes "varint_codec V"
  shows "(valid_tcpip_forward r0 \<longrightarrow> survives (enc_tcpip_forward V) (dec_tcpip_forward V) r0)
    \<and> (valid_direct_tcpip r1 \<longrightarrow> survives (enc_direct_tcpip V) (dec_direct_tcpip V) r1)
    \<and> (valid_cancel_tcpip_forward r2 \<longrightarrow> survives (enc_cancel_tcpip_forward V) (dec_cancel_tcpip_forward V) r2)
    \<and> (valid_tcpip_forward_reply r3 \<longrightarrow> survives (enc_tcpip_forward_reply V) (dec_tcpip_forward_reply V) r3)
    \<and> (valid_forwarded_tcpip r4 \<longrightarrow> survives (enc_forwarded_tcpip V) (dec_forwarded_tcpip V) r4)
    \<and> (valid_streamlocal_forward r5 \<longrightarrow> survives (enc_streamlocal_forward V) (dec_streamlocal_forward V) r5)
    \<and> (valid_cancel_streamlocal_forward r6 \<longrightarrow> survives (enc_cancel_streamlocal_forward V) (dec_cancel_streamlocal_forward V) r6)
    \<and> (valid_forwarded_streamlocal r7 \<longrightarrow> survives (enc_forwarded_streamlocal V) (dec_forwarded_streamlocal V) r7)
    \<and> (valid_direct_streamlocal r8 \<longrightarrow> survives (enc_direct_streamlocal V) (dec_direct_streamlocal V) r8)"
  using varint_codec.forward_survives [OF assms] by blast

theorem forward_payloads_roundtrip_witness:
  "survives (enc_direct_streamlocal quic_varint) (dec_direct_streamlocal quic_varint)
     \<lparr>ds_socket_path = lit ''/s''\<rparr>"
  using forward_payloads_roundtrip [OF quic.varint_codec_axioms]
  by (simp add: valid_direct_streamlocal_def valid_ssh_string_def MAX_REMOTE_FIELD_SIZE_def
      lit_def byte_of_def)

text \<open>
  Canonical remote bind hosts. Canonicalization is idempotent and identifies exactly the
  two spellings of the wildcard, so a cancellation that spells the wildcard differently from
  the request still names the same listener and no two other hosts are confused.
\<close>

theorem canonical_host_classes:
  "canonicalize_remote_bind_host (canonicalize_remote_bind_host h) = canonicalize_remote_bind_host h
   \<and> (canonicalize_remote_bind_host h = canonicalize_remote_bind_host h' \<longleftrightarrow>
        h = h' \<or> h \<in> {[], ''*''} \<and> h' \<in> {[], ''*''})"
  by (auto simp: canonicalize_remote_bind_host_def CANONICAL_REMOTE_WILDCARD_HOST_def
      CANONICAL_REMOTE_LOOPBACK_HOST_def)

text \<open>
  The relay moves everything. When the source ends cleanly and the destination accepts the
  bytes, the relay reports their number, has appended exactly them, flushed and shut down the
  destination; whenever it reports success the whole source was copied.
\<close>

theorem relay_copies_all:
  "(fits w bs \<and> w_flush_ok w \<longrightarrow> is_ok (fst (relay lag (rd bs None, w))))
   \<and> (\<forall>n r' w'. relay lag (rd bs e, w) = (Inr n, (r', w')) \<longrightarrow>
        n = length bs \<and> e = None \<and> r_in r' = [] \<and> w_out w' = w_out w @ bs
        \<and> w_flushed w' = length (w_out w') \<and> w_shut w')"
  by (auto simp: relay_def copy_limited_def bindS_def write_all_def flush_def shutdown_def Let_def
      w_out_push_fits split: prod.splits sum.splits option.splits if_splits)

theorem relay_copies_all_witness:
  "\<exists>r' w'. relay 0 (rd [1, 2, 3] None, fresh_writer) = (Inr 3, (r', w')) \<and> w_out w' = [1, 2, 3] \<and> w_shut w'"
proof -
  note spec = relay_copies_all [where w = fresh_writer and bs = "[1, 2, 3]" and lag = 0 and e = None]
  have "is_ok (fst (relay 0 (rd [1, 2, 3] None, fresh_writer)))" using spec by simp
  then obtain n r' w' where r: "relay 0 (rd [1, 2, 3] None, fresh_writer) = (Inr n, (r', w'))"
    by (cases "relay 0 (rd [1, 2, 3] None, fresh_writer)") (auto simp: is_ok_iff)
  from spec [THEN conjunct2, rule_format, OF r] r show ?thesis by simp
qed

end
