(* ===== verification/Conversation.thy ===== *)
theory Conversation
  imports Forward_Messages
begin

text \<open>
  The conversation layer (\<open>src/conversation.rs\<close>, \<open>src/conversation/global.rs\<close> and the stream
  kinds of \<open>src/webtransport.rs\<close>): ordered access to the control stream by tickets, the shared
  state with its poison flag and queue of automatic failures, the whole of every global
  request, notification and response handler, and channel open and accept. Tickets are 64-bit
  words, as the source's \<open>AtomicU64\<close>. A handler may have to wait for its ticket: its outcome
  is \<open>None\<close> when it would wait in the given state, and \<open>Some\<close> of an error or a value otherwise.
  \<open>Tickets\<close> models the interleaving of several handlers.
\<close>

type_synonym ticket = "64 word"

record 'r ordered_access =
  resource :: 'r
  next_ticket :: ticket
  current_serving :: ticket

record conversation_shared =
  sh_reader :: "reader ordered_access"
  sh_writer :: "writer ordered_access"
  poisoned :: bool
  auto_failures :: "ticket list"

datatype session_poisoned_error = SessionPoisonedError

datatype ('pe, 'se) send_request_error =
    SR_EncodeMessageType io_error
  | SR_EncodeRequestType codec_error
  | SR_EncodeWantReply codec_error
  | SR_EncodePayload 'pe
  | SR_Flush io_error
  | SR_DecodeResponseType io_error
  | SR_DecodeSuccess 'se
  | SR_Rejected
  | SR_UnexpectedResponseType nat
  | SR_SessionPoisoned

datatype 'pe send_notify_error =
    SN_EncodeMessageType io_error
  | SN_EncodeRequestType codec_error
  | SN_EncodeWantReply codec_error
  | SN_EncodePayload 'pe
  | SN_Flush io_error
  | SN_SessionPoisoned

datatype accept_error =
    AE_DecodeMessageType io_error
  | AE_DecodeRequestType codec_error
  | AE_DecodeWantReply codec_error
  | AE_UnexpectedMessageType nat
  | AE_SessionPoisoned

datatype 're respond_success_error =
    RS_EncodeMessageType io_error
  | RS_EncodePayload 're
  | RS_Flush io_error
  | RS_SessionPoisoned

datatype respond_failure_error =
    RF_EncodeMessageType io_error
  | RF_Flush io_error
  | RF_SessionPoisoned

subsection \<open>Handlers that may wait\<close>

type_synonym ('s, 'e, 'a) aio = "'s \<Rightarrow> ('e + 'a) option \<times> 's"

definition bindA :: "('s, 'e, 'a) aio \<Rightarrow> ('a \<Rightarrow> ('s, 'e, 'b) aio) \<Rightarrow> ('s, 'e, 'b) aio" where
  "bindA m f = (\<lambda>s. case m s of
       (None, t) \<Rightarrow> (None, t)
     | (Some (Inl e), t) \<Rightarrow> (Some (Inl e), t)
     | (Some (Inr x), t) \<Rightarrow> f x t)"

definition ctxA :: "('e \<Rightarrow> 'f) \<Rightarrow> ('s, 'e, 'a) aio \<Rightarrow> ('s, 'f, 'a) aio" where
  "ctxA g m = (\<lambda>s. case m s of
       (None, t) \<Rightarrow> (None, t)
     | (Some (Inl e), t) \<Rightarrow> (Some (Inl (g e)), t)
     | (Some (Inr x), t) \<Rightarrow> (Some (Inr x), t))"

definition now :: "('s, 'e, 'a) io \<Rightarrow> ('s, 'e, 'a) aio" where
  "now m = (\<lambda>s. case m s of (v, t) \<Rightarrow> (Some v, t))"

subsection \<open>Ordered access\<close>

definition ordered_access_new :: "'r \<Rightarrow> 'r ordered_access" where
  "ordered_access_new r = \<lparr>resource = r, next_ticket = 0, current_serving = 0\<rparr>"

definition take_ticket :: "'r ordered_access \<Rightarrow> ticket \<times> 'r ordered_access" where
  "take_ticket a = (next_ticket a, a\<lparr>next_ticket := next_ticket a + 1\<rparr>)"

definition acquire ::
    "'r ordered_access \<Rightarrow> ticket \<Rightarrow> bool \<Rightarrow> (session_poisoned_error + unit) option" where
  "acquire a ticket is_poisoned =
     (if is_poisoned then Some (Inl SessionPoisonedError)
      else if current_serving a = ticket then Some (Inr ())
      else None)"

definition guard_drop :: "'r ordered_access \<Rightarrow> 'r ordered_access" where
  "guard_drop a = a\<lparr>current_serving := current_serving a + 1\<rparr>"

subsection \<open>Shared state\<close>

definition conversation_shared_new :: "reader \<Rightarrow> writer \<Rightarrow> conversation_shared" where
  "conversation_shared_new r w =
     \<lparr>sh_reader = ordered_access_new r, sh_writer = ordered_access_new w,
      poisoned = False, auto_failures = []\<rparr>"

definition poison :: "conversation_shared \<Rightarrow> conversation_shared" where
  "poison s = s\<lparr>poisoned := True\<rparr>"

definition take_writer_ticket :: "conversation_shared \<Rightarrow> ticket \<times> conversation_shared" where
  "take_writer_ticket s =
     (case take_ticket (sh_writer s) of (t, a) \<Rightarrow> (t, s\<lparr>sh_writer := a\<rparr>))"

definition take_reader_ticket :: "conversation_shared \<Rightarrow> ticket \<times> conversation_shared" where
  "take_reader_ticket s =
     (case take_ticket (sh_reader s) of (t, a) \<Rightarrow> (t, s\<lparr>sh_reader := a\<rparr>))"

definition allocate_request_ticket_pair ::
    "conversation_shared \<Rightarrow> (ticket \<times> ticket) \<times> conversation_shared" where
  "allocate_request_ticket_pair s =
     (case take_writer_ticket s of (wt, s1) \<Rightarrow>
      case take_reader_ticket s1 of (rt, s2) \<Rightarrow> ((wt, rt), s2))"

definition with_writer :: "(writer, 'e, 'a) io \<Rightarrow> (conversation_shared, 'e, 'a) io" where
  "with_writer m = (\<lambda>s. case m (resource (sh_writer s)) of
     (v, w) \<Rightarrow> (v, s\<lparr>sh_writer := (sh_writer s)\<lparr>resource := w\<rparr>\<rparr>))"

definition with_reader :: "(reader, 'e, 'a) io \<Rightarrow> (conversation_shared, 'e, 'a) io" where
  "with_reader m = (\<lambda>s. case m (resource (sh_reader s)) of
     (v, r) \<Rightarrow> (v, s\<lparr>sh_reader := (sh_reader s)\<lparr>resource := r\<rparr>\<rparr>))"

definition release_writer :: "conversation_shared \<Rightarrow> conversation_shared" where
  "release_writer s = s\<lparr>sh_writer := guard_drop (sh_writer s)\<rparr>"

definition release_reader :: "conversation_shared \<Rightarrow> conversation_shared" where
  "release_reader s = s\<lparr>sh_reader := guard_drop (sh_reader s)\<rparr>"

definition auto_failure_write :: "varint_api \<Rightarrow> (writer, io_error, unit) io" where
  "auto_failure_write V = seqS [ctx id (encode_varint V SSH_MSG_REQUEST_FAILURE), ctx id flush]"

function drain_auto_failures ::
    "varint_api \<Rightarrow> (conversation_shared, session_poisoned_error, unit) aio" where
  "drain_auto_failures V s =
     (let current = current_serving (sh_writer s) in
      if current \<in> set (auto_failures s) then
        let s1 = s\<lparr>auto_failures := removeAll current (auto_failures s)\<rparr> in
        case acquire (sh_writer s1) current (poisoned s1) of
          None \<Rightarrow> (None, s1)
        | Some (Inl e) \<Rightarrow> (Some (Inl e), s1)
        | Some (Inr _) \<Rightarrow>
            (case with_writer (auto_failure_write V) s1 of
               (Inl _, s2) \<Rightarrow> (Some (Inl SessionPoisonedError), poison (release_writer s2))
             | (Inr _, s2) \<Rightarrow> drain_auto_failures V (release_writer s2))
      else (Some (Inr ()), s))"
  by pat_completeness auto
termination
  by (relation "measure (\<lambda>(_, s). length (auto_failures s))")
    (auto simp: with_writer_def release_writer_def length_removeAll_less split: prod.splits)

definition acquire_writer ::
    "varint_api \<Rightarrow> ticket \<Rightarrow> (conversation_shared, session_poisoned_error, unit) aio" where
  "acquire_writer V ticket = bindA (drain_auto_failures V) (\<lambda>_ s.
     if current_serving (sh_writer s) = ticket
     then (acquire (sh_writer s) ticket (poisoned s), s)
     else if poisoned s then (Some (Inl SessionPoisonedError), s)
     else (None, s))"

definition acquire_reader ::
    "ticket \<Rightarrow> (conversation_shared, session_poisoned_error, unit) aio" where
  "acquire_reader ticket = (\<lambda>s. (acquire (sh_reader s) ticket (poisoned s), s))"

text \<open>
  A write under the guard with an armed \<open>PoisonOnDrop\<close>: on an error the locals are dropped in
  reverse order, so the session is poisoned before the guard is released.
\<close>

definition guarded_write :: "(writer, 'e, unit) io \<Rightarrow> (conversation_shared, 'e, unit) aio" where
  "guarded_write m = (\<lambda>s. case with_writer m s of
     (Inl e, s1) \<Rightarrow> (Some (Inl e), release_writer (poison s1))
   | (Inr x, s1) \<Rightarrow> (Some (Inr x), release_writer s1))"

subsection \<open>Outgoing requests and notifications\<close>

definition request_write ::
    "varint_api \<Rightarrow> ssh_string \<Rightarrow> (writer, 'pe, unit) io
     \<Rightarrow> (writer, ('pe, 'se) send_request_error, unit) io" where
  "request_write V request_type penc = seqS
     [ctx SR_EncodeMessageType (encode_varint V SSH_MSG_GLOBAL_REQUEST),
      ctx SR_EncodeRequestType (enc_ssh_string V request_type),
      ctx SR_EncodeWantReply (enc_ssh_bool True),
      ctx SR_EncodePayload penc,
      ctx SR_Flush flush]"

definition request_read ::
    "varint_api \<Rightarrow> (reader, 'se, 's) io \<Rightarrow> (reader, ('pe, 'se) send_request_error, 's) io" where
  "request_read V sdec =
     bindS (ctx SR_DecodeResponseType (decode_varint V)) (\<lambda>msg_type.
       if msg_type = SSH_MSG_REQUEST_SUCCESS then ctx SR_DecodeSuccess sdec
       else if msg_type = SSH_MSG_REQUEST_FAILURE then failS SR_Rejected
       else failS (SR_UnexpectedResponseType msg_type))"

definition request_send_phase ::
    "varint_api \<Rightarrow> ticket \<Rightarrow> ssh_string \<Rightarrow> (writer, 'pe, unit) io
     \<Rightarrow> (conversation_shared, ('pe, 'se) send_request_error, unit) aio" where
  "request_send_phase V write_ticket request_type penc =
     bindA (ctxA (\<lambda>_. SR_SessionPoisoned) (acquire_writer V write_ticket)) (\<lambda>_.
       guarded_write (request_write V request_type penc))"

definition request_response_phase ::
    "varint_api \<Rightarrow> ticket \<Rightarrow> (reader, 'se, 's) io
     \<Rightarrow> (conversation_shared, ('pe, 'se) send_request_error, 's) aio" where
  "request_response_phase V read_ticket sdec =
     bindA (ctxA (\<lambda>_. SR_SessionPoisoned) (acquire_reader read_ticket)) (\<lambda>_ s.
       case with_reader (request_read V sdec) s of (v, s1) \<Rightarrow> (Some v, release_reader s1))"

definition send_global_request ::
    "varint_api \<Rightarrow> ssh_string \<Rightarrow> (writer, 'pe, unit) io \<Rightarrow> (reader, 'se, 's) io
     \<Rightarrow> (conversation_shared, ('pe, 'se) send_request_error, 's) aio" where
  "send_global_request V request_type penc sdec = (\<lambda>s.
     case allocate_request_ticket_pair s of ((write_ticket, read_ticket), s1) \<Rightarrow>
       bindA (request_send_phase V write_ticket request_type penc) (\<lambda>_.
         request_response_phase V read_ticket sdec) s1)"

definition notify_write ::
    "varint_api \<Rightarrow> ssh_string \<Rightarrow> (writer, 'pe, unit) io
     \<Rightarrow> (writer, 'pe send_notify_error, unit) io" where
  "notify_write V request_type penc = seqS
     [ctx SN_EncodeMessageType (encode_varint V SSH_MSG_GLOBAL_REQUEST),
      ctx SN_EncodeRequestType (enc_ssh_string V request_type),
      ctx SN_EncodeWantReply (enc_ssh_bool False),
      ctx SN_EncodePayload penc,
      ctx SN_Flush flush]"

definition send_global_notification ::
    "varint_api \<Rightarrow> ssh_string \<Rightarrow> (writer, 'pe, unit) io
     \<Rightarrow> (conversation_shared, 'pe send_notify_error, unit) aio" where
  "send_global_notification V request_type penc = (\<lambda>s.
     case take_writer_ticket s of (write_ticket, s1) \<Rightarrow>
       bindA (ctxA (\<lambda>_. SN_SessionPoisoned) (acquire_writer V write_ticket)) (\<lambda>_.
         guarded_write (notify_write V request_type penc)) s1)"

subsection \<open>Incoming requests and notifications\<close>

text \<open>
  An \<open>IncomingGlobal\<close> owns the reader guard; a request also owns the writer ticket of its
  response.
\<close>

datatype incoming_global = IG_Request ssh_string ticket | IG_Notify ssh_string

definition accept_header :: "varint_api \<Rightarrow> (reader, accept_error, ssh_string \<times> bool) io" where
  "accept_header V =
     bindS (ctx AE_DecodeMessageType (decode_varint V)) (\<lambda>msg_type.
       if msg_type \<noteq> SSH_MSG_GLOBAL_REQUEST then failS (AE_UnexpectedMessageType msg_type)
       else bindS (ctx AE_DecodeRequestType (dec_ssh_string V)) (\<lambda>request_type.
            bindS (ctx AE_DecodeWantReply dec_ssh_bool) (\<lambda>want_reply.
              okS (request_type, want_reply))))"

definition accept_global_request ::
    "varint_api \<Rightarrow> (conversation_shared, accept_error, incoming_global) aio" where
  "accept_global_request V = (\<lambda>s.
     case take_reader_ticket s of (read_ticket, s1) \<Rightarrow>
       bindA (ctxA (\<lambda>_. AE_SessionPoisoned) (acquire_reader read_ticket)) (\<lambda>_ s2.
         case with_reader (accept_header V) s2 of
           (Inl e, s3) \<Rightarrow> (Some (Inl e), release_reader (poison s3))
         | (Inr (request_type, want_reply), s3) \<Rightarrow>
             if want_reply then
               (case take_writer_ticket s3 of (write_ticket, s4) \<Rightarrow>
                  (Some (Inr (IG_Request request_type write_ticket)), s4))
             else (Some (Inr (IG_Notify request_type)), s3)) s1)"

text \<open>
  \<open>decode_payload\<close> of a request or a notice: success releases the reader guard, failure drops
  the value with the guard still in it, which poisons and then releases. \<open>incoming_drop\<close> is
  that drop, and \<open>IncomingGlobalRequest::poison\<close> is a name for it.
\<close>

definition incoming_drop :: "conversation_shared \<Rightarrow> conversation_shared" where
  "incoming_drop s = release_reader (poison s)"

definition incoming_decode_payload ::
    "(reader, 'de, 'a) io \<Rightarrow> (conversation_shared, 'de, 'a) io" where
  "incoming_decode_payload pdec = (\<lambda>s. case with_reader pdec s of
     (Inr value, s1) \<Rightarrow> (Inr value, release_reader s1)
   | (Inl e, s1) \<Rightarrow> (Inl e, incoming_drop s1))"

definition decoded_drop :: "ticket \<Rightarrow> conversation_shared \<Rightarrow> conversation_shared" where
  "decoded_drop ticket s = s\<lparr>auto_failures := insort ticket (removeAll ticket (auto_failures s))\<rparr>"

definition success_write ::
    "varint_api \<Rightarrow> (writer, 're, unit) io \<Rightarrow> (writer, 're respond_success_error, unit) io" where
  "success_write V penc = seqS
     [ctx RS_EncodeMessageType (encode_varint V SSH_MSG_REQUEST_SUCCESS),
      ctx RS_EncodePayload penc,
      ctx RS_Flush flush]"

definition global_respond_success ::
    "varint_api \<Rightarrow> ticket \<Rightarrow> (writer, 're, unit) io
     \<Rightarrow> (conversation_shared, 're respond_success_error, unit) aio" where
  "global_respond_success V ticket penc =
     bindA (ctxA (\<lambda>_. RS_SessionPoisoned) (acquire_writer V ticket)) (\<lambda>_.
       guarded_write (success_write V penc))"

definition failure_write :: "varint_api \<Rightarrow> (writer, respond_failure_error, unit) io" where
  "failure_write V = seqS
     [ctx RF_EncodeMessageType (encode_varint V SSH_MSG_REQUEST_FAILURE),
      ctx RF_Flush flush]"

definition global_respond_failure ::
    "varint_api \<Rightarrow> ticket \<Rightarrow> (conversation_shared, respond_failure_error, unit) aio" where
  "global_respond_failure V ticket =
     bindA (ctxA (\<lambda>_. RF_SessionPoisoned) (acquire_writer V ticket)) (\<lambda>_.
       guarded_write (failure_write V))"

subsection \<open>Streams and channels\<close>

text \<open>
  \<open>bi\<close> is what the WebTransport session's \<open>open_bi\<close> or \<open>accept_bi\<close> returned, its error or a
  pair of streams.
\<close>

datatype 'me web_transport_stream_error =
    WT_OpenBi 'me | WT_AcceptBi 'me | WT_EncodeStreamKind io_error | WT_FlushStreamKind io_error
  | WT_DecodeStreamKind io_error | WT_UnexpectedStreamKind nat

definition write_stream_kind ::
    "varint_api \<Rightarrow> nat \<Rightarrow> (writer, 'me web_transport_stream_error, unit) io" where
  "write_stream_kind V kind = seqS
     [ctx WT_EncodeStreamKind (encode_varint V kind), ctx WT_FlushStreamKind flush]"

definition open_stream_kind ::
    "varint_api \<Rightarrow> 'me + reader \<times> writer \<Rightarrow> nat
     \<Rightarrow> 'me web_transport_stream_error + ssh_channel" where
  "open_stream_kind V bi kind = (case bi of
       Inl e \<Rightarrow> Inl (WT_OpenBi e)
     | Inr (r, w) \<Rightarrow>
         (case write_stream_kind V kind w of
            (Inl e, _) \<Rightarrow> Inl e
          | (Inr _, w') \<Rightarrow> Inr \<lparr>ch_reader = r, ch_writer = w'\<rparr>))"

definition accept_stream_kind ::
    "varint_api \<Rightarrow> 'me + reader \<times> writer \<Rightarrow> nat
     \<Rightarrow> 'me web_transport_stream_error + ssh_channel" where
  "accept_stream_kind V bi expected = (case bi of
       Inl e \<Rightarrow> Inl (WT_AcceptBi e)
     | Inr (r, w) \<Rightarrow>
         (case ctx WT_DecodeStreamKind (decode_varint V) r of
            (Inl e, _) \<Rightarrow> Inl e
          | (Inr actual, r') \<Rightarrow>
              if actual \<noteq> expected then Inl (WT_UnexpectedStreamKind actual)
              else Inr \<lparr>ch_reader = r', ch_writer = w\<rparr>))"

definition conversation_open ::
    "varint_api \<Rightarrow> 'me + reader \<times> writer
     \<Rightarrow> 'me web_transport_stream_error + conversation_shared" where
  "conversation_open V bi = (case open_stream_kind V bi DSHELL_CONTROL_STREAM_KIND of
       Inl e \<Rightarrow> Inl e
     | Inr c \<Rightarrow> Inr (conversation_shared_new (ch_reader c) (ch_writer c)))"

definition conversation_accept ::
    "varint_api \<Rightarrow> 'me + reader \<times> writer
     \<Rightarrow> 'me web_transport_stream_error + conversation_shared" where
  "conversation_accept V bi = (case accept_stream_kind V bi DSHELL_CONTROL_STREAM_KIND of
       Inl e \<Rightarrow> Inl e
     | Inr c \<Rightarrow> Inr (conversation_shared_new (ch_reader c) (ch_writer c)))"

datatype ('me, 'pe) open_channel_error =
    OC_OpenStream "'me web_transport_stream_error" | OC_EncodeMaxMessageSize io_error
  | OC_EncodeChannelType codec_error | OC_EncodePayload 'pe | OC_Flush io_error
  | OC_AwaitConfirmation await_open_error

datatype 'me accept_channel_error =
    AC_AcceptStream "'me web_transport_stream_error" | AC_DecodeMaxMessageSize io_error
  | AC_DecodeChannelType codec_error

definition open_header ::
    "varint_api \<Rightarrow> nat \<Rightarrow> ssh_string \<Rightarrow> (writer, 'pe, unit) io
     \<Rightarrow> (writer, ('me, 'pe) open_channel_error, unit) io" where
  "open_header V max_message_size ctype penc = seqS
     [ctx OC_EncodeMaxMessageSize (encode_varint V max_message_size),
      ctx OC_EncodeChannelType (enc_ssh_string V ctype),
      ctx OC_EncodePayload penc,
      ctx OC_Flush flush]"

definition open_channel ::
    "varint_api \<Rightarrow> 'me + reader \<times> writer \<Rightarrow> ssh_string \<Rightarrow> (writer, 'pe, unit) io \<Rightarrow> nat
     \<Rightarrow> ('me, 'pe) open_channel_error + ssh_channel" where
  "open_channel V bi ctype penc max_message_size =
     (case open_stream_kind V bi DSHELL_CHANNEL_STREAM_KIND of
        Inl e \<Rightarrow> Inl (OC_OpenStream e)
      | Inr c \<Rightarrow>
          (case bindS (on_writer (open_header V max_message_size ctype penc)) (\<lambda>_.
                  on_reader (ctx OC_AwaitConfirmation (read_channel_open_response V))) c of
             (Inl e, _) \<Rightarrow> Inl e
           | (Inr _, c') \<Rightarrow> Inr c'))"

record incoming_channel =
  ic_channel_type :: ssh_string
  ic_max_message_size :: nat
  ic_streams :: ssh_channel

definition accept_channel ::
    "varint_api \<Rightarrow> 'me + reader \<times> writer \<Rightarrow> 'me accept_channel_error + incoming_channel" where
  "accept_channel V bi =
     (case accept_stream_kind V bi DSHELL_CHANNEL_STREAM_KIND of
        Inl e \<Rightarrow> Inl (AC_AcceptStream e)
      | Inr c \<Rightarrow>
          (case bindS (on_reader (ctx AC_DecodeMaxMessageSize (decode_varint V))) (\<lambda>n.
                bindS (on_reader (ctx AC_DecodeChannelType (dec_ssh_string V))) (\<lambda>ty.
                  okS (n, ty))) c of
             (Inl e, _) \<Rightarrow> Inl e
           | (Inr (n, ty), c') \<Rightarrow>
               Inr \<lparr>ic_channel_type = ty, ic_max_message_size = n, ic_streams = c'\<rparr>))"

definition channel_decode_payload ::
    "(reader, 'de, 'a) io \<Rightarrow> incoming_channel \<Rightarrow> 'de + 'a \<times> ssh_channel" where
  "channel_decode_payload pdec ic = (case on_reader pdec (ic_streams ic) of
       (Inl e, _) \<Rightarrow> Inl e
     | (Inr x, c) \<Rightarrow> Inr (x, c))"

definition skip_payload :: "incoming_channel \<Rightarrow> ssh_channel" where
  "skip_payload ic = ic_streams ic"

declare drain_auto_failures.simps [simp del]

end
