(* ===== verification/Global_Requests.thy ===== *)
theory Global_Requests
  imports Conversation
begin

text \<open>
  Properties of the conversation layer as single handlers see it: the exchange of a global
  request and its response across both peers, what poisoning does and when it happens, the
  queue of automatic failures, and the opening of channels.
\<close>

lemma bindA_simps [io_simps]:
  "m s = (None, t) \<Longrightarrow> bindA m f s = (None, t)"
  "m s = (Some (Inl e), t) \<Longrightarrow> bindA m f s = (Some (Inl e), t)"
  "m s = (Some (Inr x), t) \<Longrightarrow> bindA m f s = f x t"
  by (simp_all add: bindA_def)

lemma ctxA_simps [io_simps]:
  "m s = (None, t) \<Longrightarrow> ctxA g m s = (None, t)"
  "m s = (Some (Inl e), t) \<Longrightarrow> ctxA g m s = (Some (Inl (g e)), t)"
  "m s = (Some (Inr x), t) \<Longrightarrow> ctxA g m s = (Some (Inr x), t)"
  by (simp_all add: ctxA_def)

text \<open>The stream the peer will read, and the one this side reads.\<close>

definition out_stream :: "conversation_shared \<Rightarrow> writer" where
  "out_stream s = resource (sh_writer s)"

definition in_stream :: "conversation_shared \<Rightarrow> reader" where
  "in_stream s = resource (sh_reader s)"

text \<open>
  \<open>quiet s\<close>: the session is usable, no automatic failure is queued, and every ticket taken so
  far has been served.
\<close>

definition quiet :: "conversation_shared \<Rightarrow> bool" where
  "quiet s \<longleftrightarrow> \<not> poisoned s \<and> auto_failures s = []
     \<and> next_ticket (sh_writer s) = current_serving (sh_writer s)
     \<and> next_ticket (sh_reader s) = current_serving (sh_reader s)"

definition img_global :: "varint_api \<Rightarrow> ssh_string \<Rightarrow> bool \<Rightarrow> bytes \<Rightarrow> bytes" where
  "img_global V rt want p =
     vi_enc V SSH_MSG_GLOBAL_REQUEST @ img_ssh_string V rt @ img_ssh_bool want @ p"

definition img_success :: "varint_api \<Rightarrow> bytes \<Rightarrow> bytes" where
  "img_success V p = vi_enc V SSH_MSG_REQUEST_SUCCESS @ p"

definition img_failure :: "varint_api \<Rightarrow> bytes" where
  "img_failure V = vi_enc V SSH_MSG_REQUEST_FAILURE"

lemma shared_sels [simp]:
  "sh_writer (poison s) = sh_writer s" "sh_reader (poison s) = sh_reader s"
  "poisoned (poison s)" "auto_failures (poison s) = auto_failures s"
  "sh_reader (release_writer s) = sh_reader s" "poisoned (release_writer s) = poisoned s"
  "auto_failures (release_writer s) = auto_failures s"
  "sh_writer (release_writer s) = guard_drop (sh_writer s)"
  "sh_writer (release_reader s) = sh_writer s" "poisoned (release_reader s) = poisoned s"
  "auto_failures (release_reader s) = auto_failures s"
  "sh_reader (release_reader s) = guard_drop (sh_reader s)"
  by (simp_all add: poison_def release_writer_def release_reader_def)

lemma guard_drop_sels [simp]:
  "resource (guard_drop a) = resource a" "next_ticket (guard_drop a) = next_ticket a"
  "current_serving (guard_drop a) = current_serving a + 1"
  by (simp_all add: guard_drop_def)

subsection \<open>What the write phases send\<close>

lemma sends_request_write:
  "valid_ssh_string rt \<Longrightarrow> emits penc p \<Longrightarrow>
   sends (request_write V rt penc) (img_global V rt True p)"
  unfolding request_write_def img_global_def
  by (intro sends_intros emits_intros) (simp_all add: valid_str_length)

lemma sends_notify_write:
  "valid_ssh_string rt \<Longrightarrow> emits penc p \<Longrightarrow>
   sends (notify_write V rt penc) (img_global V rt False p)"
  unfolding notify_write_def img_global_def
  by (intro sends_intros emits_intros) (simp_all add: valid_str_length)

lemma sends_success_write: "emits penc p \<Longrightarrow> sends (success_write V penc) (img_success V p)"
  unfolding success_write_def img_success_def by (intro sends_intros emits_intros)

lemma sends_failure_write: "sends (failure_write V) (img_failure V)"
  unfolding failure_write_def img_failure_def by (intro sends_intros emits_intros)

lemma sends_auto_failure: "sends (auto_failure_write V) (img_failure V)"
  unfolding auto_failure_write_def img_failure_def by (intro sends_intros emits_intros)

text \<open>A write that can complete does so and releases the guard.\<close>

definition wrote :: "bytes \<Rightarrow> conversation_shared \<Rightarrow> conversation_shared \<Rightarrow> bool" where
  "wrote bs s s' \<longleftrightarrow>
     w_out (out_stream s') = w_out (out_stream s) @ bs
     \<and> w_flushed (out_stream s') = length (w_out (out_stream s'))
     \<and> current_serving (sh_writer s') = current_serving (sh_writer s) + 1
     \<and> next_ticket (sh_writer s') = next_ticket (sh_writer s)
     \<and> sh_reader s' = sh_reader s \<and> poisoned s' = poisoned s
     \<and> auto_failures s' = auto_failures s"

lemma guarded_write_run:
  assumes "sends m bs" and "fits (out_stream s) bs" and "w_flush_ok (out_stream s)"
  shows "\<exists>s'. guarded_write m s = (Some (Inr ()), s') \<and> wrote bs s s'"
proof -
  from sends_run [OF assms(1), of "resource (sh_writer s)"] assms(2,3)
  obtain w where "m (resource (sh_writer s)) = (Inr (), w)" "w_out w = w_out (out_stream s) @ bs"
      "w_flushed w = length (w_out w)"
    by (auto simp: out_stream_def)
  then show ?thesis
    by (auto simp: guarded_write_def with_writer_def wrote_def out_stream_def)
qed

lemma drain_none:
  "current_serving (sh_writer s) \<notin> set (auto_failures s) \<Longrightarrow>
   drain_auto_failures V s = (Some (Inr ()), s)"
  by (simp add: drain_auto_failures.simps)

lemma acquire_writer_turn:
  "current_serving (sh_writer s) \<notin> set (auto_failures s) \<Longrightarrow> \<not> poisoned s \<Longrightarrow>
   current_serving (sh_writer s) = t \<Longrightarrow> acquire_writer V t s = (Some (Inr ()), s)"
  by (simp add: acquire_writer_def io_simps drain_none acquire_def)

lemma allocate_pair:
  "allocate_request_ticket_pair s =
     ((next_ticket (sh_writer s), next_ticket (sh_reader s)),
      s\<lparr>sh_writer := (sh_writer s)\<lparr>next_ticket := next_ticket (sh_writer s) + 1\<rparr>,
        sh_reader := (sh_reader s)\<lparr>next_ticket := next_ticket (sh_reader s) + 1\<rparr>\<rparr>)"
  by (simp add: allocate_request_ticket_pair_def take_writer_ticket_def take_reader_ticket_def
      take_ticket_def)

lemma guarded_turn:
  assumes "current_serving (sh_writer s) \<notin> set (auto_failures s)" "\<not> poisoned s"
    and "current_serving (sh_writer s) = t"
    and "sends m bs" "fits (out_stream s) bs" "w_flush_ok (out_stream s)"
  shows "\<exists>s'. bindA (ctxA g (acquire_writer V t)) (\<lambda>_. guarded_write m) s = (Some (Inr ()), s')
     \<and> wrote bs s s'"
  using guarded_write_run [OF assms(4-6)] acquire_writer_turn [OF assms(1-3), of V]
  by (auto simp: io_simps)


subsection \<open>The exchange of a request and its response\<close>

lemma send_request_img:
  fixes penc :: "(writer, 'pe, unit) io" and sdec :: "(reader, 'se, 's) io"
  assumes "quiet c" "valid_ssh_string rt" "emits penc p"
    and "fits (out_stream c) (img_global V rt True p)" "w_flush_ok (out_stream c)"
    and "request_read V sdec (in_stream c) = (v, r')"
  shows "\<exists>c'. send_global_request V rt penc sdec c = (Some v, c')
    \<and> w_out (out_stream c') = w_out (out_stream c) @ img_global V rt True p
    \<and> in_stream c' = r' \<and> quiet c'"
proof -
  define c0 where "c0 = snd (allocate_request_ticket_pair c)"
  have c0: "out_stream c0 = out_stream c" "in_stream c0 = in_stream c" "\<not> poisoned c0"
      "auto_failures c0 = []" "current_serving (sh_writer c0) = next_ticket (sh_writer c)"
      "current_serving (sh_reader c0) = next_ticket (sh_reader c)"
      "next_ticket (sh_reader c0) = next_ticket (sh_reader c) + 1"
      "next_ticket (sh_writer c0) = next_ticket (sh_writer c) + 1"
    using assms(1) by (simp_all add: c0_def allocate_pair out_stream_def in_stream_def quiet_def)
  have a: "allocate_request_ticket_pair c = ((next_ticket (sh_writer c), next_ticket (sh_reader c)), c0)"
    by (simp add: c0_def allocate_pair)
  obtain c1 where c1: "request_send_phase V (next_ticket (sh_writer c)) rt penc c0
        = (Some (Inr () :: ('pe, 'se) send_request_error + unit), c1)"
      "wrote (img_global V rt True p) c0 c1"
    using guarded_turn [OF _ c0(3) c0(5) sends_request_write [OF assms(2,3)], where V = V] assms(4,5) c0
    unfolding request_send_phase_def by fastforce
  have c1': "in_stream c1 = in_stream c" "current_serving (sh_reader c1) = next_ticket (sh_reader c)"
      "\<not> poisoned c1" "sh_reader c1 = sh_reader c0"
    using c1(2) c0 by (simp_all add: wrote_def in_stream_def)
  have rd: "request_read V sdec (resource (sh_reader c0)) = (v, r')"
    using assms(6) c0(2) by (simp add: in_stream_def)
  have "request_response_phase V (next_ticket (sh_reader c)) sdec c1
     = (Some v, release_reader (c1\<lparr>sh_reader := (sh_reader c1)\<lparr>resource := r'\<rparr>\<rparr>))"
    using c1' by (simp add: request_response_phase_def io_simps acquire_reader_def acquire_def
        with_reader_def rd)
  then show ?thesis
    using c1 c1' c0 a
    by (auto simp: send_global_request_def io_simps wrote_def quiet_def in_stream_def out_stream_def)
qed

lemma accept_header_img:
  assumes "varint_codec V" "valid_ssh_string rt"
  shows "accept_header V (rd (img_global V rt want p @ rest) e) = (Inr (rt, want), rd (p @ rest) e)"
  using assms(2)
  by (simp add: accept_header_def img_global_def io_simps varint_codec.wire [OF assms(1)] wire_simps)

lemma accept_request_img:
  assumes "varint_codec V" "valid_ssh_string rt" "quiet s"
    and "in_stream s = rd (img_global V rt True p @ rest) e"
    and "pdec (rd (p @ rest) e) = (Inr x, rd rest e)"
  shows "\<exists>s1 s2. accept_global_request V s = (Some (Inr (IG_Request rt (next_ticket (sh_writer s)))), s1)
    \<and> incoming_decode_payload pdec s1 = (Inr x, s2)
    \<and> in_stream s2 = rd rest e \<and> out_stream s2 = out_stream s \<and> \<not> poisoned s2
    \<and> auto_failures s2 = [] \<and> current_serving (sh_writer s2) = next_ticket (sh_writer s)
    \<and> next_ticket (sh_writer s2) = next_ticket (sh_writer s) + 1
    \<and> next_ticket (sh_reader s2) = current_serving (sh_reader s2)"
  using assms(3-5)
  by (auto simp: accept_global_request_def take_reader_ticket_def take_writer_ticket_def take_ticket_def
      io_simps acquire_reader_def acquire_def with_reader_def quiet_def in_stream_def out_stream_def
      accept_header_img [OF assms(1,2)] incoming_decode_payload_def)

lemma request_read_img:
  assumes "varint_codec V"
  shows "sdec (rd (q @ rest) e) = (v, r') \<Longrightarrow>
      request_read V sdec (rd (img_success V q @ rest) e)
        = (case v of Inl x \<Rightarrow> Inl (SR_DecodeSuccess x) | Inr y \<Rightarrow> Inr y, r')"
    and "request_read V sdec (rd (img_failure V @ rest) e) = (Inl SR_Rejected, rd rest e)"
  by (simp_all add: request_read_def img_success_def img_failure_def io_simps
      varint_codec.wire [OF assms] ctx_def split: sum.split) (simp add: msg_nums)

subsection \<open>Automatic failures\<close>

lemma with_writer_sels:
  assumes "with_writer m s = (v, s')"
  shows "sh_reader s' = sh_reader s" "poisoned s' = poisoned s" "auto_failures s' = auto_failures s"
    "next_ticket (sh_writer s') = next_ticket (sh_writer s)"
    "current_serving (sh_writer s') = current_serving (sh_writer s)"
    "m (out_stream s) = (v, out_stream s')"
  using assms by (auto simp: with_writer_def out_stream_def split: prod.splits)

lemma drain_Inr:
  "drain_auto_failures V s = (Some (Inr ()), s') \<Longrightarrow>
   \<exists>k. w_out (out_stream s') = w_out (out_stream s) @ concat (replicate k (img_failure V))
     \<and> current_serving (sh_writer s') = current_serving (sh_writer s) + of_nat k
     \<and> set (auto_failures s') = set (auto_failures s) - (\<lambda>i. current_serving (sh_writer s) + of_nat i) ` {..<k}
     \<and> current_serving (sh_writer s') \<notin> set (auto_failures s')
     \<and> sh_reader s' = sh_reader s \<and> poisoned s' = poisoned s
     \<and> next_ticket (sh_writer s') = next_ticket (sh_writer s)"
proof (induction V s rule: drain_auto_failures.induct)
  case (1 V s)
  let ?c = "current_serving (sh_writer s)"
  show ?case
  proof (cases "?c \<in> set (auto_failures s)")
    case False
    with "1.prems" have "s' = s" by (simp add: drain_none)
    with False show ?thesis by (intro exI [of _ 0]) simp
  next
    case True
    define s1 where "s1 = s\<lparr>auto_failures := removeAll ?c (auto_failures s)\<rparr>"
    have np: "\<not> poisoned s1" and acq: "acquire (sh_writer s1) ?c (poisoned s1) = Some (Inr ())"
      using "1.prems" True
      by (auto simp: drain_auto_failures.simps [of V s] acquire_def s1_def Let_def split: if_splits)
    obtain s2 where s2: "with_writer (auto_failure_write V) s1 = (Inr (), s2)"
      using "1.prems" True acq
      by (auto simp: drain_auto_failures.simps [of V s] s1_def [symmetric] Let_def
          split: prod.splits sum.splits)
    have rec: "drain_auto_failures V (release_writer s2) = (Some (Inr ()), s')"
      using "1.prems" True acq s2
      by (simp add: drain_auto_failures.simps [of V s] s1_def [symmetric] Let_def)
    note w = with_writer_sels [OF s2]
    from "1.IH" [OF refl True s1_def acq refl s2 [symmetric] refl] rec obtain k where
      k: "w_out (out_stream s') = w_out (out_stream (release_writer s2)) @ concat (replicate k (img_failure V))"
        "current_serving (sh_writer s') = current_serving (sh_writer (release_writer s2)) + of_nat k"
        "set (auto_failures s') = set (auto_failures (release_writer s2))
           - (\<lambda>i. current_serving (sh_writer (release_writer s2)) + of_nat i) ` {..<k}"
        "current_serving (sh_writer s') \<notin> set (auto_failures s')"
        "sh_reader s' = sh_reader (release_writer s2)" "poisoned s' = poisoned (release_writer s2)"
        "next_ticket (sh_writer s') = next_ticket (sh_writer (release_writer s2))"
      by auto
    have out: "w_out (out_stream (release_writer s2)) = w_out (out_stream s) @ img_failure V"
      using sends_ok_state(1) [OF sends_auto_failure w(6)] by (simp add: out_stream_def s1_def)
    have shift: "(\<lambda>i. ?c + of_nat i) ` {..<Suc k} = insert ?c ((\<lambda>i. ?c + 1 + of_nat i) ` {..<k})"
      by (simp only: lessThan_Suc_eq_insert_0 image_insert image_image) (simp add: ac_simps)
    have autos: "set (auto_failures s') = set (auto_failures s) - (\<lambda>i. ?c + of_nat i) ` {..<Suc k}"
      unfolding shift k(3) using w by (auto simp: s1_def)
    show ?thesis
    proof (intro exI [of _ "Suc k"] conjI)
      show "w_out (out_stream s') = w_out (out_stream s) @ concat (replicate (Suc k) (img_failure V))"
        using k(1) out by simp
      show "current_serving (sh_writer s') = ?c + of_nat (Suc k)"
        using k(2) w by (simp add: s1_def)
    qed (use k w autos in \<open>simp_all add: s1_def\<close>)
  qed
qed


subsection \<open>Poisoning\<close>

lemma drain_poisoned:
  assumes "poisoned s"
  shows "\<exists>a v. drain_auto_failures V s = (Some v, s\<lparr>auto_failures := a\<rparr>)"
proof (cases "current_serving (sh_writer s) \<in> set (auto_failures s)")
  case True
  with assms show ?thesis
    by (auto simp: drain_auto_failures.simps [of V s] Let_def acquire_def)
next
  case False
  then show ?thesis by (intro exI [of _ "auto_failures s"]) (simp add: drain_none)
qed

lemma acquire_writer_poisoned:
  assumes "poisoned s"
  shows "\<exists>a. acquire_writer V t s = (Some (Inl SessionPoisonedError), s\<lparr>auto_failures := a\<rparr>)"
proof -
  from drain_poisoned [OF assms, of V] obtain a v where
    d: "drain_auto_failures V s = (Some v, s\<lparr>auto_failures := a\<rparr>)" by blast
  show ?thesis
  proof (cases v)
    case (Inl e)
    with d show ?thesis by (cases e) (auto simp: acquire_writer_def io_simps)
  next
    case (Inr x)
    with d assms show ?thesis by (auto simp: acquire_writer_def io_simps acquire_def)
  qed
qed

lemma drain_Inl_poisoned:
  "drain_auto_failures V s = (Some (Inl e), s') \<Longrightarrow> poisoned s'"
proof (induction V s rule: drain_auto_failures.induct)
  case (1 V s)
  show ?case
  proof (cases "current_serving (sh_writer s) \<in> set (auto_failures s) \<and> \<not> poisoned s")
    case False
    with "1.prems" show ?thesis
      by (auto simp: drain_auto_failures.simps [of V s] Let_def acquire_def split: if_splits)
  next
    case True
    define s1 where "s1 = s\<lparr>auto_failures := removeAll (current_serving (sh_writer s)) (auto_failures s)\<rparr>"
    have acq: "acquire (sh_writer s1) (current_serving (sh_writer s)) (poisoned s1) = Some (Inr ())"
      using True by (simp add: acquire_def s1_def)
    obtain v s2 where s2: "with_writer (auto_failure_write V) s1 = (v, s2)" by fastforce
    note unf = drain_auto_failures.simps [of V s] s1_def [symmetric] Let_def
    show ?thesis
    proof (cases v)
      case (Inl x)
      with "1.prems" True acq s2 show ?thesis by (auto simp: unf)
    next
      case (Inr x)
      with "1.prems" True acq s2 have "drain_auto_failures V (release_writer s2) = (Some (Inl e), s')"
        by (simp add: unf)
      with "1.IH" [OF refl _ s1_def acq refl s2 [symmetric] Inr] True show ?thesis by blast
    qed
  qed
qed

lemma acquire_writer_Inl_poisoned:
  "acquire_writer V t s = (Some (Inl e), s') \<Longrightarrow> poisoned s'"
  by (auto simp: acquire_writer_def bindA_def acquire_def drain_Inl_poisoned
      split: prod.splits option.splits sum.splits if_splits)

lemma guarded_write_Inl_poisoned: "guarded_write m s = (Some (Inl e), s') \<Longrightarrow> poisoned s'"
  by (auto simp: guarded_write_def split: prod.splits sum.splits)

lemma guarded_Inl_poisoned:
  "bindA (ctxA g (acquire_writer V t)) (\<lambda>_. guarded_write m) s = (Some (Inl e), s') \<Longrightarrow> poisoned s'"
  by (auto simp: bindA_def ctxA_def split: prod.splits option.splits sum.splits
      dest: acquire_writer_Inl_poisoned guarded_write_Inl_poisoned)

lemma accept_Inl_poisoned: "accept_global_request V s = (Some (Inl e), s') \<Longrightarrow> poisoned s'"
  by (auto simp: accept_global_request_def bindA_def ctxA_def take_reader_ticket_def take_ticket_def
      acquire_reader_def acquire_def take_writer_ticket_def
      split: prod.splits option.splits sum.splits if_splits)

subsection \<open>Properties\<close>

text \<open>
  C19: a global request and its response. When a request of one peer reaches the other on a
  quiet session, the receiving peer is handed a request of that type whose payload decodes to
  what was sent, its success response goes out on the writer ticket it was given, and the
  requester returns the decoded response; both sessions are quiet again and nothing else was
  read or written.
\<close>

theorem global_request_exchange:
  fixes penc :: "(writer, 'pe, unit) io" and sdec :: "(reader, 'se, 's) io"
  assumes "varint_codec V" and "valid_ssh_string rt" and "quiet c" and "quiet s"
    and "emits penc p" and "\<And>rest e. pdec (rd (p @ rest) e) = (Inr x, rd rest e)"
    and "emits renc q" and "\<And>rest e. sdec (rd (q @ rest) e) = (Inr y, rd rest e)"
    and "fits (out_stream c) (img_global V rt True p)" and "w_flush_ok (out_stream c)"
    and "fits (out_stream s) (img_success V q)" and "w_flush_ok (out_stream s)"
    and "in_stream s = rd (img_global V rt True p @ rest) e"
    and "in_stream c = rd (img_success V q @ rest') e'"
  shows "\<exists>c' t s1 s2 s3.
      send_global_request V rt penc sdec c = (Some (Inr y), c')
      \<and> w_out (out_stream c') = w_out (out_stream c) @ img_global V rt True p
      \<and> in_stream c' = rd rest' e' \<and> quiet c'
      \<and> accept_global_request V s = (Some (Inr (IG_Request rt t)), s1)
      \<and> incoming_decode_payload pdec s1 = (Inr x, s2)
      \<and> global_respond_success V t renc s2 = (Some (Inr ()), s3)
      \<and> w_out (out_stream s3) = w_out (out_stream s) @ img_success V q
      \<and> in_stream s3 = rd rest e \<and> quiet s3"
proof -
  have rd: "request_read V sdec (in_stream c) = (Inr y :: ('pe, 'se) send_request_error + 's, rd rest' e')"
    using request_read_img(1) [OF assms(1), where sdec = sdec and q = q and rest = rest' and e = e']
      assms(8,14) by simp
  from send_request_img [OF assms(3,2,5,9,10) rd] obtain c' where
    c': "send_global_request V rt penc sdec c = (Some (Inr y), c')"
      "w_out (out_stream c') = w_out (out_stream c) @ img_global V rt True p"
      "in_stream c' = rd rest' e'" "quiet c'" by blast
  from accept_request_img [where pdec = pdec, OF assms(1,2,4,13) assms(6)] obtain s1 s2 where
    s1: "accept_global_request V s = (Some (Inr (IG_Request rt (next_ticket (sh_writer s)))), s1)"
      "incoming_decode_payload pdec s1 = (Inr x, s2)" and
    s2: "in_stream s2 = rd rest e" "out_stream s2 = out_stream s" "\<not> poisoned s2"
      "auto_failures s2 = []" "current_serving (sh_writer s2) = next_ticket (sh_writer s)"
      "next_ticket (sh_writer s2) = next_ticket (sh_writer s) + 1"
      "next_ticket (sh_reader s2) = current_serving (sh_reader s2)" by blast
  obtain s3 where
    s3: "global_respond_success V (next_ticket (sh_writer s)) renc s2 = (Some (Inr ()), s3)"
      "wrote (img_success V q) s2 s3"
    using guarded_turn [OF _ s2(3,5) sends_success_write [OF assms(7)], where V = V] assms(11,12) s2
    unfolding global_respond_success_def by fastforce
  have "w_out (out_stream s3) = w_out (out_stream s) @ img_success V q" "in_stream s3 = rd rest e"
      "quiet s3"
    using s3(2) s2 by (simp_all add: wrote_def quiet_def in_stream_def)
  with c' s1 s3 show ?thesis by blast
qed

theorem global_request_exchange_witness:
  "\<exists>c'. send_global_request quic_varint (lit ''x'') (write_all [1, 2]) (read_exact 1)
      (conversation_shared_new (rd (img_success quic_varint [7]) None) fresh_writer)
      = (Some (Inr [7] :: (io_error, io_error) send_request_error + bytes), c') \<and> quiet c'"
proof -
  have v: "valid_ssh_string (lit ''x'')"
    by (simp add: valid_ssh_string_def MAX_REMOTE_FIELD_SIZE_def lit_def byte_of_def)
  let ?c = "conversation_shared_new (rd (img_success quic_varint [7]) None) fresh_writer"
  let ?s = "conversation_shared_new (rd (img_global quic_varint (lit ''x'') True [1, 2]) None) fresh_writer"
  have q: "quiet ?c" "quiet ?s" "in_stream ?c = rd (img_success quic_varint [7] @ []) None"
      "in_stream ?s = rd (img_global quic_varint (lit ''x'') True [1, 2] @ []) None"
      "out_stream ?c = fresh_writer" "out_stream ?s = fresh_writer"
    by (simp_all add: quiet_def conversation_shared_new_def ordered_access_new_def in_stream_def
        out_stream_def)
  have d: "read_exact 2 (rd ([1, 2] @ rest) e) = (Inr [1, 2], rd rest e)"
      "read_exact 1 (rd ([7] @ rest) e) = (Inr [7], rd rest e)" for rest e
    by (simp_all add: read_exact_def)
  from global_request_exchange [OF quic.varint_codec_axioms v q(1,2) emits_write_all d(1)
      emits_write_all d(2) _ _ _ _ q(4,3)] q(5,6)
  show ?thesis by fastforce
qed

text \<open>
  C20: nothing is started on a poisoned session. Once poisoned, every request, notification, accept
  and response fails with \<open>SessionPoisoned\<close> at once, stays poisoned and neither reads nor writes a
  byte of the control stream. (The payload of a request accepted before is decoded without a look
  at the flag.)
\<close>

theorem poisoned_session_dead:
  fixes penc :: "(writer, 'pe, unit) io" and sdec :: "(reader, 'se, 's) io"
  assumes "poisoned s"
  shows "(\<exists>s'. send_global_request V rt penc sdec s = (Some (Inl SR_SessionPoisoned), s')
        \<and> poisoned s' \<and> in_stream s' = in_stream s \<and> out_stream s' = out_stream s)
    \<and> (\<exists>s'. send_global_notification V rt penc s = (Some (Inl SN_SessionPoisoned), s')
        \<and> poisoned s' \<and> in_stream s' = in_stream s \<and> out_stream s' = out_stream s)
    \<and> (\<exists>s'. accept_global_request V s = (Some (Inl AE_SessionPoisoned), s')
        \<and> poisoned s' \<and> in_stream s' = in_stream s \<and> out_stream s' = out_stream s)
    \<and> (\<exists>s'. global_respond_success V t penc s = (Some (Inl RS_SessionPoisoned), s')
        \<and> poisoned s' \<and> in_stream s' = in_stream s \<and> out_stream s' = out_stream s)
    \<and> (\<exists>s'. global_respond_failure V t s = (Some (Inl RF_SessionPoisoned), s')
        \<and> poisoned s' \<and> in_stream s' = in_stream s \<and> out_stream s' = out_stream s)"
proof -
  define s1 where "s1 = snd (allocate_request_ticket_pair s)"
  define s2 where "s2 = snd (take_writer_ticket s)"
  have p: "poisoned s1" "poisoned s2" using assms
    by (simp_all add: s1_def s2_def allocate_pair take_writer_ticket_def take_ticket_def)
  obtain a b d where
    "acquire_writer V (next_ticket (sh_writer s)) s1 = (Some (Inl SessionPoisonedError), s1\<lparr>auto_failures := a\<rparr>)"
    "acquire_writer V (next_ticket (sh_writer s)) s2 = (Some (Inl SessionPoisonedError), s2\<lparr>auto_failures := b\<rparr>)"
    "acquire_writer V t s = (Some (Inl SessionPoisonedError), s\<lparr>auto_failures := d\<rparr>)"
    using acquire_writer_poisoned p assms by metis
  with assms show ?thesis
    by (intro conjI)
      (simp_all add: send_global_request_def request_send_phase_def send_global_notification_def
        accept_global_request_def global_respond_success_def global_respond_failure_def
        allocate_pair take_writer_ticket_def take_reader_ticket_def take_ticket_def io_simps
        s1_def s2_def acquire_reader_def acquire_def in_stream_def out_stream_def)
qed

theorem poisoned_session_dead_witness:
  "\<exists>s'. accept_global_request quic_varint
      (poison (conversation_shared_new (rd [1] None) fresh_writer)) = (Some (Inl AE_SessionPoisoned), s')"
proof -
  have "poisoned (poison (conversation_shared_new (rd [1] None) fresh_writer))" by simp
  from poisoned_session_dead [OF this, of quic_varint] show ?thesis by blast
qed

text \<open>An error in the response that was read, after the request went out.\<close>

primrec response_error :: "('pe, 'se) send_request_error \<Rightarrow> bool" where
  "response_error (SR_EncodeMessageType _) = False"
| "response_error (SR_EncodeRequestType _) = False"
| "response_error (SR_EncodeWantReply _) = False"
| "response_error (SR_EncodePayload _) = False"
| "response_error (SR_Flush _) = False"
| "response_error (SR_DecodeResponseType _) = True"
| "response_error (SR_DecodeSuccess _) = True"
| "response_error SR_Rejected = True"
| "response_error (SR_UnexpectedResponseType _) = True"
| "response_error SR_SessionPoisoned = False"

lemma request_read_Inl: "request_read V sdec r = (Inl e, r') \<Longrightarrow> response_error e"
  by (auto simp: request_read_def bindS_def ctx_def failS_def split: prod.splits sum.splits if_splits)

lemma response_Inl_poisoned:
  "request_response_phase V t sdec s = (Some (Inl e), s') \<Longrightarrow> \<not> response_error e \<Longrightarrow> poisoned s'"
  by (auto simp: request_response_phase_def bindA_def ctxA_def acquire_reader_def acquire_def with_reader_def
      dest: request_read_Inl split: prod.splits option.splits sum.splits if_splits)

lemma send_request_Inl_poisoned:
  assumes "send_global_request V rt penc sdec s = (Some (Inl e), s')" "\<not> response_error e"
  shows "poisoned s'"
  using assms
  by (auto simp: send_global_request_def request_send_phase_def [abs_def] bindA_def [of _ "\<lambda>_. request_response_phase _ _ _"]
      dest: guarded_Inl_poisoned response_Inl_poisoned split: prod.splits option.splits sum.splits)

text \<open>
  C21: errors poison. Whenever sending a notification, accepting a request, decoding its payload or
  responding to it ends with an error, or sending a request does before its response is read, the
  session is poisoned afterwards, so no later handler continues on a control stream left inside a
  message. The errors of a request that do not poison are those of its response: undecodable,
  rejected or of the wrong type.
\<close>

theorem errors_poison:
  "(send_global_request V rt penc sdec s = (Some (Inl err_a), s') \<and> \<not> response_error err_a \<longrightarrow> poisoned s')
   \<and> (send_global_notification V rt penc s = (Some (Inl err_b), s') \<longrightarrow> poisoned s')
   \<and> (accept_global_request V s = (Some (Inl err_d), s') \<longrightarrow> poisoned s')
   \<and> (incoming_decode_payload pdec s = (Inl err_f, s') \<longrightarrow> poisoned s')
   \<and> (global_respond_success V t penc s = (Some (Inl err_g), s') \<longrightarrow> poisoned s')
   \<and> (global_respond_failure V t s = (Some (Inl err_h), s') \<longrightarrow> poisoned s')"
  unfolding send_global_notification_def global_respond_success_def global_respond_failure_def
  by (auto simp: incoming_decode_payload_def incoming_drop_def
      dest: guarded_Inl_poisoned accept_Inl_poisoned send_request_Inl_poisoned split: prod.splits sum.splits)

theorem errors_poison_witness:
  "\<exists>s'. accept_global_request quic_varint (conversation_shared_new (rd [] None) fresh_writer)
      = (Some (Inl (AE_DecodeMessageType UnexpectedEof)), s') \<and> poisoned s'"
proof -
  let ?s = "conversation_shared_new (rd [] None) fresh_writer"
  obtain s' where s': "accept_global_request quic_varint ?s
      = (Some (Inl (AE_DecodeMessageType UnexpectedEof)), s')"
    by (simp add: accept_global_request_def conversation_shared_new_def ordered_access_new_def
        take_reader_ticket_def take_ticket_def io_simps acquire_reader_def acquire_def with_reader_def
        accept_header_def decode_varint_def quic_varint_def quic_dec_def eof_error_def)
  from errors_poison [THEN conjunct2, THEN conjunct2, THEN conjunct1, rule_format, OF s'] s'
  show ?thesis by blast
qed


text \<open>
  Queued automatic failures. Draining the queue sends one failure response for each of a
  run of consecutive tickets starting with the one being served, and nothing else; those
  tickets leave the queue, the served ticket advances past them, and it stops at the first
  ticket that is not queued.
\<close>

theorem drain_sends_failures:
  assumes "drain_auto_failures V s = (Some (Inr ()), s')"
  shows "\<exists>k. w_out (out_stream s') = w_out (out_stream s) @ concat (replicate k (img_failure V))
     \<and> current_serving (sh_writer s') = current_serving (sh_writer s) + of_nat k
     \<and> set (auto_failures s') = set (auto_failures s) - (\<lambda>i. current_serving (sh_writer s) + of_nat i) ` {..<k}
     \<and> current_serving (sh_writer s') \<notin> set (auto_failures s')
     \<and> in_stream s' = in_stream s \<and> poisoned s' = poisoned s"
  using drain_Inr [OF assms] by (auto simp: in_stream_def)

lemma auto_failure_run:
  assumes "fits (out_stream s) (img_failure V)" "w_flush_ok (out_stream s)"
  shows "\<exists>w. with_writer (auto_failure_write V) s = (Inr (), s\<lparr>sh_writer := (sh_writer s)\<lparr>resource := w\<rparr>\<rparr>)
    \<and> w_out w = w_out (out_stream s) @ img_failure V"
  using sends_run [OF sends_auto_failure, of "out_stream s" V] assms
  by (auto simp: with_writer_def out_stream_def)

lemma drain_one:
  assumes "auto_failures s = [t]" "current_serving (sh_writer s) = t" "\<not> poisoned s"
    and "fits (out_stream s) (img_failure V)" "w_flush_ok (out_stream s)"
  shows "\<exists>s'. drain_auto_failures V s = (Some (Inr ()), s')
    \<and> w_out (out_stream s') = w_out (out_stream s) @ img_failure V
    \<and> current_serving (sh_writer s') = t + 1 \<and> \<not> poisoned s' \<and> auto_failures s' = []"
proof -
  define s1 where "s1 = s\<lparr>auto_failures := []\<rparr>"
  have e: "s\<lparr>auto_failures := []\<rparr> = s1" "poisoned s1 = poisoned s" "sh_writer s1 = sh_writer s"
    by (simp_all add: s1_def)
  have f: "fits (out_stream s1) (img_failure V)" "w_flush_ok (out_stream s1)"
    using assms(4,5) by (simp_all add: s1_def out_stream_def)
  from auto_failure_run [OF f] obtain w where
    w: "with_writer (auto_failure_write V) s1 = (Inr (), s1\<lparr>sh_writer := (sh_writer s1)\<lparr>resource := w\<rparr>\<rparr>)"
      "w_out w = w_out (out_stream s1) @ img_failure V" by blast
  let ?s2 = "release_writer (s1\<lparr>sh_writer := (sh_writer s1)\<lparr>resource := w\<rparr>\<rparr>)"
  have "drain_auto_failures V s = drain_auto_failures V ?s2"
    using assms w(1) e by (simp add: drain_auto_failures.simps [of V s] acquire_def Let_def)
  also have "\<dots> = (Some (Inr ()), ?s2)" by (rule drain_none) (simp add: s1_def)
  finally show ?thesis
    using w(2) assms by (simp add: out_stream_def s1_def)
qed

theorem drain_sends_failures_witness:
  "\<exists>s'. drain_auto_failures quic_varint
      (decoded_drop 0 (conversation_shared_new (rd [] None) fresh_writer)) = (Some (Inr ()), s')
    \<and> current_serving (sh_writer s') \<notin> set (auto_failures s')"
proof -
  let ?s = "decoded_drop 0 (conversation_shared_new (rd [] None) fresh_writer)"
  obtain s' where "drain_auto_failures quic_varint ?s = (Some (Inr ()), s')"
    using drain_one [of ?s 0 quic_varint]
    by (auto simp: decoded_drop_def conversation_shared_new_def ordered_access_new_def out_stream_def)
  with drain_sends_failures [OF this] show ?thesis by blast
qed

text \<open>
  A dropped request is rejected. If a decoded request is dropped without a response while
  its ticket is served, the next handler's turn on the writer comes only after a failure
  response has been sent in its place, and the requester that reads that response returns
  \<open>Rejected\<close>.
\<close>

theorem dropped_request_rejected:
  fixes sdec :: "(reader, 'se, 's) io"
  assumes "varint_codec V" and "\<not> poisoned s" and "auto_failures s = []"
    and "current_serving (sh_writer s) = t"
    and "fits (out_stream s) (img_failure V)" and "w_flush_ok (out_stream s)"
  shows "(\<exists>s'. acquire_writer V (t + 1) (decoded_drop t s) = (Some (Inr ()), s')
      \<and> w_out (out_stream s') = w_out (out_stream s) @ img_failure V
      \<and> current_serving (sh_writer s') = t + 1 \<and> auto_failures s' = [])
    \<and> request_read V sdec (rd (img_failure V @ rest) e)
        = (Inl SR_Rejected :: ('pe, 'se) send_request_error + 's, rd rest e)"
proof
  have d: "auto_failures (decoded_drop t s) = [t]" "current_serving (sh_writer (decoded_drop t s)) = t"
      "\<not> poisoned (decoded_drop t s)" "out_stream (decoded_drop t s) = out_stream s"
    using assms(2-4) by (simp_all add: decoded_drop_def out_stream_def)
  from drain_one [OF d(1-3), of V] assms(5,6) d(4) obtain s' where
    s': "drain_auto_failures V (decoded_drop t s) = (Some (Inr ()), s')"
      "w_out (out_stream s') = w_out (out_stream s) @ img_failure V"
      "current_serving (sh_writer s') = t + 1" "\<not> poisoned s'" "auto_failures s' = []" by auto
  then have "acquire_writer V (t + 1) (decoded_drop t s) = (Some (Inr ()), s')"
    by (simp add: acquire_writer_def io_simps acquire_def)
  with s' show "\<exists>s'. acquire_writer V (t + 1) (decoded_drop t s) = (Some (Inr ()), s')
      \<and> w_out (out_stream s') = w_out (out_stream s) @ img_failure V
      \<and> current_serving (sh_writer s') = t + 1 \<and> auto_failures s' = []" by blast
qed (rule request_read_img(2) [OF assms(1)])

theorem dropped_request_rejected_witness:
  "\<exists>s'. acquire_writer quic_varint 1 (decoded_drop 0 (conversation_shared_new (rd [] None) fresh_writer))
      = (Some (Inr ()), s') \<and> w_out (out_stream s') = img_failure quic_varint"
proof -
  let ?s = "conversation_shared_new (rd [] None) fresh_writer"
  have "\<not> poisoned ?s" "auto_failures ?s = []" "current_serving (sh_writer ?s) = 0"
      "fits (out_stream ?s) (img_failure quic_varint)" "w_flush_ok (out_stream ?s)" "out_stream ?s = fresh_writer"
    by (simp_all add: conversation_shared_new_def ordered_access_new_def out_stream_def)
  from dropped_request_rejected [OF quic.varint_codec_axioms this(1-5), THEN conjunct1] this(6)
  show ?thesis by auto
qed

text \<open>
  A response of the wrong type ends the request with an error but leaves the session usable,
  although the body of that response is still on the control stream.
\<close>

theorem response_error_not_poisoned:
  "\<exists>s'. request_response_phase quic_varint 0 (okS ())
      (conversation_shared_new (rd (img_global quic_varint (lit ''x'') True [1]) None) fresh_writer)
      = (Some (Inl (SR_UnexpectedResponseType SSH_MSG_GLOBAL_REQUEST)
           :: (unit, unit) send_request_error + unit), s')
    \<and> \<not> poisoned s' \<and> r_in (in_stream s') \<noteq> []"
proof -
  have "request_read quic_varint (okS ()) (rd (img_global quic_varint (lit ''x'') True [1]) None)
    = (Inl (SR_UnexpectedResponseType SSH_MSG_GLOBAL_REQUEST) :: (unit, unit) send_request_error + unit,
       rd (img_ssh_string quic_varint (lit ''x'') @ img_ssh_bool True @ [1]) None)"
    by (simp add: request_read_def img_global_def io_simps quic.dec_varint_append) (simp add: msg_nums)
  then show ?thesis
    by (simp add: request_response_phase_def io_simps acquire_reader_def acquire_def with_reader_def
        conversation_shared_new_def ordered_access_new_def in_stream_def)
qed

subsection \<open>Channels\<close>

definition img_open :: "varint_api \<Rightarrow> nat \<Rightarrow> ssh_string \<Rightarrow> bytes \<Rightarrow> bytes" where
  "img_open V n ctype p = vi_enc V n @ img_ssh_string V ctype @ p"

lemma sends_open_header:
  "valid_ssh_string ctype \<Longrightarrow> emits penc p \<Longrightarrow> sends (open_header V n ctype penc) (img_open V n ctype p)"
  unfolding open_header_def img_open_def
  by (intro sends_intros emits_intros) (simp_all add: valid_str_length)

lemma sends_stream_kind: "sends (write_stream_kind V k) (vi_enc V k)"
  unfolding write_stream_kind_def by (intro sends_intros emits_intros)

lemma accept_stream_kind_img:
  assumes "varint_codec V" "k < VARINT_LIMIT"
  shows "accept_stream_kind V (Inr (rd (vi_enc V k @ rest) e, w)) expected =
    (if k = expected then Inr \<lparr>ch_reader = rd rest e, ch_writer = w\<rparr> else Inl (WT_UnexpectedStreamKind k))"
  using assms by (simp add: accept_stream_kind_def io_simps varint_codec.dec_varint_append)

lemma sends_state:
  assumes "sends m bs" "fits w bs" "w_flush_ok w"
  shows "m w = (Inr (), (push w bs)\<lparr>w_flushed := length (w_out w) + length bs\<rparr>)"
proof -
  have "is_ok (fst (m w))" "snd (m w) = (push w bs)\<lparr>w_flushed := length (w_out w) + length bs\<rparr>"
    using assms unfolding sends_def by simp_all
  then show ?thesis by (cases "m w") (auto simp: is_ok_iff)
qed

lemma fits_flushed [simp]: "fits (w\<lparr>w_flushed := k\<rparr>) bs = fits w bs"
  by (simp add: fits_def)

lemma push_flushed: "w_out (push (w\<lparr>w_flushed := k\<rparr>) bs) = w_out (push w bs)"
  by (simp add: push_def)

lemma open_writes:
  fixes penc :: "(writer, 'pe, unit) io"
  assumes "valid_ssh_string ctype" "emits penc p" "w_flush_ok w"
    and "fits w (vi_enc V DSHELL_CHANNEL_STREAM_KIND @ img_open V n ctype p)"
  shows "\<exists>w1 w2. open_stream_kind V (Inr (r, w) :: 'me + reader \<times> writer) DSHELL_CHANNEL_STREAM_KIND
        = Inr \<lparr>ch_reader = r, ch_writer = w1\<rparr>
    \<and> open_header V n ctype penc w1 = (Inr () :: ('me, 'pe) open_channel_error + unit, w2)
    \<and> w_out w2 = w_out w @ vi_enc V DSHELL_CHANNEL_STREAM_KIND @ img_open V n ctype p"
proof -
  let ?k = "vi_enc V DSHELL_CHANNEL_STREAM_KIND" and ?h = "img_open V n ctype p"
  from assms(4) have f: "fits w ?k" "fits (push w ?k) ?h" by (simp_all add: fits_append)
  define w1 where "w1 = (push w ?k)\<lparr>w_flushed := length (w_out w) + length ?k\<rparr>"
  have k: "write_stream_kind V DSHELL_CHANNEL_STREAM_KIND w
      = (Inr () :: 'me web_transport_stream_error + unit, w1)"
    unfolding w1_def by (rule sends_state [OF sends_stream_kind f(1) assms(3)])
  have g: "fits w1 ?h" "w_flush_ok w1" "w_out w1 = w_out w @ ?k"
    using f assms(3) by (simp_all add: w1_def w_out_push_fits)
  from sends_run [OF sends_open_header [OF assms(1,2)] g(1,2)] obtain w2 where
    "open_header V n ctype penc w1 = (Inr () :: ('me, 'pe) open_channel_error + unit, w2)"
    "w_out w2 = w_out w1 @ ?h" by blast
  with k g show ?thesis by (auto simp: open_stream_kind_def)
qed

lemma accept_channel_img:
  assumes "varint_codec V" "valid_ssh_string ctype" "n < VARINT_LIMIT"
  shows "accept_channel V (Inr (rd (vi_enc V DSHELL_CHANNEL_STREAM_KIND @ img_open V n ctype p @ rest) e, w')
          :: 'me + reader \<times> writer)
      = Inr \<lparr>ic_channel_type = ctype, ic_max_message_size = n,
             ic_streams = \<lparr>ch_reader = rd (p @ rest) e, ch_writer = w'\<rparr>\<rparr>"
proof -
  have kl: "DSHELL_CHANNEL_STREAM_KIND < VARINT_LIMIT" by simp
  show ?thesis
    using assms(2,3)
    by (simp add: accept_channel_def accept_stream_kind_img [OF assms(1) kl] img_open_def io_simps on_reader_run
        varint_codec.dec_varint_append [OF assms(1)] varint_codec.dec_ssh_string_append [OF assms(1)])
qed

lemma open_channel_endless:
  fixes penc :: "(writer, 'pe, unit) io"
  assumes "varint_codec V" "valid_ssh_string ctype" "emits penc p" "endless w" "m < VARINT_LIMIT"
  shows "\<exists>w2. w_out w2 = w_out w @ vi_enc V DSHELL_CHANNEL_STREAM_KIND @ img_open V n ctype p \<and> endless w2
    \<and> open_channel V (Inr (rd (img_confirmation V m @ rest') e', w) :: 'me + reader \<times> writer) ctype penc n
      = Inr \<lparr>ch_reader = rd rest' e', ch_writer = w2\<rparr>"
proof -
  obtain w1 where w1: "write_stream_kind V DSHELL_CHANNEL_STREAM_KIND w = (Inr () :: 'me web_transport_stream_error + unit, w1)"
      "endless w1" "w_out w1 = w_out w @ vi_enc V DSHELL_CHANNEL_STREAM_KIND"
    using sends_endless [OF sends_stream_kind assms(4)] by blast
  obtain w2 where w2: "open_header V n ctype penc w1 = (Inr () :: ('me, 'pe) open_channel_error + unit, w2)"
      "endless w2" "w_out w2 = w_out w1 @ img_open V n ctype p"
    using sends_endless [OF sends_open_header [OF assms(2,3)] w1(2)] by blast
  have "open_channel V (Inr (rd (img_confirmation V m @ rest') e', w) :: 'me + reader \<times> writer) ctype penc n
      = Inr \<lparr>ch_reader = rd rest' e', ch_writer = w2\<rparr>"
    using w1(1) w2(1) assms(5)
    by (simp add: open_channel_def open_stream_kind_def io_simps on_writer_run on_reader_run
        varint_codec.open_response_img [OF assms(1)])
  with w1(3) w2(2,3) show ?thesis by auto
qed

text \<open>
  C22: opening a channel. What one peer writes to open a channel is accepted by the other as an
  incoming channel of the same type and maximum message size with the payload next on the
  stream; on the acceptor's confirmation the opener gets the stream pair, on its rejection an
  error carrying the reason and description.
\<close>

theorem channel_open_accept:
  fixes penc :: "(writer, 'pe, unit) io" and w :: writer
  assumes "varint_codec V" and "valid_ssh_string ctype" and "n < VARINT_LIMIT" and "emits penc p"
    and "w_flush_ok w" and "fits w (vi_enc V DSHELL_CHANNEL_STREAM_KIND @ img_open V n ctype p)"
    and "m < VARINT_LIMIT" and "valid_ssh_string d"
  shows "accept_channel V (Inr (rd (vi_enc V DSHELL_CHANNEL_STREAM_KIND @ img_open V n ctype p @ rest) e, w')
          :: 'me + reader \<times> writer)
      = Inr \<lparr>ic_channel_type = ctype, ic_max_message_size = n,
             ic_streams = \<lparr>ch_reader = rd (p @ rest) e, ch_writer = w'\<rparr>\<rparr>
    \<and> (\<exists>w2. w_out w2 = w_out w @ vi_enc V DSHELL_CHANNEL_STREAM_KIND @ img_open V n ctype p
        \<and> open_channel V (Inr (rd (img_confirmation V m @ rest') e', w) :: 'me + reader \<times> writer) ctype penc n
          = Inr \<lparr>ch_reader = rd rest' e', ch_writer = w2\<rparr>)
    \<and> open_channel V (Inr (rd (img_open_failure V m d @ rest') e', w) :: 'me + reader \<times> writer) ctype penc n
        = Inl (OC_AwaitConfirmation (AO_Rejected \<lparr>reason_code = m, description = d\<rparr>))"
proof (intro conjI)
  show "accept_channel V (Inr (rd (vi_enc V DSHELL_CHANNEL_STREAM_KIND @ img_open V n ctype p @ rest) e, w')
          :: 'me + reader \<times> writer)
      = Inr \<lparr>ic_channel_type = ctype, ic_max_message_size = n,
             ic_streams = \<lparr>ch_reader = rd (p @ rest) e, ch_writer = w'\<rparr>\<rparr>"
    by (rule accept_channel_img [OF assms(1-3)])
  note ow = open_writes [where 'me = 'me, OF assms(2,4,5,6)]
  from ow [of "rd (img_confirmation V m @ rest') e'"] obtain w1 w2 where
    1: "open_stream_kind V (Inr (rd (img_confirmation V m @ rest') e', w) :: 'me + reader \<times> writer)
          DSHELL_CHANNEL_STREAM_KIND = Inr \<lparr>ch_reader = rd (img_confirmation V m @ rest') e', ch_writer = w1\<rparr>"
      "open_header V n ctype penc w1 = (Inr () :: ('me, 'pe) open_channel_error + unit, w2)"
      "w_out w2 = w_out w @ vi_enc V DSHELL_CHANNEL_STREAM_KIND @ img_open V n ctype p" by blast
  have "open_channel V (Inr (rd (img_confirmation V m @ rest') e', w) :: 'me + reader \<times> writer) ctype penc n
          = Inr \<lparr>ch_reader = rd rest' e', ch_writer = w2\<rparr>"
    using 1(1,2) assms(7)
    by (simp add: open_channel_def io_simps on_writer_run on_reader_run
        varint_codec.open_response_img [OF assms(1)])
  with 1(3) show "\<exists>w2. w_out w2 = w_out w @ vi_enc V DSHELL_CHANNEL_STREAM_KIND @ img_open V n ctype p
        \<and> open_channel V (Inr (rd (img_confirmation V m @ rest') e', w) :: 'me + reader \<times> writer) ctype penc n
          = Inr \<lparr>ch_reader = rd rest' e', ch_writer = w2\<rparr>" by blast
  from ow [of "rd (img_open_failure V m d @ rest') e'"] obtain w1 w2 where
    2: "open_stream_kind V (Inr (rd (img_open_failure V m d @ rest') e', w) :: 'me + reader \<times> writer)
          DSHELL_CHANNEL_STREAM_KIND = Inr \<lparr>ch_reader = rd (img_open_failure V m d @ rest') e', ch_writer = w1\<rparr>"
      "open_header V n ctype penc w1 = (Inr () :: ('me, 'pe) open_channel_error + unit, w2)" by blast
  then show "open_channel V (Inr (rd (img_open_failure V m d @ rest') e', w) :: 'me + reader \<times> writer) ctype penc n
        = Inl (OC_AwaitConfirmation (AO_Rejected \<lparr>reason_code = m, description = d\<rparr>))"
    using assms(7,8)
    by (simp add: open_channel_def io_simps on_writer_run on_reader_run
        varint_codec.open_response_img [OF assms(1)])
qed

theorem channel_open_accept_witness:
  "accept_channel quic_varint (Inr (rd (vi_enc quic_varint DSHELL_CHANNEL_STREAM_KIND
        @ img_open quic_varint 5 (lit ''session'') []) None, fresh_writer) :: unit + reader \<times> writer)
     = Inr \<lparr>ic_channel_type = lit ''session'', ic_max_message_size = 5,
            ic_streams = \<lparr>ch_reader = rd [] None, ch_writer = fresh_writer\<rparr>\<rparr>"
proof -
  have h: "valid_ssh_string (lit ''session'')" "(5::nat) < VARINT_LIMIT"
    by (simp_all add: valid_ssh_string_def MAX_REMOTE_FIELD_SIZE_def lit_def byte_of_def VARINT_LIMIT_def)
  from channel_open_accept [where 'me = unit and 'pe = unit and w = fresh_writer and rest = "[]" and e = None and w' = fresh_writer
        and rest' = "[]" and e' = None,
      OF quic.varint_codec_axioms h(1) h(2) emits_ok _ _ h(2) h(1)]
  show ?thesis by simp
qed

text \<open>
  Stream kinds keep control and channel streams apart. A stream opened as a channel is never
  accepted as a control stream nor the other way round, and a stream of any other kind is
  accepted as neither; a conversation starts with unpoisoned state and both ticket counters at
  zero.
\<close>

theorem stream_kinds_separate:
  fixes w :: writer
  assumes "varint_codec V" and "k < VARINT_LIMIT"
  shows "(k \<noteq> DSHELL_CHANNEL_STREAM_KIND \<longrightarrow>
        accept_channel V (Inr (rd (vi_enc V k @ rest) e, w) :: 'me + reader \<times> writer)
          = Inl (AC_AcceptStream (WT_UnexpectedStreamKind k)))
    \<and> (k \<noteq> DSHELL_CONTROL_STREAM_KIND \<longrightarrow>
        conversation_accept V (Inr (rd (vi_enc V k @ rest) e, w) :: 'me + reader \<times> writer)
          = Inl (WT_UnexpectedStreamKind k))
    \<and> conversation_accept V (Inr (rd (vi_enc V DSHELL_CONTROL_STREAM_KIND @ rest) e, w) :: 'me + reader \<times> writer)
        = Inr (conversation_shared_new (rd rest e) w)
    \<and> quiet (conversation_shared_new (rd rest e) w)"
  by (simp add: accept_channel_def conversation_accept_def accept_stream_kind_img [OF assms]
      accept_stream_kind_img [OF assms(1)] quiet_def conversation_shared_new_def ordered_access_new_def)

theorem stream_kinds_separate_witness:
  "accept_channel quic_varint (Inr (rd (vi_enc quic_varint 0) None, fresh_writer) :: unit + reader \<times> writer)
     = Inl (AC_AcceptStream (WT_UnexpectedStreamKind 0))"
  using stream_kinds_separate [where 'me = unit and rest = "[]" and e = None and w = fresh_writer,
      OF quic.varint_codec_axioms, of 0]
  by (simp add: VARINT_LIMIT_def DSHELL_CHANNEL_STREAM_KIND_def)

end
