(* ===== verification/Tickets.thy ===== *)
theory Tickets
  imports Global_Requests
begin

text \<open>
  Several handlers at once on the writer of a conversation (\<open>src/conversation.rs\<close>). Each task is
  at a program point of \<open>acquire_writer\<close>, \<open>drain_auto_failures\<close>, \<open>OrderedAccess::acquire\<close> or of
  the write under the guard, one atomic access to shared state per point, so that tasks of a
  multi-threaded runtime interleave at every point. A waiter registers with the notifier
  (\<open>enable\<close>) and is woken only by notifications sent after that. Ticket numbers are natural
  numbers and fewer than \<open>2^64\<close> of them are taken, so that equality of the 64-bit counters is
  equality of the numbers.
\<close>

text \<open>What a task writes once it holds the guard; payloads are given by their bytes.\<close>

datatype wjob = J_Request ssh_string bytes | J_Notify ssh_string bytes | J_Success bytes | J_Failure

primrec run_job :: "varint_api \<Rightarrow> wjob \<Rightarrow> (writer, unit, unit) io" where
  "run_job V (J_Request rt p) =
     ctx (\<lambda>_ :: (io_error, unit) send_request_error. ()) (request_write V rt (write_all p))"
| "run_job V (J_Notify rt p) = ctx (\<lambda>_. ()) (notify_write V rt (write_all p))"
| "run_job V (J_Success p) = ctx (\<lambda>_. ()) (success_write V (write_all p))"
| "run_job V J_Failure = ctx (\<lambda>_. ()) (failure_write V)"

primrec img_job :: "varint_api \<Rightarrow> wjob \<Rightarrow> bytes" where
  "img_job V (J_Request rt p) = img_global V rt True p"
| "img_job V (J_Notify rt p) = img_global V rt False p"
| "img_job V (J_Success p) = img_success V p"
| "img_job V J_Failure = img_failure V"

primrec valid_job :: "wjob \<Rightarrow> bool" where
  "valid_job (J_Request rt p) = valid_ssh_string rt"
| "valid_job (J_Notify rt p) = valid_ssh_string rt"
| "valid_job (J_Success p) = True"
| "valid_job J_Failure = True"

text \<open>
  Program points. \<open>Owned t\<close>: a ticket is held but nothing waits for it yet (a decoded request).
  The flag of a registered waiter says whether it was notified since. \<open>Gone\<close>: the handler
  returned an error; its ticket is never released.
\<close>

datatype pc =
    Idle
  | Owned nat
  | Loop nat wjob
  | DrainCheck nat wjob nat
  | DrainPoison nat wjob nat
  | DrainServe nat wjob nat
  | DrainHold nat wjob nat
  | DrainFailed nat wjob
  | Check1 nat wjob
  | Enable nat wjob
  | PoisonCheck nat wjob bool
  | Check2 nat wjob bool
  | Sleep nat wjob bool
  | AcqPoison nat wjob
  | AcqServe nat wjob
  | Hold nat wjob
  | Torn nat
  | Gone

record machine =
  m_writer :: writer
  m_next :: nat
  m_serving :: nat
  m_poisoned :: bool
  m_autos :: "nat set"
  m_tasks :: "nat \<Rightarrow> pc"
  m_log :: "(nat \<times> bytes) list"
  m_torn :: bool
  m_drain_torn :: bool

fun notified :: "pc \<Rightarrow> pc" where
  "notified (PoisonCheck t j b) = PoisonCheck t j True"
| "notified (Check2 t j b) = Check2 t j True"
| "notified (Sleep t j b) = Sleep t j True"
| "notified p = p"

definition notify_waiters :: "machine \<Rightarrow> machine" where
  "notify_waiters s = s\<lparr>m_tasks := (\<lambda>i. notified (m_tasks s i))\<rparr>"

definition goto :: "nat \<Rightarrow> pc \<Rightarrow> machine \<Rightarrow> machine" where
  "goto i p s = s\<lparr>m_tasks := (m_tasks s)(i := p)\<rparr>"

definition m_guard_drop :: "machine \<Rightarrow> machine" where
  "m_guard_drop s = notify_waiters (s\<lparr>m_serving := m_serving s + 1\<rparr>)"

definition m_poison :: "machine \<Rightarrow> machine" where
  "m_poison s = notify_waiters (s\<lparr>m_poisoned := True\<rparr>)"

definition wrote_ok :: "nat \<Rightarrow> bytes \<Rightarrow> writer \<Rightarrow> machine \<Rightarrow> machine" where
  "wrote_ok t bs w s = s\<lparr>m_writer := w, m_log := m_log s @ [(t, bs)]\<rparr>"

definition wrote_err :: "bool \<Rightarrow> writer \<Rightarrow> machine \<Rightarrow> machine" where
  "wrote_err draining w s =
     s\<lparr>m_writer := w, m_torn := True, m_drain_torn := m_drain_torn s \<or> draining\<rparr>"

text \<open>The next atomic step of a task inside its handler.\<close>

definition micro :: "varint_api \<Rightarrow> nat \<Rightarrow> machine \<Rightarrow> machine option" where
  "micro V i s = (case m_tasks s i of
     Loop t j \<Rightarrow> Some (goto i (DrainCheck t j (m_serving s)) s)
   | DrainCheck t j c \<Rightarrow>
       if c \<in> m_autos s then Some (goto i (DrainPoison t j c) (s\<lparr>m_autos := m_autos s - {c}\<rparr>))
       else Some (goto i (Check1 t j) s)
   | DrainPoison t j c \<Rightarrow>
       if m_poisoned s then Some (goto i Gone s) else Some (goto i (DrainServe t j c) s)
   | DrainServe t j c \<Rightarrow>
       if m_serving s = c then Some (goto i (DrainHold t j c) s) else None
   | DrainHold t j c \<Rightarrow>
       (case auto_failure_write V (m_writer s) of
          (Inr _, w) \<Rightarrow> Some (goto i (Loop t j) (m_guard_drop (wrote_ok c (img_failure V) w s)))
        | (Inl _, w) \<Rightarrow> Some (goto i (DrainFailed t j) (m_guard_drop (wrote_err True w s))))
   | DrainFailed t j \<Rightarrow> Some (goto i Gone (m_poison s))
   | Check1 t j \<Rightarrow>
       if m_serving s = t then Some (goto i (AcqPoison t j) s) else Some (goto i (Enable t j) s)
   | Enable t j \<Rightarrow> Some (goto i (PoisonCheck t j False) s)
   | PoisonCheck t j b \<Rightarrow>
       if m_poisoned s then Some (goto i Gone s) else Some (goto i (Check2 t j b) s)
   | Check2 t j b \<Rightarrow>
       if m_serving s = t then Some (goto i (AcqPoison t j) s) else Some (goto i (Sleep t j b) s)
   | Sleep t j b \<Rightarrow> if b then Some (goto i (Loop t j) s) else None
   | AcqPoison t j \<Rightarrow>
       if m_poisoned s then Some (goto i Gone s) else Some (goto i (AcqServe t j) s)
   | AcqServe t j \<Rightarrow> if m_serving s = t then Some (goto i (Hold t j) s) else None
   | Hold t j \<Rightarrow>
       (case run_job V j (m_writer s) of
          (Inr _, w) \<Rightarrow> Some (goto i Idle (m_guard_drop (wrote_ok t (img_job V j) w s)))
        | (Inl _, w) \<Rightarrow> Some (goto i (Torn t) (m_poison (wrote_err False w s))))
   | Torn t \<Rightarrow> Some (goto i Gone (m_guard_drop s))
   | _ \<Rightarrow> None)"

inductive step :: "varint_api \<Rightarrow> machine \<Rightarrow> machine \<Rightarrow> bool" for V where
  take: "m_tasks s i = Idle \<Longrightarrow> m_next s < 2 ^ 64 - 1 \<Longrightarrow>
    step V s (goto i (Owned (m_next s)) (s\<lparr>m_next := Suc (m_next s)\<rparr>))"
| start: "m_tasks s i = Owned t \<Longrightarrow> valid_job j \<Longrightarrow> step V s (goto i (Loop t j) s)"
| drop: "m_tasks s i = Owned t \<Longrightarrow>
    step V s (goto i Idle (notify_waiters (s\<lparr>m_autos := insert t (m_autos s)\<rparr>)))"
| run: "micro V i s = Some s' \<Longrightarrow> step V s s'"

definition m_init :: "writer \<Rightarrow> machine" where
  "m_init w = \<lparr>m_writer = w, m_next = 0, m_serving = 0, m_poisoned = False, m_autos = {},
     m_tasks = (\<lambda>_. Idle), m_log = [], m_torn = False,
     m_drain_torn = False\<rparr>"

inductive reach :: "varint_api \<Rightarrow> writer \<Rightarrow> machine \<Rightarrow> bool" for V w where
  init: "reach V w (m_init w)"
| step: "reach V w s \<Longrightarrow> step V s s' \<Longrightarrow> reach V w s'"

text \<open>An executable scheduler: a list of actions drives the machine through one interleaving.\<close>

datatype action = A_take nat | A_start nat wjob | A_drop nat | A_run nat

fun exec :: "varint_api \<Rightarrow> action \<Rightarrow> machine \<Rightarrow> machine option" where
  "exec V (A_take i) s =
     (if m_tasks s i = Idle \<and> m_next s < 2 ^ 64 - 1
      then Some (goto i (Owned (m_next s)) (s\<lparr>m_next := Suc (m_next s)\<rparr>)) else None)"
| "exec V (A_start i j) s =
     (case m_tasks s i of
        Owned t \<Rightarrow> if valid_job j then Some (goto i (Loop t j) s) else None
      | _ \<Rightarrow> None)"
| "exec V (A_drop i) s =
     (case m_tasks s i of
        Owned t \<Rightarrow> Some (goto i Idle (notify_waiters (s\<lparr>m_autos := insert t (m_autos s)\<rparr>)))
      | _ \<Rightarrow> None)"
| "exec V (A_run i) s = micro V i s"

fun schedule :: "varint_api \<Rightarrow> action list \<Rightarrow> machine \<Rightarrow> machine option" where
  "schedule V [] s = Some s"
| "schedule V (a # as) s = (case exec V a s of None \<Rightarrow> None | Some t \<Rightarrow> schedule V as t)"

lemma exec_step: "exec V a s = Some s' \<Longrightarrow> step V s s'"
  by (cases a) (auto split: if_splits pc.splits intro: step.intros)

lemma schedule_reach: "reach V w s \<Longrightarrow> schedule V as s = Some s' \<Longrightarrow> reach V w s'"
proof (induction "as" arbitrary: s)
  case (Cons a as)
  from Cons.prems(2) obtain t where "exec V a s = Some t" "schedule V as t = Some s'"
    by (auto split: option.splits)
  with Cons.IH Cons.prems(1) show ?case by (blast intro: reach.step exec_step)
qed simp

subsection \<open>Ownership of tickets\<close>

primrec owned :: "pc \<Rightarrow> nat set" where
  "owned Idle = {}"
| "owned (Owned t) = {t}"
| "owned (Loop t j) = {t}"
| "owned (DrainCheck t j c) = {t}"
| "owned (DrainPoison t j c) = {t, c}"
| "owned (DrainServe t j c) = {t, c}"
| "owned (DrainHold t j c) = {t, c}"
| "owned (DrainFailed t j) = {t}"
| "owned (Check1 t j) = {t}"
| "owned (Enable t j) = {t}"
| "owned (PoisonCheck t j b) = {t}"
| "owned (Check2 t j b) = {t}"
| "owned (Sleep t j b) = {t}"
| "owned (AcqPoison t j) = {t}"
| "owned (AcqServe t j) = {t}"
| "owned (Hold t j) = {t}"
| "owned (Torn t) = {t}"
| "owned Gone = {}"

text \<open>The ticket a task knows to be the one served, and the one it loaded as served earlier.\<close>

fun local_ok :: "nat \<Rightarrow> pc \<Rightarrow> bool" where
  "local_ok n (DrainCheck t j c) = (c \<le> n)"
| "local_ok n (DrainPoison t j c) = (c = n \<and> t \<noteq> c)"
| "local_ok n (DrainServe t j c) = (c = n \<and> t \<noteq> c)"
| "local_ok n (DrainHold t j c) = (c = n \<and> t \<noteq> c)"
| "local_ok n (AcqPoison t j) = (t = n)"
| "local_ok n (AcqServe t j) = (t = n)"
| "local_ok n (Hold t j) = (t = n)"
| "local_ok n (Torn t) = (t = n)"
| "local_ok n p = True"

fun accessing :: "pc \<Rightarrow> bool" where
  "accessing (DrainHold t j c) = True"
| "accessing (Hold t j) = True"
| "accessing (Torn t) = True"
| "accessing p = False"

definition ticket_inv :: "machine \<Rightarrow> bool" where
  "ticket_inv s \<longleftrightarrow>
     (\<forall>i. owned (m_tasks s i) \<subseteq> {m_serving s..<m_next s}) \<and>
     m_autos s \<subseteq> {m_serving s..<m_next s} \<and>
     (\<forall>i k. i \<noteq> k \<longrightarrow> owned (m_tasks s i) \<inter> owned (m_tasks s k) = {}) \<and>
     (\<forall>i. owned (m_tasks s i) \<inter> m_autos s = {}) \<and>
     (\<forall>i. local_ok (m_serving s) (m_tasks s i)) \<and>
     m_serving s \<le> m_next s"

lemma notified_keeps [simp]:
  "owned (notified p) = owned p" "local_ok n (notified p) = local_ok n p"
  "accessing (notified p) = accessing p"
  by (cases p; simp)+

lemma machine_sels [simp]:
  "m_writer (goto i p s) = m_writer s" "m_next (goto i p s) = m_next s"
  "m_serving (goto i p s) = m_serving s" "m_poisoned (goto i p s) = m_poisoned s"
  "m_autos (goto i p s) = m_autos s" "m_log (goto i p s) = m_log s" "m_torn (goto i p s) = m_torn s"
  "m_tasks (goto i p s) = (m_tasks s)(i := p)"
  "m_writer (notify_waiters s) = m_writer s" "m_next (notify_waiters s) = m_next s"
  "m_serving (notify_waiters s) = m_serving s" "m_poisoned (notify_waiters s) = m_poisoned s"
  "m_autos (notify_waiters s) = m_autos s" "m_log (notify_waiters s) = m_log s"
  "m_torn (notify_waiters s) = m_torn s" "m_drain_torn (notify_waiters s) = m_drain_torn s"
  "m_drain_torn (goto i p s) = m_drain_torn s" "m_tasks (notify_waiters s) i = notified (m_tasks s i)"
  by (simp_all add: goto_def notify_waiters_def)

lemma data_sels [simp]:
  "m_tasks (wrote_ok t bs w s) = m_tasks s" "m_serving (wrote_ok t bs w s) = m_serving s"
  "m_tasks (wrote_err b w s) = m_tasks s" "m_serving (wrote_err b w s) = m_serving s"
  "m_serving (m_poison s) = m_serving s" "m_tasks (m_poison s) k = notified (m_tasks s k)"
  by (simp_all add: wrote_ok_def wrote_err_def m_poison_def)

lemma inv_goto:
  assumes "ticket_inv s" "owned p \<subseteq> owned (m_tasks s i)" "local_ok (m_serving s) p"
  shows "ticket_inv (goto i p s)"
  using assms unfolding ticket_inv_def by (auto; blast)

lemma inv_notify [simp]: "ticket_inv (notify_waiters s) = ticket_inv s"
  by (simp add: ticket_inv_def)

lemma inv_data [simp]:
  "ticket_inv (wrote_ok t bs w s) = ticket_inv s" "ticket_inv (wrote_err b w s) = ticket_inv s"
  "ticket_inv (m_poison s) = ticket_inv s"
  by (simp_all add: ticket_inv_def wrote_ok_def wrote_err_def m_poison_def)


lemma local_ok_Suc: "local_ok n p \<Longrightarrow> n \<notin> owned p \<Longrightarrow> local_ok (Suc n) p"
  by (cases p) auto

lemma ticket_invD:
  assumes "ticket_inv s"
  shows "owned (m_tasks s i) \<subseteq> {m_serving s..<m_next s}" "m_autos s \<subseteq> {m_serving s..<m_next s}"
    "i \<noteq> k \<Longrightarrow> owned (m_tasks s i) \<inter> owned (m_tasks s k) = {}"
    "owned (m_tasks s i) \<inter> m_autos s = {}" "local_ok (m_serving s) (m_tasks s i)"
    "m_serving s \<le> m_next s"
  using assms unfolding ticket_inv_def by blast+

lemma shrink: "A \<subseteq> {n..<m} \<Longrightarrow> n \<notin> A \<Longrightarrow> A \<subseteq> {Suc n..<m}"
  by (auto simp: Suc_le_eq le_less)

lemma grow: "A \<subseteq> {n..<m} \<Longrightarrow> A \<subseteq> {n..<Suc m}"
  by (auto simp: less_Suc_eq)

text \<open>Establishing the invariant after one task moved to \<open>p\<close> and the rest kept their tickets.\<close>

lemma ticket_invI:
  assumes tasks: "\<And>k. k \<noteq> i \<Longrightarrow> owned (m_tasks s' k) = owned (m_tasks s k)"
    and pi: "m_tasks s' i = p"
    and own: "\<And>k. k \<noteq> i \<Longrightarrow> owned (m_tasks s k) \<subseteq> {m_serving s'..<m_next s'}"
    and loc: "\<And>k. k \<noteq> i \<Longrightarrow> local_ok (m_serving s') (m_tasks s' k)" "local_ok (m_serving s') p"
    and dis: "\<And>k. k \<noteq> i \<Longrightarrow> owned p \<inter> owned (m_tasks s k) = {}"
    and a: "m_autos s' \<subseteq> {m_serving s'..<m_next s'}" "owned p \<inter> m_autos s' = {}"
      "\<And>k. k \<noteq> i \<Longrightarrow> owned (m_tasks s k) \<inter> m_autos s' = {}"
    and p: "owned p \<subseteq> {m_serving s'..<m_next s'}" and le: "m_serving s' \<le> m_next s'"
    and inv: "ticket_inv s"
  shows "ticket_inv s'"
  unfolding ticket_inv_def
proof (intro conjI allI impI)
  fix k l :: nat assume "k \<noteq> l"
  then show "owned (m_tasks s' k) \<inter> owned (m_tasks s' l) = {}"
    using tasks [of k] tasks [of l] pi dis [of k] dis [of l] ticket_invD(3) [OF inv, of k l]
    by (cases "k = i"; cases "l = i") (auto simp: Int_commute)
next
  fix k show "owned (m_tasks s' k) \<subseteq> {m_serving s'..<m_next s'}"
    using tasks [of k] pi own [of k] p by (cases "k = i") auto
  show "owned (m_tasks s' k) \<inter> m_autos s' = {}"
    using tasks [of k] pi a(2) a(3) [of k] by (cases "k = i") auto
  show "local_ok (m_serving s') (m_tasks s' k)"
    using loc(1) [of k] loc(2) pi by (cases "k = i") auto
qed (use a(1) le in auto)

lemma inv_advance:
  assumes inv: "ticket_inv s" and own: "m_serving s \<in> owned (m_tasks s i)"
    and p: "owned p \<subseteq> owned (m_tasks s i) - {m_serving s}" "local_ok (Suc (m_serving s)) p"
  shows "ticket_inv (goto i p (m_guard_drop s))"
proof (rule ticket_invI [where s = s and i = i and p = p])
  let ?n = "m_serving s"
  have other: "?n \<notin> owned (m_tasks s k)" if "k \<noteq> i" for k
    using ticket_invD(3) [OF inv that] own by blast
  have autos: "?n \<notin> m_autos s" using ticket_invD(4) [OF inv, of i] own by blast
  show "m_serving (goto i p (m_guard_drop s)) \<le> m_next (goto i p (m_guard_drop s))"
    using ticket_invD(1) [OF inv, of i] own by (auto simp: m_guard_drop_def)
  show "m_autos (goto i p (m_guard_drop s)) \<subseteq>
      {m_serving (goto i p (m_guard_drop s))..<m_next (goto i p (m_guard_drop s))}"
    using shrink [OF ticket_invD(2) [OF inv] autos] by (simp add: m_guard_drop_def)
  show "owned p \<subseteq> {m_serving (goto i p (m_guard_drop s))..<m_next (goto i p (m_guard_drop s))}"
    using shrink [of "owned p" ?n "m_next s"] ticket_invD(1) [OF inv, of i] p(1)
    by (auto simp: m_guard_drop_def)
  show "owned p \<inter> m_autos (goto i p (m_guard_drop s)) = {}"
    using ticket_invD(4) [OF inv, of i] p(1) by (auto simp: m_guard_drop_def)
  fix k assume k: "k \<noteq> i"
  show "owned (m_tasks s k) \<subseteq> {m_serving (goto i p (m_guard_drop s))..<m_next (goto i p (m_guard_drop s))}"
    using shrink [OF ticket_invD(1) [OF inv, of k] other [OF k]] by (simp add: m_guard_drop_def)
  show "local_ok (m_serving (goto i p (m_guard_drop s))) (m_tasks (goto i p (m_guard_drop s)) k)"
    using local_ok_Suc [OF ticket_invD(5) [OF inv, of k] other [OF k]] k by (simp add: m_guard_drop_def)
  show "owned p \<inter> owned (m_tasks s k) = {}"
    using ticket_invD(3) [OF inv k] p(1) by blast
  show "owned (m_tasks s k) \<inter> m_autos (goto i p (m_guard_drop s)) = {}"
    using ticket_invD(4) [OF inv, of k] by (simp add: m_guard_drop_def)
qed (use p(2) inv in \<open>simp_all add: m_guard_drop_def\<close>)

lemma inv_take:
  assumes inv: "ticket_inv s" and idle: "m_tasks s i = Idle"
  shows "ticket_inv (goto i (Owned (m_next s)) (s\<lparr>m_next := Suc (m_next s)\<rparr>))"
proof (rule ticket_invI [where s = s and i = i and p = "Owned (m_next s)"])
  show "owned (Owned (m_next s)) \<inter> m_autos (goto i (Owned (m_next s)) (s\<lparr>m_next := Suc (m_next s)\<rparr>)) = {}"
    using ticket_invD(2) [OF inv] by auto
  fix k
  show "owned (Owned (m_next s)) \<inter> owned (m_tasks s k) = {}"
    using ticket_invD(1) [OF inv, of k] by auto
  show "local_ok (m_serving (goto i (Owned (m_next s)) (s\<lparr>m_next := Suc (m_next s)\<rparr>)))
      (m_tasks (goto i (Owned (m_next s)) (s\<lparr>m_next := Suc (m_next s)\<rparr>)) k)"
    using ticket_invD(5) [OF inv, of k] by simp
qed (use ticket_invD [OF inv] grow inv in \<open>simp_all\<close>)

lemma inv_drop:
  assumes inv: "ticket_inv s" and own: "m_tasks s i = Owned t"
  shows "ticket_inv (goto i Idle (notify_waiters (s\<lparr>m_autos := insert t (m_autos s)\<rparr>)))"
proof (rule ticket_invI [where s = s and i = i and p = Idle])
  show "m_autos (goto i Idle (notify_waiters (s\<lparr>m_autos := insert t (m_autos s)\<rparr>))) \<subseteq>
      {m_serving (goto i Idle (notify_waiters (s\<lparr>m_autos := insert t (m_autos s)\<rparr>)))..<
       m_next (goto i Idle (notify_waiters (s\<lparr>m_autos := insert t (m_autos s)\<rparr>)))}"
    using ticket_invD(1) [OF inv, of i] ticket_invD(2) [OF inv] own by simp
  fix k assume "k \<noteq> i"
  then show "owned (m_tasks s k) \<inter> m_autos (goto i Idle (notify_waiters (s\<lparr>m_autos := insert t (m_autos s)\<rparr>))) = {}"
    using ticket_invD(4) [OF inv, of k] ticket_invD(3) [OF inv, of k i] own by simp
qed (use ticket_invD [OF inv] inv in \<open>simp_all\<close>)

lemma inv_remove:
  assumes inv: "ticket_inv s" and pc: "m_tasks s i = DrainCheck t j c" and c: "c \<in> m_autos s"
  shows "ticket_inv (goto i (DrainPoison t j c) (s\<lparr>m_autos := m_autos s - {c}\<rparr>))"
proof (rule ticket_invI [where s = s and i = i and p = "DrainPoison t j c"])
  have cs: "c = m_serving s" "c < m_next s"
    using ticket_invD(5) [OF inv, of i] ticket_invD(2) [OF inv] pc c by auto
  have t: "t \<noteq> c" "t \<in> {m_serving s..<m_next s}" "t \<notin> m_autos s"
    using ticket_invD(1,4) [OF inv, of i] c by (auto simp: pc)
  let ?s = "goto i (DrainPoison t j c) (s\<lparr>m_autos := m_autos s - {c}\<rparr>)"
  show "local_ok (m_serving ?s) (DrainPoison t j c)" using cs t by simp
  show "owned (DrainPoison t j c) \<subseteq> {m_serving ?s..<m_next ?s}" using cs t by simp
  show "owned (DrainPoison t j c) \<inter> m_autos ?s = {}" using t by simp
  fix k assume k: "k \<noteq> i"
  show "owned (DrainPoison t j c) \<inter> owned (m_tasks s k) = {}"
    using ticket_invD(3) [OF inv k] ticket_invD(4) [OF inv, of k] c pc by auto
  show "owned (m_tasks s k) \<inter> m_autos ?s = {}"
    using ticket_invD(4) [OF inv, of k] by auto
  show "local_ok (m_serving ?s) (m_tasks ?s k)"
    using ticket_invD(5) [OF inv, of k] k by simp
qed (use ticket_invD [OF inv] inv in auto)

lemma inv_micro: "ticket_inv s \<Longrightarrow> micro V i s = Some s' \<Longrightarrow> ticket_inv s'"
  using ticket_invD(5) [of s i]
  by (cases "m_tasks s i")
    (auto simp: micro_def intro!: inv_advance inv_remove intro: inv_goto
      split: if_splits prod.splits sum.splits)

lemma inv_step: "step V s s' \<Longrightarrow> ticket_inv s \<Longrightarrow> ticket_inv s'"
  by (induction rule: step.induct)
    (auto intro: inv_take inv_drop inv_micro inv_goto)

lemma inv_reach: "reach V w s \<Longrightarrow> ticket_inv s"
proof (induction rule: reach.induct)
  case init
  show ?case by (simp add: m_init_def ticket_inv_def)
qed (rule inv_step)

lemma accessing_owns:
  "accessing p \<Longrightarrow> local_ok n p \<Longrightarrow> n \<in> owned p"
  by (cases p) auto

text \<open>
  Mutual exclusion. In every reachable state of any number of tasks, at most one task
  accesses the control stream's writer, whether to write its own message or a queued failure
  response, and it does so with the ticket being served.
\<close>

theorem writer_mutual_exclusion:
  assumes "reach V w s" and "accessing (m_tasks s i)" and "accessing (m_tasks s k)"
  shows "i = k \<and> m_serving s \<in> owned (m_tasks s i)"
proof -
  note inv = inv_reach [OF assms(1)]
  have "m_serving s \<in> owned (m_tasks s i)" "m_serving s \<in> owned (m_tasks s k)"
    using accessing_owns assms(2,3) ticket_invD(5) [OF inv] by blast+
  with ticket_invD(3) [OF inv, of i k] show ?thesis by blast
qed


subsection \<open>Order\<close>

primrec job_of :: "pc \<Rightarrow> wjob option" where
  "job_of Idle = None"
| "job_of (Owned t) = None"
| "job_of (Loop t j) = Some j"
| "job_of (DrainCheck t j c) = Some j"
| "job_of (DrainPoison t j c) = Some j"
| "job_of (DrainServe t j c) = Some j"
| "job_of (DrainHold t j c) = Some j"
| "job_of (DrainFailed t j) = Some j"
| "job_of (Check1 t j) = Some j"
| "job_of (Enable t j) = Some j"
| "job_of (PoisonCheck t j b) = Some j"
| "job_of (Check2 t j b) = Some j"
| "job_of (Sleep t j b) = Some j"
| "job_of (AcqPoison t j) = Some j"
| "job_of (AcqServe t j) = Some j"
| "job_of (Hold t j) = Some j"
| "job_of (Torn t) = None"
| "job_of Gone = None"

definition jobs_valid :: "machine \<Rightarrow> bool" where
  "jobs_valid s \<longleftrightarrow> (\<forall>i j. job_of (m_tasks s i) = Some j \<longrightarrow> valid_job j)"

definition log_inv :: "bytes \<Rightarrow> machine \<Rightarrow> bool" where
  "log_inv out s \<longleftrightarrow> (\<not> m_torn s \<longrightarrow>
     map fst (m_log s) = [0..<m_serving s] \<and> w_out (m_writer s) = out @ concat (map snd (m_log s)))"

lemma job_of_notified [simp]: "job_of (notified p) = job_of p"
  by (cases p) simp_all

lemma sends_run_job: "valid_job j \<Longrightarrow> sends (run_job V j) (img_job V j)"
  by (cases j) (auto intro!: sends_ctx sends_request_write sends_notify_write sends_success_write
      sends_failure_write emits_intros)

lemma jobs_goto:
  "jobs_valid s \<Longrightarrow> (\<And>j. job_of p = Some j \<Longrightarrow> job_of (m_tasks s i) = Some j) \<Longrightarrow> jobs_valid (goto i p s)"
  unfolding jobs_valid_def by auto

lemma jobs_frame [simp]:
  "jobs_valid (notify_waiters s) = jobs_valid s" "jobs_valid (wrote_ok t bs w s) = jobs_valid s"
  "jobs_valid (wrote_err b w s) = jobs_valid s" "jobs_valid (m_poison s) = jobs_valid s"
  "jobs_valid (m_guard_drop s) = jobs_valid s" "jobs_valid (s\<lparr>m_autos := a\<rparr>) = jobs_valid s"
  "jobs_valid (s\<lparr>m_next := n\<rparr>) = jobs_valid s" "jobs_valid (s\<lparr>m_serving := n\<rparr>) = jobs_valid s"
  by (simp_all add: jobs_valid_def wrote_ok_def wrote_err_def m_poison_def m_guard_drop_def)

lemma guard_drop_tasks [simp]: "m_tasks (m_guard_drop s) k = notified (m_tasks s k)"
  by (simp add: m_guard_drop_def)

lemma jobs_micro: "jobs_valid s \<Longrightarrow> micro V i s = Some s' \<Longrightarrow> jobs_valid s'"
  by (cases "m_tasks s i")
    (auto simp: micro_def intro!: jobs_goto split: if_splits prod.splits sum.splits)

lemma jobs_reach: "reach V w s \<Longrightarrow> jobs_valid s"
proof (induction rule: reach.induct)
  case init
  show ?case by (simp add: m_init_def jobs_valid_def)
next
  case (step s s')
  from step(2) step.IH show ?case
  proof (induction rule: step.induct)
    case (start s i t j)
    then show ?case by (simp add: jobs_valid_def)
  qed (auto intro!: jobs_goto intro: jobs_micro)
qed

lemma log_frame [simp]:
  "log_inv out (goto i p s) = log_inv out s" "log_inv out (notify_waiters s) = log_inv out s"
  "log_inv out (m_poison s) = log_inv out s" "log_inv out (s\<lparr>m_autos := a\<rparr>) = log_inv out s"
  "log_inv out (s\<lparr>m_next := n\<rparr>) = log_inv out s" "log_inv out (m_guard_drop (wrote_err b u s))"
  "log_inv out (wrote_err b u s)"
  by (simp_all add: log_inv_def wrote_err_def m_poison_def m_guard_drop_def)

lemma log_wrote:
  "log_inv out s \<Longrightarrow> w_out u = w_out (m_writer s) @ bs \<Longrightarrow>
   log_inv out (m_guard_drop (wrote_ok (m_serving s) bs u s))"
  by (simp add: log_inv_def wrote_ok_def m_guard_drop_def)

text \<open>A failed write leaves the stream torn; the session is poisoned before the guard is released.\<close>

definition torn_inv :: "machine \<Rightarrow> bool" where
  "torn_inv s \<longleftrightarrow> (\<forall>i t. m_tasks s i = Torn t \<longrightarrow> m_torn s)"

lemma torn_micro: "torn_inv s \<Longrightarrow> micro V i s = Some s' \<Longrightarrow> torn_inv s'"
  by (cases "m_tasks s i")
    (auto simp: micro_def torn_inv_def wrote_ok_def wrote_err_def m_poison_def m_guard_drop_def
      elim!: notified.elims split: if_splits prod.splits sum.splits)

lemma torn_reach: "reach V w s \<Longrightarrow> torn_inv s"
proof (induction rule: reach.induct)
  case init
  show ?case by (simp add: m_init_def torn_inv_def)
next
  case (step s s')
  from step(2) step.IH show ?case
    by (induction rule: step.induct)
      (auto simp: torn_inv_def elim!: notified.elims intro: torn_micro [unfolded torn_inv_def, rule_format])
qed

lemma log_micro:
  assumes "log_inv out s" "ticket_inv s" "jobs_valid s" "torn_inv s" "micro V i s = Some s'"
  shows "log_inv out s'"
proof (cases "m_tasks s i")
  case (DrainHold t j c)
  then have c: "c = m_serving s" using ticket_invD(5) [OF assms(2), of i] by simp
  show ?thesis
    using assms(1,5) DrainHold c sends_ok_state(1) [OF sends_auto_failure, of V "m_writer s"]
    by (auto simp: micro_def intro!: log_wrote split: prod.splits sum.splits)
next
  case (Hold t j)
  then have t: "t = m_serving s" using ticket_invD(5) [OF assms(2), of i] by simp
  have j: "valid_job j" using assms(3) Hold unfolding jobs_valid_def by (metis job_of.simps(16))
  show ?thesis
    using assms(1,5) Hold t sends_ok_state(1) [OF sends_run_job [OF j], of V "m_writer s"]
    by (auto simp: micro_def intro!: log_wrote split: prod.splits sum.splits)
next
  case (Torn t)
  with assms(4) have "m_torn s" unfolding torn_inv_def by blast
  with Torn assms(5) show ?thesis
    by (auto simp: micro_def log_inv_def m_guard_drop_def)
qed (use assms(1,5) in \<open>auto simp: micro_def split: if_splits\<close>)

lemma log_reach: "reach V w s \<Longrightarrow> log_inv (w_out w) s"
proof (induction rule: reach.induct)
  case init
  show ?case by (simp add: m_init_def log_inv_def)
next
  case (step s s')
  note inv = inv_reach [OF step(1)] jobs_reach [OF step(1)] torn_reach [OF step(1)]
  from step(2) step.IH inv show ?case
    by (induction rule: step.induct) (auto intro: log_micro)
qed


subsection \<open>After a failed write\<close>

fun past_poison_check :: "pc \<Rightarrow> bool" where
  "past_poison_check (DrainServe t j c) = True"
| "past_poison_check (DrainHold t j c) = True"
| "past_poison_check (AcqServe t j) = True"
| "past_poison_check (Hold t j) = True"
| "past_poison_check p = False"

definition stop_inv :: "machine \<Rightarrow> bool" where
  "stop_inv s \<longleftrightarrow> (m_torn s \<and> \<not> m_drain_torn s \<longrightarrow>
     m_poisoned s \<and> (\<forall>i. \<not> past_poison_check (m_tasks s i)))"

lemma past_notified [simp]: "past_poison_check (notified p) = past_poison_check p"
  by (cases p) simp_all

lemma past_owns: "past_poison_check p \<Longrightarrow> local_ok n p \<Longrightarrow> n \<in> owned p"
  by (cases p) auto

lemma stop_goto:
  "stop_inv s \<Longrightarrow> \<not> past_poison_check p \<Longrightarrow> stop_inv (goto i p s)"
  by (simp add: stop_inv_def)

lemma stop_frame [simp]:
  "stop_inv (notify_waiters s) = stop_inv s" "stop_inv (s\<lparr>m_autos := a\<rparr>) = stop_inv s"
  "stop_inv (s\<lparr>m_next := n\<rparr>) = stop_inv s" "stop_inv (m_guard_drop s) = stop_inv s"
  "stop_inv (wrote_ok t bs u s) = stop_inv s" "stop_inv (wrote_err True u s)"
  by (simp_all add: stop_inv_def m_guard_drop_def wrote_ok_def wrote_err_def)

lemma stop_micro:
  assumes "stop_inv s" "ticket_inv s" "micro V i s = Some s'"
  shows "stop_inv s'"
proof (cases "m_tasks s i")
  case (Hold t j)
  then have t: "t = m_serving s" using ticket_invD(5) [OF assms(2), of i] by simp
  have other: "\<not> past_poison_check (m_tasks s k)" if "k \<noteq> i" for k
    using past_owns [OF _ ticket_invD(5) [OF assms(2), of k]] ticket_invD(3) [OF assms(2) that]
    by (auto simp: Hold t)
  show ?thesis
    using assms(1,3) Hold other
    by (auto simp: micro_def stop_inv_def m_poison_def wrote_err_def wrote_ok_def m_guard_drop_def
        split: prod.splits sum.splits if_splits)
next
  case (DrainFailed t j)
  with assms(1,3) show ?thesis by (auto simp: micro_def stop_inv_def m_poison_def split: if_splits)
next
  case (DrainPoison t j c)
  with assms(1,3) show ?thesis by (auto simp: micro_def stop_inv_def split: if_splits)
next
  case (AcqPoison t j)
  with assms(1,3) show ?thesis by (auto simp: micro_def stop_inv_def split: if_splits)
next
  case (DrainServe t j c)
  then have "\<not> (m_torn s \<and> \<not> m_drain_torn s)"
    using assms(1) unfolding stop_inv_def by (metis past_poison_check.simps(1))
  with DrainServe assms(3) show ?thesis by (auto simp: micro_def stop_inv_def split: if_splits)
next
  case (AcqServe t j)
  then have "\<not> (m_torn s \<and> \<not> m_drain_torn s)"
    using assms(1) unfolding stop_inv_def by (metis past_poison_check.simps(3))
  with AcqServe assms(3) show ?thesis by (auto simp: micro_def stop_inv_def split: if_splits)
qed (use assms(1,3) in \<open>auto simp: micro_def intro!: stop_goto split: if_splits prod.splits sum.splits\<close>)

lemma stop_reach: "reach V w s \<Longrightarrow> stop_inv s"
proof (induction rule: reach.induct)
  case init
  show ?case by (simp add: m_init_def stop_inv_def)
next
  case (step s s')
  note inv = inv_reach [OF step(1)]
  from step(2) step.IH inv show ?case
    by (induction rule: step.induct) (auto intro: stop_micro stop_goto)
qed


lemma run_failure_ok: "\<exists>w. run_job V J_Failure fresh_writer = (Inr (), w)"
  using sends_run [OF sends_run_job, of J_Failure fresh_writer V] by auto

text \<open>One task alone, through its whole turn.\<close>

definition solo :: "action list" where
  "solo = [A_take 0, A_start 0 J_Failure, A_run 0, A_run 0, A_run 0, A_run 0, A_run 0]"

lemma solo_holds:
  "\<exists>s. schedule V solo (m_init w) = Some s \<and> m_tasks s 0 = Hold 0 J_Failure \<and> m_serving s = 0"
  by (simp add: solo_def micro_def m_init_def goto_def)

theorem writer_mutual_exclusion_witness:
  "\<exists>s. reach quic_varint fresh_writer s \<and> m_tasks s 0 = Hold 0 J_Failure
     \<and> m_serving s \<in> owned (m_tasks s 0)"
proof -
  obtain s where s: "schedule quic_varint solo (m_init fresh_writer) = Some s" "m_tasks s 0 = Hold 0 J_Failure"
    using solo_holds by blast
  have r: "reach quic_varint fresh_writer s" by (rule schedule_reach [OF reach.init s(1)])
  from writer_mutual_exclusion [OF r, of 0 0] s(2) r show ?thesis by auto
qed

text \<open>
  C18: messages go out in ticket order. As long as no write has failed, whatever the
  interleaving of the tasks, the control stream consists of the complete messages of tickets
  0, 1, 2, ... in this order, one per served ticket, a dropped request's ticket being answered
  by a failure response in its place.
\<close>

theorem messages_in_ticket_order:
  assumes "reach V w s" and "\<not> m_torn s"
  shows "map fst (m_log s) = [0..<m_serving s]
    \<and> w_out (m_writer s) = w_out w @ concat (map snd (m_log s))"
  using log_reach [OF assms(1)] assms(2) by (simp add: log_inv_def)

theorem messages_in_ticket_order_witness:
  "\<exists>s. reach quic_varint fresh_writer s \<and> m_serving s = 1 \<and> map fst (m_log s) = [0]"
proof -
  obtain u where u: "run_job quic_varint J_Failure fresh_writer = (Inr (), u)" using run_failure_ok by blast
  have "\<exists>s. schedule quic_varint (solo @ [A_run 0]) (m_init fresh_writer) = Some s \<and> m_serving s = 1 \<and> \<not> m_torn s"
    by (simp add: solo_def micro_def m_init_def goto_def u m_guard_drop_def wrote_ok_def
        del: run_job.simps)
  then obtain s where s: "schedule quic_varint (solo @ [A_run 0]) (m_init fresh_writer) = Some s"
      "m_serving s = 1" "\<not> m_torn s" by blast
  have r: "reach quic_varint fresh_writer s" by (rule schedule_reach [OF reach.init s(1)])
  from messages_in_ticket_order [OF r s(3)] r s(2) show ?thesis by auto
qed

text \<open>
  Nothing is written after a handler's failed write. Once a handler's own write has failed,
  the session is poisoned before its guard is released, and no task is writing or past its last
  check for poison, in any interleaving without a failed automatic response.
\<close>

theorem no_write_after_failed_write:
  assumes "reach V w s" and "m_torn s" and "\<not> m_drain_torn s"
  shows "m_poisoned s \<and> \<not> past_poison_check (m_tasks s i)"
  using stop_reach [OF assms(1)] assms(2,3) by (simp add: stop_inv_def)

theorem no_write_after_failed_write_witness:
  "\<exists>s. reach quic_varint (fresh_writer\<lparr>w_room := Some 0\<rparr>) s \<and> m_poisoned s"
proof -
  let ?w = "fresh_writer\<lparr>w_room := Some 0\<rparr>"
  have "\<not> is_ok (fst (run_job quic_varint J_Failure ?w))"
    using sends_run_job [of J_Failure quic_varint]
    by (simp add: sends_def fits_def img_failure_def quic_varint_def quic_enc_def msg_nums)
  then obtain u where u: "run_job quic_varint J_Failure ?w = (Inl (), u)"
    by (cases "run_job quic_varint J_Failure ?w"; cases "fst (run_job quic_varint J_Failure ?w)") auto
  have "\<exists>s. schedule quic_varint (solo @ [A_run 0]) (m_init ?w) = Some s \<and> m_torn s \<and> \<not> m_drain_torn s"
    by (simp add: solo_def micro_def m_init_def goto_def u m_poison_def wrote_err_def
        del: run_job.simps)
  then obtain s where s: "schedule quic_varint (solo @ [A_run 0]) (m_init ?w) = Some s"
      "m_torn s" "\<not> m_drain_torn s" by blast
  have r: "reach quic_varint ?w s" by (rule schedule_reach [OF reach.init s(1)])
  from no_write_after_failed_write [OF r s(2,3)] r show ?thesis by blast
qed

subsection \<open>Two races\<close>

text \<open>
  A decoded request dropped between a waiter's drain of the queue and its registration with the
  notifier is lost: the waiter then sleeps although the ticket being served is queued for an
  automatic failure, no task can move, and neither response is ever sent unless a new handler
  comes along.
\<close>

definition lost_schedule :: "action list" where
  "lost_schedule = [A_take 0, A_take 1, A_start 1 J_Failure, A_run 1, A_run 1, A_run 1,
     A_drop 0, A_run 1, A_run 1, A_run 1]"

theorem dropped_request_lost_wakeup:
  "\<exists>s. reach V w s \<and> m_tasks s 1 = Sleep 1 J_Failure False \<and> m_serving s = 0 \<and> 0 \<in> m_autos s
     \<and> \<not> m_poisoned s \<and> (\<forall>i. micro V i s = None) \<and> (\<forall>i t. m_tasks s i \<noteq> Owned t)"
proof -
  have "\<exists>s. schedule V lost_schedule (m_init w) = Some s \<and> m_tasks s = (\<lambda>_. Idle)(1 := Sleep 1 J_Failure False)
     \<and> m_serving s = 0 \<and> 0 \<in> m_autos s \<and> \<not> m_poisoned s"
    by (simp add: lost_schedule_def micro_def m_init_def goto_def notify_waiters_def fun_eq_iff)
  then obtain s where s: "schedule V lost_schedule (m_init w) = Some s"
      "m_tasks s = (\<lambda>_. Idle)(1 := Sleep 1 J_Failure False)" "m_serving s = 0" "0 \<in> m_autos s"
      "\<not> m_poisoned s" by blast
  have "reach V w s" by (rule schedule_reach [OF reach.init s(1)])
  with s show ?thesis by (intro exI [of _ s]) (simp add: micro_def)
qed

text \<open>
  A failed automatic response releases the writer before it poisons the session: in between,
  the next task passes its checks and writes behind the torn message.
\<close>

definition drain_schedule :: "action list" where
  "drain_schedule = [A_take 0, A_take 1, A_take 2, A_drop 0, A_start 1 J_Failure, A_start 2 J_Failure,
     A_run 2, A_run 2, A_run 2, A_run 2, A_run 2, A_run 1, A_run 1, A_run 1, A_run 1, A_run 1]"

theorem drain_failure_race:
  "\<exists>s. reach quic_varint (fresh_writer\<lparr>w_room := Some 1\<rparr>) s \<and> m_torn s \<and> m_tasks s 1 = Hold 1 J_Failure"
proof -
  let ?w = "fresh_writer\<lparr>w_room := Some 1\<rparr>"
  have "\<not> is_ok (fst (auto_failure_write quic_varint ?w))"
    using sends_auto_failure [of quic_varint]
    by (simp add: sends_def fits_def img_failure_def quic_varint_def quic_enc_def msg_nums)
  then obtain e u where u: "auto_failure_write quic_varint ?w = (Inl e, u)"
    by (cases "auto_failure_write quic_varint ?w"; cases "fst (auto_failure_write quic_varint ?w)") auto
  have "\<exists>s. schedule quic_varint drain_schedule (m_init ?w) = Some s \<and> m_torn s \<and> m_tasks s 1 = Hold 1 J_Failure"
    by (simp add: drain_schedule_def micro_def m_init_def goto_def notify_waiters_def u [unfolded One_nat_def] m_guard_drop_def
        wrote_err_def)
  then show ?thesis using schedule_reach [OF reach.init] by blast
qed


subsection \<open>The reader side\<close>

text \<open>
  Readers (responses and accepted requests) call \<open>OrderedAccess::acquire\<close> directly: a waiter
  checks for poison, then for its turn, and waits otherwise. A handler whose read fails poisons
  the session and then releases the guard.
\<close>

datatype rpc = RIdle | RPoison nat | RServe nat | RHold nat | RTorn nat | RGone

record rmachine =
  rm_next :: nat
  rm_serving :: nat
  rm_poisoned :: bool
  rm_torn :: bool
  rm_tasks :: "nat \<Rightarrow> rpc"

definition rgoto :: "nat \<Rightarrow> rpc \<Rightarrow> rmachine \<Rightarrow> rmachine" where
  "rgoto i p s = s\<lparr>rm_tasks := (rm_tasks s)(i := p)\<rparr>"

definition rstep :: "bool \<Rightarrow> nat \<Rightarrow> rmachine \<Rightarrow> rmachine" where
  "rstep read_ok i s = (case rm_tasks s i of
     RIdle \<Rightarrow> rgoto i (RPoison (rm_next s)) (s\<lparr>rm_next := Suc (rm_next s)\<rparr>)
   | RPoison t \<Rightarrow> if rm_poisoned s then rgoto i RGone s else rgoto i (RServe t) s
   | RServe t \<Rightarrow> if rm_serving s = t then rgoto i (RHold t) s else rgoto i (RPoison t) s
   | RHold t \<Rightarrow>
       if read_ok then rgoto i RIdle (s\<lparr>rm_serving := Suc (rm_serving s)\<rparr>)
       else rgoto i (RTorn t) (s\<lparr>rm_poisoned := True, rm_torn := True\<rparr>)
   | RTorn t \<Rightarrow> rgoto i RGone (s\<lparr>rm_serving := Suc (rm_serving s)\<rparr>)
   | RGone \<Rightarrow> s)"

definition rm_init :: rmachine where
  "rm_init = \<lparr>rm_next = 0, rm_serving = 0, rm_poisoned = False, rm_torn = False,
     rm_tasks = (\<lambda>_. RIdle)\<rparr>"

inductive rreach :: "rmachine \<Rightarrow> bool" where
  rinit: "rreach rm_init"
| rnext: "rreach s \<Longrightarrow> rreach (rstep ok i s)"

fun rowned :: "rpc \<Rightarrow> nat set" where
  "rowned (RPoison t) = {t}"
| "rowned (RServe t) = {t}"
| "rowned (RHold t) = {t}"
| "rowned (RTorn t) = {t}"
| "rowned p = {}"

fun rholds :: "rpc \<Rightarrow> nat option" where
  "rholds (RHold t) = Some t"
| "rholds (RTorn t) = Some t"
| "rholds p = None"

definition rinv :: "rmachine \<Rightarrow> bool" where
  "rinv s \<longleftrightarrow>
     (\<forall>i. rowned (rm_tasks s i) \<subseteq> {..<rm_next s}) \<and>
     (\<forall>i k. i \<noteq> k \<longrightarrow> rowned (rm_tasks s i) \<inter> rowned (rm_tasks s k) = {}) \<and>
     (\<forall>i t. rholds (rm_tasks s i) = Some t \<longrightarrow> t = rm_serving s)"

lemma rholds_owned: "rholds p = Some t \<Longrightarrow> t \<in> rowned p"
  by (cases p) auto

lemma rinv_goto:
  assumes "rinv s" "rowned p \<subseteq> rowned (rm_tasks s i)" "\<And>t. rholds p = Some t \<Longrightarrow> t = rm_serving s"
  shows "rinv (rgoto i p s)"
  using assms unfolding rinv_def rgoto_def by (auto; blast)

lemma rinv_release:
  assumes inv: "rinv s" and h: "rholds (rm_tasks s i) = Some t" and p: "rowned p = {}" "rholds p = None"
  shows "rinv (rgoto i p (s\<lparr>rm_serving := Suc (rm_serving s)\<rparr>))"
proof -
  have "rholds (rm_tasks s k) = None" if "k \<noteq> i" for k
  proof (cases "rholds (rm_tasks s k)")
    case (Some u)
    with inv h have "u = t" unfolding rinv_def by metis
    with Some h rholds_owned have "t \<in> rowned (rm_tasks s k)" "t \<in> rowned (rm_tasks s i)" by blast+
    with inv that show ?thesis unfolding rinv_def by blast
  qed
  with inv p show ?thesis unfolding rinv_def rgoto_def by (auto split: if_splits)
qed

lemma rinv_take:
  assumes inv: "rinv s" and idle: "rm_tasks s i = RIdle"
  shows "rinv (rgoto i (RPoison (rm_next s)) (s\<lparr>rm_next := Suc (rm_next s)\<rparr>))"
proof -
  have sub: "rowned (rm_tasks s k) \<subseteq> {..<rm_next s}" for k using inv unfolding rinv_def by blast
  have "rm_next s \<notin> rowned (rm_tasks s k)" "rowned (rm_tasks s k) \<subseteq> {..<Suc (rm_next s)}" for k
    using sub [of k] by auto
  with inv show ?thesis unfolding rinv_def rgoto_def by auto
qed

lemma rinv_step:
  assumes "rinv s"
  shows "rinv (rstep ok i s)"
proof (cases "rm_tasks s i")
  case (RHold t)
  then have "t = rm_serving s" using assms unfolding rinv_def by (metis rholds.simps(1))
  moreover have "rinv (s\<lparr>rm_poisoned := True, rm_torn := True\<rparr>)" using assms by (simp add: rinv_def)
  ultimately show ?thesis
    using assms RHold
    by (cases ok) (auto simp: rstep_def intro: rinv_release [where t = t] rinv_goto)
qed (use assms in \<open>auto simp: rstep_def intro: rinv_goto rinv_take rinv_release\<close>)

lemma rinv_reach: "rreach s \<Longrightarrow> rinv s"
proof (induction rule: rreach.induct)
  case rinit
  show ?case by (simp add: rm_init_def rinv_def)
qed (rule rinv_step)

text \<open>
  Mutual exclusion of readers. In every reachable state at most one task reads from the
  control stream, and it does so with the ticket being served.
\<close>

theorem reader_mutual_exclusion:
  assumes "rreach s" and "rholds (rm_tasks s i) = Some t" and "rholds (rm_tasks s k) = Some u"
  shows "i = k \<and> t = rm_serving s"
proof -
  note inv = rinv_reach [OF assms(1)]
  have tu: "t = rm_serving s" "u = rm_serving s"
    using inv assms(2,3) unfolding rinv_def by blast+
  with rholds_owned [OF assms(2)] rholds_owned [OF assms(3)] inv show ?thesis
    unfolding rinv_def by blast
qed

lemma rreach_run: "rreach (foldl (\<lambda>s (ok, i). rstep ok i s) rm_init xs)"
  by (induction xs rule: rev_induct) (auto intro: rreach.intros split: prod.split)

theorem reader_mutual_exclusion_witness:
  "\<exists>s. rreach s \<and> rholds (rm_tasks s 0) = Some 0 \<and> rm_serving s = 0"
proof -
  let ?s = "foldl (\<lambda>s (ok, i). rstep ok i s) rm_init [(True, 0), (True, 0), (True, 0)]"
  have h: "rholds (rm_tasks ?s 0) = Some 0" by (simp add: rstep_def rm_init_def rgoto_def)
  with reader_mutual_exclusion [OF rreach_run h h] rreach_run show ?thesis by metis
qed

text \<open>
  The order of the two checks lets a reader through: it sees an unpoisoned session, the holder
  before it then fails, poisons and releases, and the reader finds its ticket served and reads
  on from inside the broken message.
\<close>

theorem reader_poison_race:
  "\<exists>s. rreach s \<and> rm_torn s \<and> rm_poisoned s \<and> rm_tasks s 1 = RHold 1"
proof -
  let ?s = "foldl (\<lambda>s (ok, i). rstep ok i s) rm_init
    [(True, 0), (True, 1), (True, 0), (True, 0), (True, 1), (False, 0), (True, 0), (True, 1)]"
  have "rm_torn ?s \<and> rm_poisoned ?s \<and> rm_tasks ?s 1 = RHold 1"
    by (simp add: rstep_def rm_init_def rgoto_def)
  with rreach_run show ?thesis by blast
qed

end
