(* ===== verification/Ticket_Progress.thy ===== *)
theory Ticket_Progress
  imports Tickets
begin

text \<open>
  The queue of writers moves on (\<open>src/conversation.rs\<close>, \<open>acquire_writer\<close>): every outstanding ticket
  is accounted for, a waiter whose turn has come was notified, and so the task whose ticket is
  served can finish by itself.
\<close>

subsection \<open>Tickets accounted for, waiters notified\<close>

definition covered :: "machine \<Rightarrow> bool" where
  "covered s \<longleftrightarrow> (\<not> m_poisoned s \<longrightarrow>
     (\<forall>t. m_serving s \<le> t \<longrightarrow> t < m_next s \<longrightarrow> t \<in> m_autos s \<or> (\<exists>i. t \<in> owned (m_tasks s i))))"

definition woken :: "machine \<Rightarrow> bool" where
  "woken s \<longleftrightarrow> (\<forall>i t j. m_tasks s i = Sleep t j False \<longrightarrow> m_serving s \<noteq> t)"

lemma coveredD:
  assumes "covered s" "\<not> m_poisoned s" "m_serving s \<le> t" "t < m_next s"
  obtains "t \<in> m_autos s" | i where "t \<in> owned (m_tasks s i)"
  using assms unfolding covered_def by blast

lemma covered_notify [simp]: "covered (notify_waiters s) = covered s"
  by (simp add: covered_def)

lemma covered_goto:
  assumes "covered s" "owned (m_tasks s i) \<subseteq> owned p"
  shows "covered (goto i p s)"
  using assms unfolding covered_def by (auto; metis subsetD)

lemma covered_poisoned: "m_poisoned s \<Longrightarrow> covered s"
  by (simp add: covered_def)

lemma covered_advance:
  assumes "covered s" "owned (m_tasks s i) \<subseteq> insert (m_serving s) (owned p)"
  shows "covered (goto i p (m_guard_drop s))"
  unfolding covered_def
proof (intro impI allI)
  fix t
  assume "\<not> m_poisoned (goto i p (m_guard_drop s))" "m_serving (goto i p (m_guard_drop s)) \<le> t"
    "t < m_next (goto i p (m_guard_drop s))"
  then have t: "\<not> m_poisoned s" "m_serving s < t" "t < m_next s" by (simp_all add: m_guard_drop_def)
  then have le: "m_serving s \<le> t" by simp
  show "t \<in> m_autos (goto i p (m_guard_drop s)) \<or> (\<exists>k. t \<in> owned (m_tasks (goto i p (m_guard_drop s)) k))"
    using assms(1) t(1) le t(3)
  proof (cases rule: coveredD)
    case (2 k)
    then show ?thesis using assms(2) t(2) by (intro disjI2 exI [of _ k]) (auto simp: m_guard_drop_def)
  qed (simp add: m_guard_drop_def)
qed

lemma covered_writes [simp]:
  "covered (wrote_ok t bs w s) = covered s" "covered (wrote_err b w s) = covered s"
  by (simp_all add: covered_def wrote_ok_def wrote_err_def)

lemma covered_micro:
  assumes "covered s" "ticket_inv s" "micro V i s = Some s'"
  shows "covered s'"
proof (cases "m_tasks s i")
  case (DrainCheck t j c)
  show ?thesis
  proof (cases "c \<in> m_autos s")
    case True
    have "covered (goto i (DrainPoison t j c) (s\<lparr>m_autos := m_autos s - {c}\<rparr>))"
      unfolding covered_def
    proof (intro impI allI)
      fix u
      let ?s = "goto i (DrainPoison t j c) (s\<lparr>m_autos := m_autos s - {c}\<rparr>)"
      assume "\<not> m_poisoned ?s" "m_serving ?s \<le> u" "u < m_next ?s"
      then have "\<not> m_poisoned s" "m_serving s \<le> u" "u < m_next s" by simp_all
      with assms(1) show "u \<in> m_autos ?s \<or> (\<exists>k. u \<in> owned (m_tasks ?s k))"
      proof (cases rule: coveredD)
        case 1
        then show ?thesis by (cases "u = c") (auto intro: exI [of _ i])
      next
        case (2 k)
        then show ?thesis using DrainCheck by (intro disjI2 exI [of _ k]) auto
      qed
    qed
    with assms DrainCheck True show ?thesis by (auto simp: micro_def)
  next
    case False
    with assms DrainCheck show ?thesis by (auto simp: micro_def intro: covered_goto)
  qed
next
  case (DrainHold t j c)
  then have "c = m_serving s" using ticket_invD(5) [OF assms(2), of i] by simp
  with assms DrainHold show ?thesis
    by (auto simp: micro_def intro!: covered_advance split: prod.splits sum.splits)
next
  case (Hold t j)
  then have "t = m_serving s" using ticket_invD(5) [OF assms(2), of i] by simp
  then have own: "owned (m_tasks s i) \<subseteq> insert (m_serving s) (owned Idle)" using Hold by simp
  have "covered (goto i Idle (m_guard_drop (wrote_ok t bs w s)))" for bs w
    by (rule covered_advance) (use assms(1) own in simp_all)
  moreover have "covered (goto i p (m_poison u))" for p u by (simp add: m_poison_def covered_poisoned)
  ultimately show ?thesis using assms(3) Hold by (auto simp: micro_def split: prod.splits sum.splits)
next
  case (Torn t)
  then have "t = m_serving s" using ticket_invD(5) [OF assms(2), of i] by simp
  with assms Torn show ?thesis by (auto simp: micro_def intro!: covered_advance)
next
  case (DrainFailed t j)
  with assms(3) show ?thesis by (auto simp: micro_def m_poison_def covered_poisoned)
qed (use assms in \<open>auto simp: micro_def intro: covered_poisoned covered_goto split: if_splits\<close>)

lemma woken_goto:
  assumes "woken s" "\<And>t j. p = Sleep t j False \<Longrightarrow> m_serving s \<noteq> t"
  shows "woken (goto i p s)"
  using assms unfolding woken_def by auto

lemma notified_awake: "notified p \<noteq> Sleep t j False"
  by (cases p) auto

lemma woken_notify: "woken (notify_waiters s)"
  by (simp add: woken_def notified_awake)

lemma woken_micro:
  assumes "woken s" "micro V i s = Some s'"
  shows "woken s'"
proof -
  have drop: "woken (m_guard_drop u)" for u by (simp add: m_guard_drop_def woken_notify)
  have poison: "woken (m_poison u)" for u by (simp add: m_poison_def woken_notify)
  have autos: "woken (s\<lparr>m_autos := a\<rparr>)" for a using assms(1) by (simp add: woken_def)
  show ?thesis
    using assms drop poison autos
    by (cases "m_tasks s i") (auto simp: micro_def intro!: woken_goto split: if_splits prod.splits sum.splits)
qed

lemma queue_reach: "reach V w s \<Longrightarrow> covered s \<and> woken s"
proof (induction rule: reach.induct)
  case init
  show ?case by (simp add: m_init_def covered_def woken_def)
next
  case (step s s')
  note inv = inv_reach [OF step(1)]
  from step(2) step.IH inv show ?case
  proof (induction rule: step.induct)
    case (take s i)
    have "covered (goto i (Owned (m_next s)) (s\<lparr>m_next := Suc (m_next s)\<rparr>))"
      using take(1,3) unfolding covered_def by (auto simp: less_Suc_eq; metis owned.simps(1) empty_iff)
    moreover have "woken (s\<lparr>m_next := Suc (m_next s)\<rparr>)" using take(3) by (simp add: woken_def)
    then have "woken (goto i (Owned (m_next s)) (s\<lparr>m_next := Suc (m_next s)\<rparr>))" by (rule woken_goto) simp
    ultimately show ?case by simp
  next
    case (start s i t j)
    then show ?case by (auto intro!: covered_goto woken_goto)
  next
    case (drop s i t)
    have "covered (goto i Idle (s\<lparr>m_autos := insert t (m_autos s)\<rparr>))"
      using drop(1,2) unfolding covered_def by (auto; metis owned.simps(2) singletonD)
    then have "covered (goto i Idle (notify_waiters (s\<lparr>m_autos := insert t (m_autos s)\<rparr>)))"
      unfolding covered_def by (auto split: if_splits)
    moreover have "woken (goto i Idle (notify_waiters (s\<lparr>m_autos := insert t (m_autos s)\<rparr>)))"
      by (rule woken_goto) (simp_all add: woken_notify)
    ultimately show ?case by simp
  next
    case (run i s s')
    then show ?case using covered_micro woken_micro by blast
  qed
qed

subsection \<open>The task whose ticket is served finishes by itself\<close>

text \<open>A task running alone: \<open>k\<close> of its atomic steps with no other task in between.\<close>

primrec alone :: "varint_api \<Rightarrow> nat \<Rightarrow> nat \<Rightarrow> machine \<Rightarrow> machine option" where
  "alone V i 0 s = Some s"
| "alone V i (Suc k) s = (case micro V i s of None \<Rightarrow> None | Some s' \<Rightarrow> alone V i k s')"

text \<open>Within \<open>n\<close> steps of task \<open>i\<close> the turn passes on from ticket \<open>t\<close>, or the conversation is poisoned.\<close>

definition passes :: "varint_api \<Rightarrow> nat \<Rightarrow> nat \<Rightarrow> nat \<Rightarrow> machine \<Rightarrow> bool" where
  "passes V i n t s \<longleftrightarrow>
     (\<exists>k \<le> n. \<exists>s'. alone V i k s = Some s' \<and> (m_poisoned s' \<or> m_serving s' = Suc t))"

lemma passes_done: "m_poisoned s \<or> m_serving s = Suc t \<Longrightarrow> passes V i n t s"
  unfolding passes_def by (intro exI [of _ 0]) simp

lemma passes_step:
  assumes "micro V i s = Some s'" "passes V i n t s'"
  shows "passes V i (Suc n) t s"
proof -
  from assms(2) obtain k s'' where "k \<le> n" "alone V i k s' = Some s''"
    "m_poisoned s'' \<or> m_serving s'' = Suc t"
    unfolding passes_def by blast
  with assms(1) show ?thesis unfolding passes_def by (intro exI [of _ "Suc k"]) simp
qed

lemma passes_le: "passes V i n t s \<Longrightarrow> n \<le> m \<Longrightarrow> passes V i m t s"
  unfolding passes_def by (meson order_trans)

lemma passes_now:
  assumes "micro V i s = Some s'" "m_poisoned s' \<or> m_serving s' = Suc t"
  shows "passes V i (Suc 0) t s"
  by (rule passes_step [OF assms(1) passes_done [OF assms(2)]])

lemma passes_hold:
  assumes "m_tasks s i = Hold t j" "m_serving s = t"
  shows "passes V i (Suc 0) t s"
proof (cases "run_job V j (m_writer s)")
  case (Pair r w)
  then show ?thesis using assms
    by (cases r; simp) (rule passes_now, simp add: micro_def, simp add: m_guard_drop_def m_poison_def)+
qed

lemma passes_drain_hold:
  assumes "m_tasks s i = DrainHold t j c" "m_serving s = c"
  shows "passes V i (Suc 0) c s"
proof (cases "auto_failure_write V (m_writer s)")
  case (Pair r w)
  then show ?thesis using assms
    by (cases r; simp) (rule passes_now, simp add: micro_def, simp add: m_guard_drop_def)+
qed

lemma passes_acq_serve:
  "m_tasks s i = AcqServe t j \<Longrightarrow> m_serving s = t \<Longrightarrow> passes V i (Suc (Suc 0)) t s"
  by (rule passes_step [where s' = "goto i (Hold t j) s"])
    (simp_all add: micro_def passes_hold [where j = j])

lemma passes_drain_serve:
  "m_tasks s i = DrainServe t j c \<Longrightarrow> m_serving s = c \<Longrightarrow> passes V i (Suc (Suc 0)) c s"
  by (rule passes_step [where s' = "goto i (DrainHold t j c) s"])
    (simp_all add: micro_def passes_drain_hold [where t = t and j = j])

lemma passes_drain_poison:
  "m_tasks s i = DrainPoison t j c \<Longrightarrow> m_serving s = c \<Longrightarrow> \<not> m_poisoned s \<Longrightarrow> passes V i 3 c s"
  unfolding numeral_3_eq_3
  by (rule passes_step [where s' = "goto i (DrainServe t j c) s"])
    (simp_all add: micro_def passes_drain_serve [where t = t and j = j])

text \<open>A waiter whose turn has come, from any of its program points.\<close>

fun points_left :: "pc \<Rightarrow> nat" where
  "points_left (Sleep t j b) = 10"
| "points_left (Loop t j) = 9"
| "points_left (DrainCheck t j c) = 8"
| "points_left (Check1 t j) = 7"
| "points_left (Enable t j) = 6"
| "points_left (PoisonCheck t j b) = 5"
| "points_left (Check2 t j b) = 4"
| "points_left (AcqPoison t j) = 3"
| "points_left p = 0"

fun waits :: "nat \<Rightarrow> pc \<Rightarrow> bool" where
  "waits n (Sleep t j b) = (t = n \<and> b)"
| "waits n (Loop t j) = (t = n)"
| "waits n (DrainCheck t j c) = (t = n)"
| "waits n (Check1 t j) = (t = n)"
| "waits n (Enable t j) = (t = n)"
| "waits n (PoisonCheck t j b) = (t = n)"
| "waits n (Check2 t j b) = (t = n)"
| "waits n (AcqPoison t j) = (t = n)"
| "waits n p = False"

lemma waits_micro:
  assumes "waits (m_serving s) (m_tasks s i)" "\<not> m_poisoned s" "m_serving s \<notin> m_autos s"
    "m_autos s \<subseteq> {m_serving s..}" "local_ok (m_serving s) (m_tasks s i)"
  obtains p where "micro V i s = Some (goto i p s)"
    "waits (m_serving s) p \<and> local_ok (m_serving s) p \<and> points_left p < points_left (m_tasks s i) \<or>
     (\<exists>j. p = AcqServe (m_serving s) j) \<and> 3 \<le> points_left (m_tasks s i)"
proof (cases "m_tasks s i")
  case (DrainCheck t j c)
  with assms have "c \<notin> m_autos s" by (auto dest!: subsetD)
  with DrainCheck assms show ?thesis by (intro that) (auto simp: micro_def)
qed (use assms in \<open>auto simp: micro_def intro: that\<close>)

lemma passes_waits:
  assumes "waits (m_serving s) (m_tasks s i)" "\<not> m_poisoned s" "m_serving s \<notin> m_autos s"
    "m_autos s \<subseteq> {m_serving s..}" "local_ok (m_serving s) (m_tasks s i)"
  shows "passes V i (points_left (m_tasks s i)) (m_serving s) s"
  using assms
proof (induction "points_left (m_tasks s i)" arbitrary: s rule: less_induct)
  case less
  obtain p where m: "micro V i s = Some (goto i p s)"
    and "waits (m_serving s) p \<and> local_ok (m_serving s) p \<and> points_left p < points_left (m_tasks s i) \<or>
     (\<exists>j. p = AcqServe (m_serving s) j) \<and> 3 \<le> points_left (m_tasks s i)"
    using waits_micro [OF less.prems] by blast
  then show ?case
  proof (elim disjE conjE exE)
    assume w: "waits (m_serving s) p" "local_ok (m_serving s) p"
      and l: "points_left p < points_left (m_tasks s i)"
    have n: "passes V i (points_left p) (m_serving s) (goto i p s)"
      using less.hyps [of "goto i p s"] w l less.prems by simp
    show ?thesis by (rule passes_le [OF passes_step [OF m n]]) (use l in simp)
  next
    fix j assume p: "p = AcqServe (m_serving s) j" and l: "3 \<le> points_left (m_tasks s i)"
    have n: "passes V i (Suc (Suc 0)) (m_serving s) (goto i p s)"
      by (rule passes_acq_serve [where j = j]) (simp_all add: p)
    show ?thesis by (rule passes_le [OF passes_step [OF m n]]) (use l in simp)
  qed
qed

lemma points_left_le: "points_left p \<le> 10"
  by (cases p) simp_all

text \<open>
  C11: the queue of writers moves on. In every reachable state of a conversation that is not
  poisoned, when some ticket is outstanding, the ticket being served belongs to a task that passes
  the turn on within ten steps of its own, whatever the other tasks have done before (its
  notification is never lost), or to a request the application has decoded and not answered yet,
  or to a dropped request whose failure response the next arriving writer sends.
\<close>

theorem queue_progress:
  assumes "reach V w s" "\<not> m_poisoned s" "m_serving s < m_next s"
  shows "(\<exists>i. \<exists>k \<le> 10. \<exists>s'. alone V i k s = Some s' \<and>
        (m_poisoned s' \<or> m_serving s' = Suc (m_serving s))) \<or>
     (\<exists>i. m_tasks s i = Owned (m_serving s)) \<or> m_serving s \<in> m_autos s"
proof (cases "m_serving s \<in> m_autos s")
  case False
  note inv = ticket_invD [OF inv_reach [OF assms(1)]]
  have q: "covered s" "woken s" using queue_reach [OF assms(1)] by simp_all
  from q(1) assms(2) order_refl assms(3) obtain i where i: "m_serving s \<in> owned (m_tasks s i)"
    by (rule coveredD) (use False in auto)
  have loc: "local_ok (m_serving s) (m_tasks s i)" and sub: "m_autos s \<subseteq> {m_serving s..}"
    using inv(5) [of i] inv(2) by auto
  have "m_tasks s i = Owned (m_serving s) \<or> passes V i 10 (m_serving s) s"
  proof (cases "waits (m_serving s) (m_tasks s i)")
    case True
    from passes_waits [OF this assms(2) False sub loc] points_left_le
    show ?thesis by (blast intro: passes_le)
  next
    case w: False
    have fail: "passes V i (Suc 0) (m_serving s) s" if "m_tasks s i = DrainFailed t j" for t j
      using that by (intro passes_now) (simp add: micro_def, simp add: m_poison_def)
    have torn: "passes V i (Suc 0) (m_serving s) s" if "m_tasks s i = Torn t" for t
      using that by (intro passes_now) (simp add: micro_def, simp add: m_guard_drop_def)
    show ?thesis
      using i loc w q(2) assms(2) fail torn unfolding woken_def
      by (cases "m_tasks s i")
        (auto intro: passes_le passes_drain_poison passes_drain_serve passes_drain_hold
          passes_acq_serve passes_hold)
  qed
  then show ?thesis unfolding passes_def by blast
qed simp

theorem queue_progress_witness:
  "\<exists>s. reach quic_varint fresh_writer s \<and> (\<exists>i. \<exists>k \<le> 10. \<exists>s'. alone quic_varint i k s = Some s' \<and>
     (m_poisoned s' \<or> m_serving s' = 1))"
proof -
  have "\<exists>s. schedule quic_varint [A_take 0, A_take 1, A_start 1 J_Failure, A_run 1, A_run 1, A_run 1, A_run 1,
       A_run 1, A_run 1, A_start 0 J_Failure] (m_init fresh_writer) = Some s \<and> \<not> m_poisoned s \<and>
     m_serving s = 0 \<and> m_next s = 2 \<and> m_autos s = {} \<and>
     m_tasks s = (\<lambda>_. Idle)(0 := Loop 0 J_Failure, 1 := Sleep 1 J_Failure False)"
    by (simp add: micro_def m_init_def goto_def fun_eq_iff)
  then obtain s where s: "schedule quic_varint [A_take 0, A_take 1, A_start 1 J_Failure, A_run 1, A_run 1,
       A_run 1, A_run 1, A_run 1, A_run 1, A_start 0 J_Failure] (m_init fresh_writer) = Some s"
      "\<not> m_poisoned s" "m_serving s = 0" "m_next s = 2" "m_autos s = {}"
      "m_tasks s = (\<lambda>_. Idle)(0 := Loop 0 J_Failure, 1 := Sleep 1 J_Failure False)" by blast
  have r: "reach quic_varint fresh_writer s" by (rule schedule_reach [OF reach.init s(1)])
  from queue_progress [OF r s(2)] r s(3-6) show ?thesis by (auto split: if_splits)
qed

end
