(* ===== verification/Config_Parser.thy ===== *)
theory Config_Parser
  imports Dssh_Prelude
begin

text \<open>
  The ssh_config parser: spans and locations of \<open>src/config.rs\<close>, the PEG grammar of
  \<open>src/config/parser.rs\<close> and the tokenizer. A Rust \<open>str\<close> is its list of bytes, so offsets are
  the source's byte offsets. Each grammar rule is a function from the position and the input
  at that position to the value it produces and the number of bytes it consumes, with PEG's
  ordered choice and greedy repetition.
\<close>

record cspan =
  sp_start :: nat
  sp_end :: nat

record location =
  loc_path :: string
  loc_span :: cspan
  loc_line :: nat
  loc_column :: nat

record 'a located =
  lc_value :: 'a
  lc_location :: location

definition with_value :: "'a located \<Rightarrow> 'b \<Rightarrow> 'b located" where
  "with_value l v = \<lparr>lc_value = v, lc_location = lc_location l\<rparr>"

definition map_located :: "('a \<Rightarrow> 'b) \<Rightarrow> 'a located \<Rightarrow> 'b located" where
  "map_located f l = \<lparr>lc_value = f (lc_value l), lc_location = lc_location l\<rparr>"

definition slice :: "nat \<Rightarrow> nat \<Rightarrow> string \<Rightarrow> string" where
  "slice a b s = take (b - a) (drop a s)"

subsection \<open>Characters and trimming\<close>

definition LF :: char where "LF = CHR 0x0A"
definition CR :: char where "CR = CHR 0x0D"
definition TAB :: char where "TAB = CHR 0x09"
definition QUOTE :: char where "QUOTE = CHR 0x22"

definition code :: "char \<Rightarrow> nat" where
  "code c = of_char c"

definition blank :: "char \<Rightarrow> bool" where
  "blank c \<longleftrightarrow> c = CHR '' '' \<or> c = TAB"

definition not_newline :: "char \<Rightarrow> bool" where
  "not_newline c \<longleftrightarrow> c \<noteq> LF \<and> c \<noteq> CR"

definition letter :: "char \<Rightarrow> bool" where
  "letter c \<longleftrightarrow> 97 \<le> code c \<and> code c \<le> 122 \<or> 65 \<le> code c \<and> code c \<le> 90"

definition digit :: "char \<Rightarrow> bool" where
  "digit c \<longleftrightarrow> 48 \<le> code c \<and> code c \<le> 57"

text \<open>
  The UTF-8 encodings of the characters with the Unicode property \<open>White_Space\<close>, which
  \<open>str::trim\<close> and \<open>str::trim_end\<close> remove.
\<close>

fun white_space :: "nat list \<Rightarrow> bool" where
  "white_space [a] = (9 \<le> a \<and> a \<le> 13 \<or> a = 32)"
| "white_space [a, b] = (a = 0xC2 \<and> (b = 0x85 \<or> b = 0xA0))"
| "white_space [a, b, c] =
     (a = 0xE1 \<and> b = 0x9A \<and> c = 0x80 \<or>
      a = 0xE2 \<and> b = 0x80 \<and> (0x80 \<le> c \<and> c \<le> 0x8A \<or> c = 0xA8 \<or> c = 0xA9 \<or> c = 0xAF) \<or>
      a = 0xE2 \<and> b = 0x81 \<and> c = 0x9F \<or> a = 0xE3 \<and> b = 0x80 \<and> c = 0x80)"
| "white_space _ = False"

definition ws_front :: "string \<Rightarrow> nat" where
  "ws_front s = (if white_space (map code (take 1 s)) then 1
     else if white_space (map code (take 2 s)) then 2
     else if white_space (map code (take 3 s)) then 3 else 0)"

definition ws_back :: "string \<Rightarrow> nat" where
  "ws_back s = (if white_space (map code (drop (length s - 1) s)) then 1
     else if white_space (map code (drop (length s - 2) s)) then 2
     else if white_space (map code (drop (length s - 3) s)) then 3 else 0)"

lemma white_space_Nil [simp]: "\<not> white_space []"
  by simp

lemma ws_pos: "0 < ws_front s \<Longrightarrow> s \<noteq> []" "0 < ws_back s \<Longrightarrow> s \<noteq> []"
  by (auto simp: ws_front_def ws_back_def)

function trim_start :: "string \<Rightarrow> string" where
  "trim_start s = (if ws_front s = 0 then s else trim_start (drop (ws_front s) s))"
  by pat_completeness auto
termination by (relation "measure length") (use ws_pos in \<open>fastforce+\<close>)

function trim_end :: "string \<Rightarrow> string" where
  "trim_end s = (if ws_back s = 0 then s else trim_end (take (length s - ws_back s) s))"
  by pat_completeness auto
termination by (relation "measure length") (use ws_pos in \<open>fastforce+\<close>)

declare trim_start.simps [simp del] trim_end.simps [simp del]

definition trim :: "string \<Rightarrow> string" where
  "trim s = trim_start (trim_end s)"

subsection \<open>The grammar\<close>

record 'a spanned =
  s_value :: 'a
  s_span :: cspan

record raw_directive =
  rd_keyword :: "string spanned"
  rd_arguments :: "string spanned"

datatype raw_entry =
    RawEmpty cspan | RawComment "string spanned" | RawDirective raw_directive
  | RawUnknown "string spanned"

definition span_of :: "nat \<Rightarrow> nat \<Rightarrow> cspan" where
  "span_of a b = \<lparr>sp_start = a, sp_end = b\<rparr>"

definition spanned_of :: "'a \<Rightarrow> nat \<Rightarrow> nat \<Rightarrow> 'a spanned" where
  "spanned_of v a b = \<lparr>s_value = v, s_span = span_of a b\<rparr>"

text \<open>\<open>newline()\<close>: the bytes it consumes, 0 when it fails.\<close>

fun p_newline :: "string \<Rightarrow> nat" where
  "p_newline [] = 0"
| "p_newline (c # s) =
     (if c = CR then (case s of d # _ \<Rightarrow> if d = LF then 2 else 1 | [] \<Rightarrow> 1)
      else if c = LF then 1 else 0)"

text \<open>The lookahead \<open>&(newline() / ![_])\<close>.\<close>

definition p_eol :: "string \<Rightarrow> bool" where
  "p_eol s \<longleftrightarrow> 0 < p_newline s \<or> s = []"

definition blanks :: "string \<Rightarrow> nat" where
  "blanks s = length (takeWhile blank s)"

definition p_keyword :: "nat \<Rightarrow> string \<Rightarrow> (string spanned \<times> nat) option" where
  "p_keyword pos s = (case s of
       [] \<Rightarrow> None
     | c # t \<Rightarrow>
         if letter c then
           let k = c # takeWhile (\<lambda>d. letter d \<or> digit d) t in
           Some (spanned_of k pos (pos + length k), length k)
         else None)"

definition p_raw_arguments :: "nat \<Rightarrow> string \<Rightarrow> string spanned \<times> nat" where
  "p_raw_arguments pos s =
     (let v = takeWhile not_newline s; trimmed = trim_end v in
      (spanned_of trimmed pos (pos + length trimmed), length v))"

definition p_separator :: "string \<Rightarrow> nat option" where
  "p_separator s =
     (let n = blanks s in
      case drop n s of
        c # t \<Rightarrow> if c = CHR ''='' then Some (n + 1 + blanks t)
                 else if 0 < n then Some n else None
      | [] \<Rightarrow> if 0 < n then Some n else None)"

definition p_directive :: "nat \<Rightarrow> string \<Rightarrow> (raw_entry \<times> nat) option" where
  "p_directive pos s =
     (let n = blanks s in
      case p_keyword (pos + n) (drop n s) of
        None \<Rightarrow> None
      | Some (kw, k) \<Rightarrow>
          (case p_separator (drop (n + k) s) of
             Some m \<Rightarrow>
               (case p_raw_arguments (pos + n + k + m) (drop (n + k + m) s) of
                  (args, a) \<Rightarrow>
                    Some (RawDirective \<lparr>rd_keyword = kw, rd_arguments = args\<rparr>, n + k + m + a))
           | None \<Rightarrow>
               let b = blanks (drop (n + k) s); e = pos + n + k + b in
               Some (RawDirective \<lparr>rd_keyword = kw, rd_arguments = spanned_of [] e e\<rparr>, n + k + b)))"

definition p_comment :: "nat \<Rightarrow> string \<Rightarrow> (raw_entry \<times> nat) option" where
  "p_comment pos s =
     (let n = blanks s in
      case drop n s of
        c # t \<Rightarrow>
          if c = CHR ''#'' then
            let v = takeWhile not_newline t; m = n + 1 + length v in
            Some (RawComment (spanned_of (trim v) pos (pos + m)), m)
          else None
      | [] \<Rightarrow> None)"

definition p_empty_line :: "nat \<Rightarrow> string \<Rightarrow> (raw_entry \<times> nat) option" where
  "p_empty_line pos s =
     (if p_eol s then Some (RawEmpty (span_of pos pos), 0)
      else let n = blanks s in
        if 0 < n \<and> p_eol (drop n s) then Some (RawEmpty (span_of pos (pos + n)), n) else None)"

definition p_unknown_line :: "nat \<Rightarrow> string \<Rightarrow> (raw_entry \<times> nat) option" where
  "p_unknown_line pos s =
     (let v = takeWhile not_newline s in
      if v = [] then None else Some (RawUnknown (spanned_of v pos (pos + length v)), length v))"

definition p_line :: "nat \<Rightarrow> string \<Rightarrow> (raw_entry \<times> nat) option" where
  "p_line pos s = (case p_empty_line pos s of
       Some x \<Rightarrow> Some x
     | None \<Rightarrow> (case p_comment pos s of
         Some x \<Rightarrow> Some x
       | None \<Rightarrow> (case p_directive pos s of
           Some x \<Rightarrow> Some x
         | None \<Rightarrow> p_unknown_line pos s)))"

lemma p_newline_pos: "0 < p_newline s \<Longrightarrow> s \<noteq> []"
  by (cases s) auto

text \<open>The repetition \<open>(newline() line())*\<close>: the entries and the input left behind.\<close>

function p_rest :: "nat \<Rightarrow> string \<Rightarrow> raw_entry list \<times> nat \<times> string" where
  "p_rest pos s =
     (let n = p_newline s in
      if n = 0 then ([], pos, s)
      else case p_line (pos + n) (drop n s) of
        None \<Rightarrow> ([], pos, s)
      | Some (e, k) \<Rightarrow>
          (case p_rest (pos + n + k) (drop (n + k) s) of (es, q, t) \<Rightarrow> (e # es, q, t)))"
  by pat_completeness auto
termination
  by (relation "measure (\<lambda>(_, s). length s)") (auto dest: p_newline_pos intro!: diff_less)

definition p_config :: "string \<Rightarrow> raw_entry list option" where
  "p_config s = (case p_line 0 s of
       None \<Rightarrow> None
     | Some (e, k) \<Rightarrow>
         (case p_rest k (drop k s) of (es, q, t) \<Rightarrow>
            if drop (p_newline t) t = [] then Some (e # es) else None))"

definition parse :: "string \<Rightarrow> raw_entry list" where
  "parse input = (case p_config input of
       Some es \<Rightarrow> es
     | None \<Rightarrow> [RawUnknown (spanned_of input 0 (length input))])"

declare p_rest.simps [simp del]

subsection \<open>Source files\<close>

record source_file =
  sf_path :: string
  sf_content :: string
  sf_line_starts :: "nat list"

primrec line_starts_from :: "nat \<Rightarrow> string \<Rightarrow> nat list" where
  "line_starts_from i [] = []"
| "line_starts_from i (b # s) = (if b = LF then [Suc i] else []) @ line_starts_from (Suc i) s"

definition compute_line_starts :: "string \<Rightarrow> nat list" where
  "compute_line_starts content = 0 # line_starts_from 0 content"

definition source_file_new :: "string \<Rightarrow> string \<Rightarrow> source_file" where
  "source_file_new path content =
     \<lparr>sf_path = path, sf_content = content, sf_line_starts = compute_line_starts content\<rparr>"

text \<open>\<open>partition_point\<close> of the sorted line starts.\<close>

definition line_col :: "source_file \<Rightarrow> nat \<Rightarrow> nat \<times> nat" where
  "line_col f offset =
     (let line_idx = length (takeWhile (\<lambda>start. start \<le> offset) (sf_line_starts f)) - 1 in
      (line_idx + 1, offset - sf_line_starts f ! line_idx + 1))"

definition location_of :: "source_file \<Rightarrow> cspan \<Rightarrow> location" where
  "location_of f sp = (case line_col f (sp_start sp) of (line, column) \<Rightarrow>
     \<lparr>loc_path = sf_path f, loc_span = sp, loc_line = line, loc_column = column\<rparr>)"

definition locate :: "source_file \<Rightarrow> 'a spanned \<Rightarrow> 'a located" where
  "locate f s = \<lparr>lc_value = s_value s, lc_location = location_of f (s_span s)\<rparr>"

record directive =
  d_keyword :: "string located"
  d_arguments :: "string located"

datatype entry =
    EmptyEntry location | CommentEntry "string located" | DirectiveEntry directive
  | UnknownEntry "string located"

primrec locate_entry :: "source_file \<Rightarrow> raw_entry \<Rightarrow> entry" where
  "locate_entry f (RawEmpty sp) = EmptyEntry (location_of f sp)"
| "locate_entry f (RawComment s) = CommentEntry (locate f s)"
| "locate_entry f (RawDirective d) =
     DirectiveEntry \<lparr>d_keyword = locate f (rd_keyword d), d_arguments = locate f (rd_arguments d)\<rparr>"
| "locate_entry f (RawUnknown s) = UnknownEntry (locate f s)"

definition source_parse :: "source_file \<Rightarrow> entry list" where
  "source_parse f = map (locate_entry f) (parse (sf_content f))"

subsection \<open>Tokens\<close>

text \<open>The part of a located string between two byte offsets, with its own location.\<close>

definition sub_located :: "string located \<Rightarrow> nat \<Rightarrow> nat \<Rightarrow> string located" where
  "sub_located l a b =
     \<lparr>lc_value = slice a b (lc_value l),
      lc_location = (lc_location l)\<lparr>
        loc_span := span_of (sp_start (loc_span (lc_location l)) + a)
                            (sp_start (loc_span (lc_location l)) + b),
        loc_column := loc_column (lc_location l) + a\<rparr>\<rparr>"

definition find_quote :: "string \<Rightarrow> nat option" where
  "find_quote s = (let n = length (takeWhile (\<lambda>c. c \<noteq> QUOTE) s) in
     if n < length s then Some n else None)"

function tokenize_from :: "string located \<Rightarrow> nat \<Rightarrow> string located list" where
  "tokenize_from l i =
     (let s = lc_value l; i = i + blanks (drop i s) in
      if length s \<le> i then []
      else if s ! i = QUOTE then
        let content_start = i + 1;
            content_end = (case find_quote (drop content_start s) of
                             Some j \<Rightarrow> content_start + j | None \<Rightarrow> length s) in
        sub_located l content_start content_end
          # tokenize_from l (if content_end < length s then content_end + 1 else content_end)
      else
        let e = i + length (takeWhile (\<lambda>c. \<not> blank c \<and> c \<noteq> QUOTE) (drop i s)) in
        sub_located l i e # tokenize_from l e)"
  by pat_completeness auto
termination
proof (relation "measure (\<lambda>(l, i). length (lc_value l) - i)", goal_cases)
  case (2 l i s i' c e)
  then show ?case by (auto simp: find_quote_def Let_def split: option.splits if_splits)
next
  case (3 l i s i' e)
  then have "drop i' s = s ! i' # drop (Suc i') s" by (simp add: Cons_nth_drop_Suc)
  moreover have "\<not> blank (s ! i')"
  proof
    assume b: "blank (s ! i')"
    let ?d = "drop i s"
    have i': "i' = i + length (takeWhile blank ?d)" using 3 by (simp add: blanks_def)
    with 3 have "length (takeWhile blank ?d) < length ?d" by simp
    from nth_length_takeWhile [OF this] show False using b i' 3 by simp
  qed
  ultimately show ?case using 3 by auto
qed simp

definition tokenize :: "string located \<Rightarrow> string located list" where
  "tokenize l = tokenize_from l 0"

fun split_on :: "char \<Rightarrow> string \<Rightarrow> string list" where
  "split_on c [] = [[]]"
| "split_on c (d # s) =
     (if d = c then [] # split_on c s
      else case split_on c s of p # ps \<Rightarrow> (d # p) # ps | [] \<Rightarrow> [[d]])"

fun locate_parts :: "string located \<Rightarrow> nat \<Rightarrow> string list \<Rightarrow> string located list" where
  "locate_parts l offset [] = []"
| "locate_parts l offset (p # ps) =
     \<lparr>lc_value = p,
      lc_location = (lc_location l)\<lparr>
        loc_span := span_of (sp_start (loc_span (lc_location l)) + offset)
                            (sp_start (loc_span (lc_location l)) + offset + length p),
        loc_column := loc_column (lc_location l) + offset\<rparr>\<rparr>
     # locate_parts l (offset + length p + 1) ps"

definition split_comma :: "string located \<Rightarrow> string located list" where
  "split_comma l = locate_parts l 0 (split_on (CHR '','') (lc_value l))"

declare tokenize_from.simps [simp del]

end
