(* ===== verification/Config_Lines.thy ===== *)
theory Config_Lines
  imports Config_Parser
begin

text \<open>
  Properties of the ssh_config parser: locations point at the text they carry, line and column
  numbers count the line feeds before an offset, and the parser works line by line, with the
  exact condition under which one line makes it give up on the whole file.
\<close>

subsection \<open>Lines and columns\<close>

lemma line_starts_gt: "x \<in> set (line_starts_from i s) \<Longrightarrow> i < x"
  by (induction s arbitrary: i) (auto split: if_splits, fastforce)

lemma takeWhile_none: "(\<And>x. x \<in> set xs \<Longrightarrow> \<not> P x) \<Longrightarrow> takeWhile P xs = []"
  by (cases xs) auto

lemma takeWhile_line_starts:
  "i \<le> off \<Longrightarrow> off \<le> i + length s \<Longrightarrow>
   takeWhile (\<lambda>x. x \<le> off) (line_starts_from i s) = line_starts_from i (take (off - i) s)"
proof (induction s arbitrary: i)
  case (Cons b s)
  show ?case
  proof (cases "off = i")
    case True
    have "takeWhile (\<lambda>x. x \<le> off) (line_starts_from i (b # s)) = []"
      by (rule takeWhile_none) (use line_starts_gt True in fastforce)
    with True show ?thesis by simp
  next
    case False
    with Cons.prems have "Suc i \<le> off" by simp
    moreover from this have "off - i = Suc (off - Suc i)" by simp
    ultimately show ?thesis using Cons.IH [of "Suc i"] Cons.prems by simp
  qed
qed simp

lemma line_starts_append:
  "line_starts_from i (s @ t) = line_starts_from i s @ line_starts_from (i + length s) t"
  by (induction s arbitrary: i) auto

lemma length_line_starts: "length (line_starts_from i s) = length (filter (\<lambda>c. c = LF) s)"
  by (induction s arbitrary: i) auto

lemma last_line_start:
  "last (0 # line_starts_from 0 t) + length (takeWhile (\<lambda>c. c \<noteq> LF) (rev t)) = length t"
  by (induction t rule: rev_induct) (auto simp: line_starts_append)

lemma line_col_eq:
  assumes "off \<le> length content"
  shows "line_col (source_file_new path content) off =
    (length (filter (\<lambda>c. c = LF) (take off content)) + 1,
     length (takeWhile (\<lambda>c. c \<noteq> LF) (rev (take off content))) + 1)"
proof -
  let ?t = "take off content" and ?L = "line_starts_from 0 (take off content)"
  have tw: "takeWhile (\<lambda>x. x \<le> off) (compute_line_starts content) = 0 # ?L"
    using takeWhile_line_starts [of 0 off content] assms by (simp add: compute_line_starts_def)
  have "compute_line_starts content ! length ?L = (0 # ?L) ! length ?L"
    by (subst tw [symmetric], subst takeWhile_nth) (simp_all add: tw)
  also have "\<dots> = last (0 # ?L)" by (simp add: last_conv_nth)
  finally have nth: "compute_line_starts content ! length ?L = last (0 # ?L)" .
  have "off - last (0 # ?L) = length (takeWhile (\<lambda>c. c \<noteq> LF) (rev ?t))"
    using last_line_start [of ?t] assms by simp
  with tw nth show ?thesis
    by (simp add: line_col_def source_file_new_def Let_def length_line_starts)
qed

subsection \<open>Locations\<close>

definition anchored :: "string \<Rightarrow> string located \<Rightarrow> bool" where
  "anchored src l \<longleftrightarrow> (let sp = loc_span (lc_location l) in
     sp_start sp \<le> sp_end sp \<and> sp_end sp \<le> length src
     \<and> slice (sp_start sp) (sp_end sp) src = lc_value l)"

definition on_line_of :: "string located \<Rightarrow> string located \<Rightarrow> bool" where
  "on_line_of l t \<longleftrightarrow> loc_path (lc_location t) = loc_path (lc_location l)
     \<and> loc_line (lc_location t) = loc_line (lc_location l)
     \<and> loc_column (lc_location t) + sp_start (loc_span (lc_location l))
         = loc_column (lc_location l) + sp_start (loc_span (lc_location t))"

lemma slice_slice:
  "x \<le> y \<Longrightarrow> y \<le> b - a \<Longrightarrow> slice x y (slice a b src) = slice (a + x) (a + y) src"
  by (simp add: slice_def take_drop drop_drop min_def add.commute)

lemma slice_length: "a \<le> b \<Longrightarrow> b \<le> length src \<Longrightarrow> length (slice a b src) = b - a"
  by (simp add: slice_def)

lemma sub_anchored:
  assumes "anchored src l" "a \<le> b" "b \<le> length (lc_value l)"
  shows "anchored src (sub_located l a b) \<and> on_line_of l (sub_located l a b)"
proof -
  let ?sp = "loc_span (lc_location l)"
  from assms(1) have v: "lc_value l = slice (sp_start ?sp) (sp_end ?sp) src"
      "sp_start ?sp \<le> sp_end ?sp" "sp_end ?sp \<le> length src"
    by (simp_all add: anchored_def Let_def)
  then have "length (lc_value l) = sp_end ?sp - sp_start ?sp" by (simp add: slice_length)
  with v assms(2,3) show ?thesis
    by (simp add: anchored_def on_line_of_def sub_located_def span_of_def slice_slice Let_def)
qed

lemma tokens_anchored:
  "anchored src l \<Longrightarrow> t \<in> set (tokenize_from l i) \<Longrightarrow> anchored src t \<and> on_line_of l t"
proof (induction l i rule: tokenize_from.induct)
  case (1 l i)
  let ?s = "lc_value l"
  let ?i = "i + blanks (drop i ?s)"
  show ?case
  proof (cases "length ?s \<le> ?i")
    case True
    with "1.prems"(2) show ?thesis by (simp add: tokenize_from.simps [of l i])
  next
    case False
    note unf = tokenize_from.simps [of l i]
    show ?thesis
    proof (cases "?s ! ?i = QUOTE")
      case True
      define e where "e = (case find_quote (drop (?i + 1) ?s) of Some j \<Rightarrow> ?i + 1 + j | None \<Rightarrow> length ?s)"
      have e: "?i + 1 \<le> e" "e \<le> length ?s"
        using False by (auto simp: e_def find_quote_def Let_def split: option.splits if_splits)
      have "tokenize_from l i = sub_located l (?i + 1) e # tokenize_from l (if e < length ?s then e + 1 else e)"
        by (subst unf) (simp only: Let_def False True if_False if_True e_def simp_thms)
      with "1.prems"(2) have "t = sub_located l (?i + 1) e \<or>
          t \<in> set (tokenize_from l (if e < length ?s then e + 1 else e))" by simp
      with sub_anchored [OF "1.prems"(1) e] "1.IH"(1) [OF refl refl False True refl e_def "1.prems"(1)]
      show ?thesis by blast
    next
      case nq: False
      define e where "e = ?i + length (takeWhile (\<lambda>c. \<not> blank c \<and> c \<noteq> QUOTE) (drop ?i ?s))"
      have e: "?i \<le> e" "e \<le> length ?s"
        using False length_takeWhile_le [of "\<lambda>c. \<not> blank c \<and> c \<noteq> QUOTE" "drop ?i ?s"]
        by (auto simp: e_def)
      have "tokenize_from l i = sub_located l ?i e # tokenize_from l e"
        by (subst unf) (simp only: Let_def False nq if_False e_def simp_thms)
      with "1.prems"(2) have "t = sub_located l ?i e \<or> t \<in> set (tokenize_from l e)" by simp
      with sub_anchored [OF "1.prems"(1) e] "1.IH"(2) [OF refl refl False nq e_def "1.prems"(1)]
      show ?thesis by blast
    qed
  qed
qed



fun join_on :: "char \<Rightarrow> string list \<Rightarrow> string" where
  "join_on c [] = []"
| "join_on c [p] = p"
| "join_on c (p # ps) = p @ c # join_on c ps"

lemma split_on_ne [simp]: "split_on c s \<noteq> []"
  by (induction s) (auto split: list.splits)

lemma join_split: "join_on c (split_on c s) = s"
proof (induction s)
  case (Cons d s)
  obtain p ps where sp: "split_on c s = p # ps" using split_on_ne by (cases "split_on c s") auto
  with Cons show ?case by (cases ps) auto
qed simp

lemma split_no_sep: "p \<in> set (split_on c s) \<Longrightarrow> c \<notin> set p"
  by (induction s arbitrary: p) (auto split: if_splits list.splits)

lemma locate_parts_sub:
  "drop off (lc_value l) = join_on (CHR '','') ps \<Longrightarrow> off \<le> length (lc_value l) \<Longrightarrow>
   t \<in> set (locate_parts l off ps) \<Longrightarrow>
   \<exists>a b. a \<le> b \<and> b \<le> length (lc_value l) \<and> t = sub_located l a b"
proof (induction ps arbitrary: off)
  case (Cons p ps)
  let ?c = "CHR '',''"
  have pre: "drop off (lc_value l) = p @ (if ps = [] then [] else ?c # join_on ?c ps)"
    using Cons.prems(1) by (cases ps) auto
  then have len: "off + length p \<le> length (lc_value l)"
    using Cons.prems(2) by (metis add.commute le_add2 le_diff_conv length_append length_drop
        ordered_cancel_comm_monoid_diff_class.le_diff_conv2)
  have p: "slice off (off + length p) (lc_value l) = p" using pre by (simp add: slice_def)
  show ?case
  proof (cases "t \<in> set (locate_parts l (off + length p + 1) ps)")
    case False
    with Cons.prems(3) p have "t = sub_located l off (off + length p)"
      by (simp add: sub_located_def add.assoc)
    with len show ?thesis by (intro exI [of _ off] exI [of _ "off + length p"]) simp
  next
    case True
    then have "ps \<noteq> []" by auto
    with pre have d: "drop off (lc_value l) = p @ ?c # join_on ?c ps" by simp
    then have "drop (off + length p + 1) (lc_value l) = join_on ?c ps"
      by (metis Suc_eq_plus1 add.commute append_Cons append_eq_conv_conj append_self_conv2 drop_Suc_Cons drop_drop)
    moreover have "off + length p + 1 \<le> length (lc_value l)"
      using arg_cong [OF d, of length] by simp
    ultimately show ?thesis using Cons.IH True by blast
  qed
qed simp

lemma split_comma_anchored:
  "anchored src l \<Longrightarrow> t \<in> set (split_comma l) \<Longrightarrow> anchored src t \<and> on_line_of l t"
  unfolding split_comma_def
  using locate_parts_sub [of 0 l "split_on (CHR '','') (lc_value l)" t] sub_anchored
  by (auto simp: join_split)

subsection \<open>Soundness of spans\<close>

definition sound_span :: "string \<Rightarrow> string spanned \<Rightarrow> bool" where
  "sound_span s x \<longleftrightarrow> sp_start (s_span x) \<le> sp_end (s_span x) \<and> sp_end (s_span x) \<le> length s
     \<and> slice (sp_start (s_span x)) (sp_end (s_span x)) s = s_value x"

primrec raw_sound :: "string \<Rightarrow> raw_entry \<Rightarrow> bool" where
  "raw_sound s (RawEmpty sp) = True"
| "raw_sound s (RawComment c) = True"
| "raw_sound s (RawDirective d) = (sound_span s (rd_keyword d) \<and> sound_span s (rd_arguments d))"
| "raw_sound s (RawUnknown u) = sound_span s u"

lemma trim_end_prefix: "\<exists>w. v = trim_end v @ w"
proof (induction v rule: trim_end.induct)
  case (1 v)
  show ?case
  proof (cases "ws_back v = 0")
    case True
    then show ?thesis by (simp add: trim_end.simps [of v])
  next
    case False
    from "1.IH" [OF False] obtain w where
      "take (length v - ws_back v) v = trim_end (take (length v - ws_back v) v) @ w" by blast
    then have "v = trim_end (take (length v - ws_back v) v) @ w @ drop (length v - ws_back v) v"
      by (metis append.assoc append_take_drop_id)
    with False show ?thesis by (metis trim_end.simps)
  qed
qed

lemma sound_spanned:
  assumes "pos \<le> length s" "drop pos s = v @ w"
  shows "sound_span s (spanned_of v pos (pos + length v))"
proof -
  have "length s - pos = length v + length w" using arg_cong [OF assms(2), of length] by simp
  with assms have "pos + length v \<le> length s" by linarith
  with assms(2) show ?thesis by (simp add: sound_span_def spanned_of_def span_of_def slice_def)
qed

lemma blanks_le: "blanks s \<le> length s"
  by (simp add: blanks_def length_takeWhile_le)

lemma keyword_sound:
  assumes "p_keyword pos (drop pos s) = Some (kw, k)" "pos \<le> length s"
  shows "sound_span s kw \<and> pos + k \<le> length s"
proof -
  obtain c t where d: "drop pos s = c # t" using assms(1) by (auto simp: p_keyword_def split: list.splits)
  define w where "w = dropWhile (\<lambda>d. letter d \<or> digit d) t"
  have t: "t = takeWhile (\<lambda>d. letter d \<or> digit d) t @ w" by (simp add: w_def)
  with d have v: "drop pos s = (c # takeWhile (\<lambda>d. letter d \<or> digit d) t) @ w" by simp
  have kw: "kw = spanned_of (c # takeWhile (\<lambda>d. letter d \<or> digit d) t) pos (pos + k)"
      "k = length (c # takeWhile (\<lambda>d. letter d \<or> digit d) t)"
    using assms(1) d by (auto simp: p_keyword_def Let_def split: if_splits)
  from arg_cong [OF v, of length] kw(2) assms(2) have "pos + k \<le> length s" by simp
  moreover have "sound_span s kw" unfolding kw by (rule sound_spanned [OF assms(2) v])
  ultimately show ?thesis by simp
qed

lemma arguments_sound:
  assumes "p_raw_arguments pos (drop pos s) = (x, a)" "pos \<le> length s"
  shows "sound_span s x \<and> pos + a \<le> length s"
proof -
  define v where "v = takeWhile not_newline (drop pos s)"
  obtain w where w: "v = trim_end v @ w" using trim_end_prefix by blast
  have d: "drop pos s = trim_end v @ w @ dropWhile not_newline (drop pos s)"
    by (metis append.assoc takeWhile_dropWhile_id v_def w)
  have "x = spanned_of (trim_end v) pos (pos + length (trim_end v))" "a = length v"
    using assms(1) by (simp_all add: p_raw_arguments_def v_def Let_def)
  moreover have "length v \<le> length s - pos"
    using length_takeWhile_le [of not_newline "drop pos s"] by (simp add: v_def)
  ultimately show ?thesis using sound_spanned [OF assms(2) d] assms(2) by simp
qed

lemma separator_le:
  assumes "p_separator t = Some m"
  shows "m \<le> length t"
proof -
  have len: "length t = blanks t + length (drop (blanks t) t)" using blanks_le [of t] by simp
  show ?thesis
  proof (cases "drop (blanks t) t")
    case Nil
    with assms blanks_le [of t] show ?thesis by (simp add: p_separator_def Let_def split: if_splits)
  next
    case (Cons c r)
    with assms len blanks_le [of r] blanks_le [of t] show ?thesis
      by (simp add: p_separator_def Let_def split: if_splits)
  qed
qed

lemma directive_sound:
  assumes "p_directive pos (drop pos s) = Some (e, k)" "pos \<le> length s"
  shows "raw_sound s e \<and> pos + k \<le> length s"
proof -
  let ?n = "blanks (drop pos s)"
  have n: "pos + ?n \<le> length s" using blanks_le [of "drop pos s"] assms(2) by simp
  obtain kw j where kw: "p_keyword (pos + ?n) (drop (pos + ?n) s) = Some (kw, j)"
    using assms(1) by (auto simp: p_directive_def Let_def add.commute split: option.splits)
  note ks = keyword_sound [OF kw n]
  let ?q = "pos + ?n + j"
  show ?thesis
  proof (cases "p_separator (drop ?q s)")
    case (Some m)
    from separator_le [OF this] have "m \<le> length s - ?q" by simp
    with ks have m: "?q + m \<le> length s" by linarith
    obtain x a where x: "p_raw_arguments (?q + m) (drop (?q + m) s) = (x, a)" by fastforce
    have "e = RawDirective \<lparr>rd_keyword = kw, rd_arguments = x\<rparr>" "k = ?n + j + m + a"
      using assms(1) kw Some x by (simp_all add: p_directive_def Let_def add.commute add.left_commute)
    with ks arguments_sound [OF x m] show ?thesis by simp
  next
    case None
    let ?b = "blanks (drop ?q s)"
    have "?b \<le> length s - ?q" using blanks_le [of "drop ?q s"] by simp
    with ks have b: "?q + ?b \<le> length s" by linarith
    have "e = RawDirective \<lparr>rd_keyword = kw, rd_arguments = spanned_of [] (?q + ?b) (?q + ?b)\<rparr>"
        "k = ?n + j + ?b"
      using assms(1) kw None by (simp_all add: p_directive_def Let_def add.commute add.left_commute)
    with ks b show ?thesis
      by (simp add: sound_span_def spanned_of_def span_of_def slice_def)
  qed
qed


lemma line_sound:
  assumes "p_line pos (drop pos s) = Some (e, k)" "pos \<le> length s"
  shows "raw_sound s e \<and> pos + k \<le> length s"
proof -
  let ?t = "drop pos s"
  consider (empty) "p_empty_line pos ?t = Some (e, k)" | (comment) "p_comment pos ?t = Some (e, k)"
    | (directive) "p_directive pos ?t = Some (e, k)" | (unknown) "p_unknown_line pos ?t = Some (e, k)"
    using assms(1) by (auto simp: p_line_def split: option.splits)
  then show ?thesis
  proof cases
    case empty
    with blanks_le [of ?t] assms(2) show ?thesis
      by (auto simp: p_empty_line_def Let_def split: if_splits)
  next
    case comment
    let ?n = "blanks ?t"
    from comment obtain c r where cr: "drop ?n ?t = c # r" "k = ?n + 1 + length (takeWhile not_newline r)"
        "raw_sound s e"
      by (auto simp: p_comment_def Let_def split: list.splits if_splits)
    have "length (drop ?n ?t) = Suc (length r)" using cr(1) by simp
    with cr(2) length_takeWhile_le [of not_newline r] assms(2) have "pos + k \<le> length s" by simp
    with cr(3) show ?thesis by simp
  next
    case directive
    then show ?thesis by (rule directive_sound [OF _ assms(2)])
  next
    case unknown
    let ?v = "takeWhile not_newline ?t"
    have "?t = ?v @ dropWhile not_newline ?t" by simp
    from sound_spanned [OF assms(2) this] unknown length_takeWhile_le [of not_newline ?t] assms(2)
    show ?thesis by (auto simp: p_unknown_line_def Let_def split: if_splits)
  qed
qed

lemma newline_le: "p_newline s \<le> length s"
  by (cases s) (auto split: list.splits)

lemma rest_sound:
  "p_rest pos t = (es, q, u) \<Longrightarrow> t = drop pos s \<Longrightarrow> pos \<le> length s \<Longrightarrow> e \<in> set es \<Longrightarrow> raw_sound s e"
proof (induction pos t arbitrary: es q u rule: p_rest.induct)
  case (1 pos t)
  let ?n = "p_newline t"
  show ?case
  proof (cases "?n = 0 \<or> p_line (pos + ?n) (drop ?n t) = None")
    case True
    then have "p_rest pos t = ([], pos, t)" by (auto simp: p_rest.simps [of pos t] Let_def)
    with "1.prems"(1,4) show ?thesis by simp
  next
    case False
    then obtain x k where n: "?n \<noteq> 0" and x: "p_line (pos + ?n) (drop ?n t) = Some (x, k)" by auto
    have pn: "pos + ?n \<le> length s" using newline_le [of t] "1.prems"(2,3) by simp
    have dn: "drop ?n t = drop (pos + ?n) s" using "1.prems"(2) by (simp add: add.commute)
    from line_sound [OF x [unfolded dn] pn] have xs: "raw_sound s x" "pos + ?n + k \<le> length s" by auto
    obtain fs q' u' where r: "p_rest (pos + ?n + k) (drop (?n + k) t) = (fs, q', u')" by (metis prod_cases3)
    have "es = x # fs" using "1.prems"(1) n x r by (simp add: p_rest.simps [of pos t] Let_def)
    moreover have "drop (?n + k) t = drop (pos + ?n + k) s"
      using "1.prems"(2) by (simp add: add.commute add.left_commute)
    moreover note "1.IH" [OF refl n x refl r]
    ultimately show ?thesis using "1.prems"(4) xs by auto
  qed
qed

lemma parse_sound:
  assumes "e \<in> set (parse s)"
  shows "raw_sound s e"
proof (cases "p_config s")
  case None
  with assms show ?thesis
    by (simp add: parse_def sound_span_def spanned_of_def span_of_def slice_def)
next
  case (Some es)
  then obtain x k fs q t where x: "p_line 0 s = Some (x, k)" and r: "p_rest k (drop k s) = (fs, q, t)"
      and es: "es = x # fs"
    by (auto simp: p_config_def split: option.splits prod.splits if_splits)
  from line_sound [of 0 s x k] x have "raw_sound s x" "k \<le> length s" by auto
  with rest_sound [OF r refl] assms Some es show ?thesis by (auto simp: parse_def)
qed


subsection \<open>Line by line\<close>

text \<open>
  The lines of a file with their offsets, split at \<open>\r\n\<close>, \<open>\n\<close> and \<open>\r\<close>, and the lines on
  which the grammar's \<open>directive\<close> rule stops early: a keyword followed by a character that is
  neither a blank nor \<open>=\<close>.
\<close>

function tail_lines :: "nat \<Rightarrow> string \<Rightarrow> (nat \<times> string) list" where
  "tail_lines pos r =
     (let n = p_newline r; l = takeWhile not_newline (drop n r) in
      if n = 0 then [] else (pos + n, l) # tail_lines (pos + n + length l) (drop (n + length l) r))"
  by pat_completeness auto
termination
  by (relation "measure (\<lambda>(_, s). length s)") (auto dest: p_newline_pos intro!: diff_less)

declare tail_lines.simps [simp del]

definition lines_at :: "string \<Rightarrow> (nat \<times> string) list" where
  "lines_at s = (let l = takeWhile not_newline s in (0, l) # tail_lines (length l) (drop (length l) s))"

definition bad_line :: "string \<Rightarrow> bool" where
  "bad_line l = (let r = dropWhile blank l; t = dropWhile (\<lambda>d. letter d \<or> digit d) r in
     r \<noteq> [] \<and> letter (hd r) \<and> t \<noteq> [] \<and> \<not> blank (hd t) \<and> hd t \<noteq> CHR ''='')"

definition is_line :: "string \<Rightarrow> bool" where
  "is_line l \<longleftrightarrow> list_all not_newline l"

lemma char_facts [simp]:
  "\<not> blank LF" "\<not> blank CR" "\<not> letter LF" "\<not> letter CR" "\<not> digit LF" "\<not> digit CR"
  "\<not> not_newline LF" "\<not> not_newline CR" "LF \<noteq> CHR ''=''" "CR \<noteq> CHR ''=''"
  "LF \<noteq> CHR ''#''" "CR \<noteq> CHR ''#''" "\<not> letter (CHR ''#'')" "CHR ''='' \<noteq> LF" "CHR ''='' \<noteq> CR"
  "CHR ''#'' \<noteq> LF" "CHR ''#'' \<noteq> CR"
  by (simp_all add: blank_def letter_def digit_def not_newline_def LF_def CR_def TAB_def code_def)

lemma eol_cases: "p_eol r \<longleftrightarrow> r = [] \<or> hd r = LF \<or> hd r = CR"
  by (cases r) (auto simp: p_eol_def split: list.splits)

lemma newline_zero: "p_newline r = 0 \<longleftrightarrow> r = [] \<or> (hd r \<noteq> LF \<and> hd r \<noteq> CR)"
  by (cases r) (auto split: list.splits)

lemma line_eol: "is_line l \<Longrightarrow> p_eol l \<longleftrightarrow> l = []"
  by (cases l) (auto simp: eol_cases is_line_def)

lemma line_append_eol: "is_line l \<Longrightarrow> p_eol r \<Longrightarrow> p_eol (l @ r) \<longleftrightarrow> l = []"
  by (cases l) (auto simp: eol_cases is_line_def)

lemma takeWhile_line:
  "p_eol r \<Longrightarrow> \<not> P LF \<Longrightarrow> \<not> P CR \<Longrightarrow> takeWhile P (l @ r) = takeWhile P l"
  by (induction l) (cases r; auto simp: eol_cases)+

lemma blanks_line: "p_eol r \<Longrightarrow> blanks (l @ r) = blanks l"
  by (simp add: blanks_def takeWhile_line)

lemma is_line_drop: "is_line l \<Longrightarrow> is_line (drop n l)"
  unfolding is_line_def list_all_iff by (meson in_set_dropD)

lemma tail_lines_ge: "x \<in> set (tail_lines pos r) \<Longrightarrow> pos \<le> fst x"
proof (induction pos r rule: tail_lines.induct)
  case (1 pos r)
  from "1.prems" have "p_newline r \<noteq> 0" by (cases "p_newline r = 0") (simp_all add: tail_lines.simps [of pos r])
  with "1.prems" "1.IH" [OF refl refl this] show ?case by (subst (asm) tail_lines.simps) (auto simp: Let_def)
qed

lemma is_line_takeWhile: "is_line (takeWhile not_newline s)"
  by (auto simp: is_line_def list_all_iff dest: set_takeWhileD)

lemma takeWhile_is_line: "is_line l \<Longrightarrow> takeWhile not_newline l = l"
  by (simp add: is_line_def list_all_iff)

lemma keyword_line: "p_eol r \<Longrightarrow> p_keyword pos (l @ r) = p_keyword pos l"
  by (cases l; cases r) (auto simp: p_keyword_def eol_cases takeWhile_line Let_def)

lemma arguments_line:
  "is_line l \<Longrightarrow> p_eol r \<Longrightarrow> p_raw_arguments pos (l @ r) = p_raw_arguments pos l"
  by (simp add: p_raw_arguments_def takeWhile_line Let_def)

lemma separator_line:
  assumes "p_eol r"
  shows "p_separator (l @ r) = p_separator l"
proof -
  have d: "drop (blanks l) (l @ r) = drop (blanks l) l @ r" using blanks_le [of l] by simp
  show ?thesis
  proof (cases "drop (blanks l) l")
    case Nil
    with assms d show ?thesis
      by (cases r) (auto simp: p_separator_def Let_def blanks_line eol_cases)
  next
    case (Cons c t)
    with assms d show ?thesis by (simp add: p_separator_def Let_def blanks_line)
  qed
qed

lemma keyword_le: "p_keyword pos l = Some (kw, k) \<Longrightarrow> k \<le> length l"
  by (auto simp: p_keyword_def Let_def length_takeWhile_le split: list.splits if_splits)

lemma directive_line:
  assumes l: "is_line l" and r: "p_eol r"
  shows "p_directive pos (l @ r) = p_directive pos l"
proof -
  let ?n = "blanks l"
  have n: "drop ?n (l @ r) = drop ?n l @ r" "?n \<le> length l" using blanks_le [of l] by simp_all
  show ?thesis
  proof (cases "p_keyword (pos + ?n) (drop ?n l)")
    case None
    with n r show ?thesis by (simp add: p_directive_def Let_def blanks_line keyword_line)
  next
    case (Some x)
    obtain kw k where x: "x = (kw, k)" by fastforce
    have k: "?n + k \<le> length l" using keyword_le [of "pos + ?n" "drop ?n l" kw k] Some x n by simp
    have kw: "p_keyword (pos + ?n) (drop ?n (l @ r)) = Some (kw, k)"
      using n Some x r by (simp add: keyword_line)
    have dk: "drop (?n + k) (l @ r) = drop (?n + k) l @ r" using k by simp
    show ?thesis
    proof (cases "p_separator (drop (?n + k) l)")
      case None
      then show ?thesis
        using kw Some x r dk
        by (simp add: p_directive_def Let_def blanks_line separator_line del: drop_append)
    next
      case (Some m)
      have m: "?n + k + m \<le> length l" using separator_le [OF Some] k by simp
      have dm: "drop (?n + k + m) (l @ r) = drop (?n + k + m) l @ r" using m by simp
      show ?thesis
        using kw Some x r dk dm \<open>p_keyword (pos + ?n) (drop ?n l) = Some x\<close> is_line_drop [OF l]
        by (simp add: p_directive_def Let_def blanks_line separator_line arguments_line del: drop_append)
    qed
  qed
qed

lemma comment_line:
  assumes l: "is_line l" and r: "p_eol r"
  shows "p_comment pos (l @ r) = p_comment pos l"
proof -
  have d: "drop (blanks l) (l @ r) = drop (blanks l) l @ r" using blanks_le [of l] by simp
  show ?thesis
  proof (cases "drop (blanks l) l")
    case Nil
    with r d show ?thesis by (cases r) (auto simp: p_comment_def Let_def blanks_line eol_cases)
  next
    case (Cons c t)
    with r d show ?thesis by (simp add: p_comment_def Let_def blanks_line takeWhile_line)
  qed
qed

lemma empty_line_line:
  assumes l: "is_line l" and r: "p_eol r"
  shows "p_empty_line pos (l @ r) = p_empty_line pos l"
proof -
  have d: "drop (blanks l) (l @ r) = drop (blanks l) l @ r" using blanks_le [of l] by simp
  have "p_eol (drop (blanks l) (l @ r)) = p_eol (drop (blanks l) l)"
    using line_append_eol [OF is_line_drop [OF l] r] line_eol [OF is_line_drop [OF l]] d by simp
  then show ?thesis
    using r line_append_eol [OF l r] line_eol [OF l]
    by (simp add: p_empty_line_def Let_def blanks_line)
qed

lemma line_local:
  assumes "is_line l" "p_eol r"
  shows "p_line pos (l @ r) = p_line pos l"
proof -
  have "p_unknown_line pos (l @ r) = p_unknown_line pos l"
    using assms(2) by (simp add: p_unknown_line_def takeWhile_line)
  then show ?thesis
    by (simp only: p_line_def empty_line_line [OF assms] comment_line [OF assms] directive_line [OF assms])
qed


lemma dropWhile_blanks: "dropWhile blank l = drop (blanks l) l"
  by (simp add: blanks_def dropWhile_eq_drop)

lemma keyword_drop:
  "p_keyword pos (c # t) = Some (kw, k) \<Longrightarrow>
   drop k (c # t) = dropWhile (\<lambda>d. letter d \<or> digit d) (c # t) \<and> letter c"
  by (auto simp: p_keyword_def Let_def dropWhile_eq_drop split: if_splits)

lemma separator_none:
  "p_separator t = None \<longleftrightarrow> t = [] \<or> (\<not> blank (hd t) \<and> hd t \<noteq> CHR ''='')"
proof (cases t)
  case (Cons c r)
  then show ?thesis
  proof (cases "blank c")
    case True
    then have "0 < blanks t" using Cons by (simp add: blanks_def)
    then show ?thesis using Cons True by (auto simp: p_separator_def Let_def split: list.splits)
  next
    case False
    then have "blanks t = 0" using Cons by (simp add: blanks_def)
    with Cons False show ?thesis by (auto simp: p_separator_def Let_def)
  qed
qed (simp add: p_separator_def blanks_def)

lemma separator_consumes:
  assumes "is_line t" "p_separator t = Some m"
  shows "m + snd (p_raw_arguments pos (drop m t)) = length t"
proof -
  have "length (takeWhile not_newline (drop m t)) = length t - m"
    by (subst takeWhile_is_line [OF is_line_drop [OF assms(1), of m]]) simp
  with separator_le [OF assms(2)] show ?thesis by (simp add: p_raw_arguments_def Let_def)
qed

lemma directive_consumes:
  assumes l: "is_line l" and d: "p_directive pos l = Some (e, k)"
  shows "k \<le> length l \<and> (k = length l \<longleftrightarrow> \<not> bad_line l)"
proof -
  let ?n = "blanks l"
  obtain kw j where kw: "p_keyword (pos + ?n) (drop ?n l) = Some (kw, j)"
    using d by (auto simp: p_directive_def Let_def split: option.splits)
  obtain c t where ct: "drop ?n l = c # t" using kw by (cases "drop ?n l") (auto simp: p_keyword_def)
  note kd = keyword_drop [OF kw [unfolded ct]]
  let ?u = "drop (?n + j) l"
  have u: "?u = dropWhile (\<lambda>d. letter d \<or> digit d) (drop ?n l)"
    using kd ct by (metis add.commute drop_drop)
  have nj: "?n + j \<le> length l"
    using keyword_le [OF kw] blanks_le [of l] by simp
  have bad: "bad_line l \<longleftrightarrow> ?u \<noteq> [] \<and> \<not> blank (hd ?u) \<and> hd ?u \<noteq> CHR ''=''"
    using kd ct unfolding bad_line_def Let_def dropWhile_blanks u by simp
  show ?thesis
  proof (cases "p_separator ?u")
    case (Some m)
    have k: "k = ?n + j + (m + snd (p_raw_arguments (pos + ?n + j + m) (drop m ?u)))"
      using d kw Some by (auto simp: p_directive_def Let_def add.commute split: prod.splits)
    with separator_consumes [OF is_line_drop [OF l] Some] nj have "k = length l" by simp
    moreover have "\<not> bad_line l" using Some bad separator_none [of ?u] by auto
    ultimately show ?thesis by simp
  next
    case None
    then have "blanks ?u = 0" using separator_none [of ?u] by (cases ?u) (auto simp: blanks_def)
    with d kw None have k: "k = ?n + j" by (simp add: p_directive_def Let_def)
    from None bad separator_none [of ?u] have "bad_line l \<longleftrightarrow> ?u \<noteq> []" by auto
    with k nj show ?thesis by auto
  qed
qed

lemma line_consumes:
  assumes l: "is_line l"
  shows "\<exists>e k. p_line pos l = Some (e, k) \<and> k \<le> length l \<and> (k = length l \<longleftrightarrow> \<not> bad_line l)"
proof -
  let ?d = "drop (blanks l) l"
  have bl: "bad_line l \<longrightarrow> ?d \<noteq> [] \<and> letter (hd ?d)" by (simp add: bad_line_def Let_def dropWhile_blanks)
  have e1: "p_eol l \<longleftrightarrow> l = []" "p_eol ?d \<longleftrightarrow> ?d = []" using line_eol l is_line_drop by blast+
  show ?thesis
  proof (cases "p_empty_line pos l")
    case (Some x)
    then have "snd x = length l" "?d = []"
      using e1 blanks_le [of l] by (auto simp: p_empty_line_def Let_def split: if_splits)
    with Some bl show ?thesis by (cases x) (auto simp: p_line_def)
  next
    case e: None
    then have dne: "?d \<noteq> []" using e1 by (auto simp: p_empty_line_def Let_def blanks_def split: if_splits)
    then obtain c t where ct: "?d = c # t" by (cases ?d) auto
    have len: "length l = blanks l + Suc (length t)"
      using arg_cong [OF ct, of length] blanks_le [of l] by simp
    show ?thesis
    proof (cases "c = CHR ''#''")
      case True
      have tl: "takeWhile not_newline t = t"
        using is_line_drop [OF l, of "blanks l"] ct by (simp add: is_line_def list_all_iff)
      obtain x where x: "p_comment pos l = Some (x, length l)"
        using True ct tl len by (simp add: p_comment_def Let_def)
      moreover have "\<not> bad_line l" using bl ct True by auto
      ultimately show ?thesis using e by (auto simp: p_line_def)
    next
      case False
      then have c: "p_comment pos l = None" using ct by (simp add: p_comment_def Let_def)
      show ?thesis
      proof (cases "p_directive pos l")
        case (Some x)
        with directive_consumes [OF l, of pos "fst x" "snd x"] e c show ?thesis
          by (cases x) (auto simp: p_line_def)
      next
        case None
        have nl: "\<not> letter c"
          using None ct by (auto simp: p_directive_def Let_def p_keyword_def split: option.splits prod.splits)
        then have "\<not> bad_line l" using bl ct by auto
        moreover have "p_unknown_line pos l = Some (RawUnknown (spanned_of l pos (pos + length l)), length l)"
          unfolding p_unknown_line_def Let_def takeWhile_is_line [OF l] using len by auto
        ultimately show ?thesis using e c None by (auto simp: p_line_def)
      qed
    qed
  qed
qed

definition line_entry :: "nat \<times> string \<Rightarrow> raw_entry" where
  "line_entry x = (case x of (pos, l) \<Rightarrow> fst (the (p_line pos l)))"

lemma dropWhile_eol: "p_eol (dropWhile not_newline s)"
proof (cases "dropWhile not_newline s")
  case (Cons c r)
  then have "\<not> not_newline c" by (metis hd_dropWhile list.discI list.sel(1))
  with Cons show ?thesis by (auto simp: eol_cases not_newline_def)
qed (simp add: eol_cases)

lemma stuck:
  assumes "is_line l" "k < length l"
  shows "p_newline (drop k l @ r) = 0" "drop k l @ r \<noteq> []"
  using assms is_line_drop [OF assms(1), of k]
  by (cases "drop k l"; auto simp: newline_zero is_line_def not_newline_def)+

lemma rest_lines:
  "p_eol r \<Longrightarrow>
   (if list_all (\<lambda>x. \<not> bad_line (snd x)) (tail_lines pos r)
    then \<exists>q. p_rest pos r = (map line_entry (tail_lines pos r), q, [])
    else drop (p_newline (snd (snd (p_rest pos r)))) (snd (snd (p_rest pos r))) \<noteq> [])"
proof (induction pos r rule: tail_lines.induct)
  case (1 pos r)
  let ?n = "p_newline r"
  show ?case
  proof (cases "?n = 0")
    case True
    with "1.prems" have "r = []" by (auto simp: newline_zero eol_cases)
    then show ?thesis by (simp add: tail_lines.simps [of pos] p_rest.simps [of pos])
  next
    case False
    define l where "l = takeWhile not_newline (drop ?n r)"
    define r' where "r' = dropWhile not_newline (drop ?n r)"
    have dr: "drop ?n r = l @ r'" by (simp add: l_def r'_def)
    have l: "is_line l" and r': "p_eol r'" by (simp_all add: l_def r'_def is_line_takeWhile dropWhile_eol)
    obtain e k where ek: "p_line (pos + ?n) l = Some (e, k)" "k \<le> length l" "k = length l \<longleftrightarrow> \<not> bad_line l"
      using line_consumes [OF l] by blast
    have pl: "p_line (pos + ?n) (drop ?n r) = Some (e, k)" using line_local [OF l r'] ek(1) dr by simp
    have dk: "drop (?n + k) r = drop k l @ r'"
      using ek(2) dr by (metis add.commute append.left_neutral append_Nil2 diff_is_0_eq' drop0 drop_append drop_drop)
    have dl: "drop (?n + length l) r = r'"
      using dr by (metis add.commute append_eq_conv_conj drop_drop)
    have tl: "tail_lines pos r = (pos + ?n, l) # tail_lines (pos + ?n + length l) r'"
      using False dl by (simp add: tail_lines.simps [of pos r] Let_def l_def)
    have pr: "p_rest pos r = (case p_rest (pos + ?n + k) (drop k l @ r') of (es, q, t) \<Rightarrow> (e # es, q, t))"
      using False pl dk by (simp add: p_rest.simps [of pos r] Let_def)
    show ?thesis
    proof (cases "bad_line l")
      case True
      with ek have k: "k < length l" by auto
      have "p_rest (pos + ?n + k) (drop k l @ r') = ([], pos + ?n + k, drop k l @ r')"
        using stuck(1) [OF l k, of r'] by (simp add: p_rest.simps [of "pos + ?n + k"] Let_def)
      with pr tl True stuck [OF l k, of r'] show ?thesis by simp
    next
      case good: False
      with ek have k: "k = length l" by auto
      have IH: "if list_all (\<lambda>x. \<not> bad_line (snd x)) (tail_lines (pos + ?n + length l) r')
        then \<exists>q. p_rest (pos + ?n + length l) r' = (map line_entry (tail_lines (pos + ?n + length l) r'), q, [])
        else drop (p_newline (snd (snd (p_rest (pos + ?n + length l) r'))))
               (snd (snd (p_rest (pos + ?n + length l) r'))) \<noteq> []"
        by (rule "1.IH" [OF refl l_def False, unfolded dl, OF r'])
      have le: "line_entry (pos + ?n, l) = e" using ek(1) by (simp add: line_entry_def)
      show ?thesis
        using IH pr tl k good le by (auto split: prod.splits if_splits)
    qed
  qed
qed

lemma parse_lines:
  "parse s = (if list_all (\<lambda>x. \<not> bad_line (snd x)) (lines_at s) then map line_entry (lines_at s)
     else [RawUnknown (spanned_of s 0 (length s))])"
proof -
  define l where "l = takeWhile not_newline s"
  define r where "r = dropWhile not_newline s"
  have s: "s = l @ r" and l: "is_line l" and r: "p_eol r"
    by (simp_all add: l_def r_def is_line_takeWhile dropWhile_eol)
  obtain e k where ek: "p_line 0 l = Some (e, k)" "k \<le> length l" "k = length l \<longleftrightarrow> \<not> bad_line l"
    using line_consumes [OF l] by blast
  have pl: "p_line 0 s = Some (e, k)" using line_local [OF l r, of 0] ek(1) s by simp
  have la: "lines_at s = (0, l) # tail_lines (length l) r"
    using l_def r_def by (simp add: lines_at_def Let_def dropWhile_eq_drop)
  have le: "line_entry (0, l) = e" using ek(1) by (simp add: line_entry_def)
  show ?thesis
  proof (cases "bad_line l")
    case True
    with ek have k: "k < length l" by auto
    have "drop k s = drop k l @ r" using s ek(2) by simp
    with stuck [OF l k, of r] pl have "p_config s = None"
      by (simp add: p_config_def p_rest.simps [of k] Let_def)
    with True la show ?thesis by (simp add: parse_def)
  next
    case False
    with ek have k: "k = length l" by auto
    then have "drop k s = r" using s by simp
    with rest_lines [OF r, of "length l"] pl k False la le show ?thesis
      by (auto simp: parse_def p_config_def split: prod.splits if_splits)
  qed
qed


subsection \<open>Where the lines are\<close>

text \<open>Every carriage return belongs to a CRLF line end.\<close>

fun no_bare_cr :: "string \<Rightarrow> bool" where
  "no_bare_cr [] = True"
| "no_bare_cr (c # s) = ((c = CR \<longrightarrow> s \<noteq> [] \<and> hd s = LF) \<and> no_bare_cr s)"

lemma no_bare_cr_append: "no_bare_cr (u @ v) \<Longrightarrow> no_bare_cr v"
  by (induction u) auto

abbreviation line_feeds :: "string \<Rightarrow> nat" where
  "line_feeds s \<equiv> length (filter (\<lambda>c. c = LF) s)"

lemma newline_is_lf:
  assumes "no_bare_cr r" "p_newline r \<noteq> 0"
  shows "line_feeds (take (p_newline r) r) = 1" "last (take (p_newline r) r) = LF" "take (p_newline r) r \<noteq> []"
proof (atomize (full), cases r)
  case (Cons c t)
  with assms show "line_feeds (take (p_newline r) r) = 1 \<and> last (take (p_newline r) r) = LF \<and> take (p_newline r) r \<noteq> []"
    by (cases t) (auto simp: CR_def LF_def split: if_splits)
qed (use assms in simp)

text \<open>Line \<open>i\<close> starts after \<open>i\<close> line feeds, the last of them directly before it.\<close>

definition line_found :: "string \<Rightarrow> nat \<Rightarrow> nat \<Rightarrow> string \<Rightarrow> bool" where
  "line_found s i q l \<longleftrightarrow> (\<exists>pre rest. s = pre @ l @ rest \<and> q = length pre \<and> line_feeds pre = i
     \<and> (pre = [] \<or> last pre = LF) \<and> is_line l)"

lemma tail_lines_found:
  "p_eol r \<Longrightarrow> no_bare_cr r \<Longrightarrow> i < length (tail_lines pos r) \<Longrightarrow> tail_lines pos r ! i = (pos + q, l)
   \<Longrightarrow> line_found r (Suc i) q l"
proof (induction pos r arbitrary: i q rule: tail_lines.induct)
  case (1 pos r)
  let ?n = "p_newline r"
  define m where "m = takeWhile not_newline (drop ?n r)"
  define r' where "r' = dropWhile not_newline (drop ?n r)"
  have n: "?n \<noteq> 0" using "1.prems"(3) by (cases "?n = 0") (simp_all add: tail_lines.simps [of pos r])
  have split: "drop ?n r = m @ r'" by (simp add: m_def r'_def)
  then have dl: "drop (?n + length m) r = r'" by (metis add.commute append_eq_conv_conj drop_drop)
  have tl: "tail_lines pos r = (pos + ?n, m) # tail_lines (pos + ?n + length m) r'"
    using n dl by (simp add: tail_lines.simps [of pos r] Let_def m_def)
  from split have r: "r = take ?n r @ m @ r'" by (metis append_take_drop_id)
  have eol: "p_eol r'" by (simp add: r'_def dropWhile_eol)
  have m: "is_line m" by (simp add: m_def is_line_takeWhile)
  note lf = newline_is_lf [OF "1.prems"(2) n]
  have le: "?n \<le> length r" using lf(3) by (cases r; cases "tl r") (auto split: if_splits)
  show ?case
  proof (cases i)
    case 0
    then have "q = ?n" "l = m" using "1.prems"(4) tl by simp_all
    then show ?thesis unfolding line_found_def using r lf m le 0
      by (intro exI [of _ "take ?n r"] exI [of _ r']) simp
  next
    case (Suc j)
    then have j: "j < length (tail_lines (pos + ?n + length m) r')"
      "tail_lines (pos + ?n + length m) r' ! j = (pos + q, l)" using "1.prems"(3,4) tl by simp_all
    have "pos + ?n + length m \<le> pos + q"
      using tail_lines_ge [where pos = "pos + ?n + length m" and r = r'] j by (metis fst_conv nth_mem)
    then obtain q' where q: "q = ?n + length m + q'" by (metis add.assoc add_le_cancel_left le_Suc_ex)
    have "no_bare_cr r'" using "1.prems"(2) r by (metis no_bare_cr_append)
    then have "line_found r' (Suc j) q' l"
      using "1.IH" [OF refl m_def n, unfolded dl, OF eol] j q by (simp add: add.assoc)
    then obtain pre rest where f: "r' = pre @ l @ rest" "q' = length pre" "line_feeds pre = Suc j"
        "pre = [] \<or> last pre = LF" "is_line l"
      by (auto simp: line_found_def)
    have "filter (\<lambda>c. c = LF) m = []" using m by (auto simp: is_line_def not_newline_def list_all_iff filter_empty_conv)
    moreover have "pre \<noteq> []" using f(3) by auto
    ultimately show ?thesis unfolding line_found_def using r f lf le q Suc
      by (intro exI [of _ "take ?n r @ m @ pre"] exI [of _ rest]) simp
  qed
qed

lemma lines_at_found:
  assumes "no_bare_cr s" "i < length (lines_at s)" "lines_at s ! i = (q, l)"
  shows "line_found s i q l"
proof -
  define m where "m = takeWhile not_newline s"
  define r where "r = dropWhile not_newline s"
  have s: "s = m @ r" and m: "is_line m" and r: "p_eol r"
    by (simp_all add: m_def r_def is_line_takeWhile dropWhile_eol)
  have la: "lines_at s = (0, m) # tail_lines (length m) r"
    by (simp add: lines_at_def Let_def m_def r_def dropWhile_eq_drop)
  show ?thesis
  proof (cases i)
    case 0
    then show ?thesis using assms(3) la s m unfolding line_found_def
      by (intro exI [of _ "[]"] exI [of _ r]) simp
  next
    case (Suc j)
    then have j: "j < length (tail_lines (length m) r)" "tail_lines (length m) r ! j = (q, l)"
      using assms(2,3) la by simp_all
    then have "length m \<le> q" using tail_lines_ge [where pos = "length m" and r = r] by (metis fst_conv nth_mem)
    then obtain q' where q: "q = length m + q'" by (metis le_Suc_ex)
    have "no_bare_cr r" using assms(1) s no_bare_cr_append by metis
    with tail_lines_found [OF r _ j(1), of q' l] j(2) q obtain pre rest where f: "r = pre @ l @ rest"
        "q' = length pre" "line_feeds pre = Suc j" "pre = [] \<or> last pre = LF" "is_line l"
      by (auto simp: line_found_def)
    have "filter (\<lambda>c. c = LF) m = []" using m by (auto simp: is_line_def not_newline_def list_all_iff filter_empty_conv)
    moreover have "pre \<noteq> []" using f(3) by auto
    ultimately show ?thesis unfolding line_found_def using s f q Suc
      by (intro exI [of _ "m @ pre"] exI [of _ rest]) simp
  qed
qed

lemma line_col_found:
  assumes "line_found s i q l" "q \<le> off" "off \<le> q + length l"
  shows "line_col (source_file_new path s) off = (i + 1, off - q + 1)"
proof -
  obtain pre rest where f: "s = pre @ l @ rest" "q = length pre" "line_feeds pre = i" "pre = [] \<or> last pre = LF" "is_line l"
    using assms(1) by (auto simp: line_found_def)
  let ?k = "off - q"
  have t: "take off s = pre @ take ?k l" using f(1,2) assms(2,3) by simp
  have none: "\<forall>c \<in> set (take ?k l). c \<noteq> LF"
    using f(5) by (auto simp: is_line_def not_newline_def list_all_iff dest: in_set_takeD)
  then have "filter (\<lambda>c. c = LF) (take ?k l) = []" by (auto simp: filter_empty_conv)
  moreover have "takeWhile (\<lambda>c. c \<noteq> LF) (rev (take ?k l) @ rev pre) = rev (take ?k l)"
    using none f(4) by (cases pre rule: rev_cases) (auto simp: takeWhile_append)
  ultimately show ?thesis
    using f(1,2,3) assms(2,3) by (subst line_col_eq) (auto simp: t min_def)
qed

text \<open>All parts of an entry start within its line.\<close>

primrec raw_within :: "nat \<Rightarrow> nat \<Rightarrow> raw_entry \<Rightarrow> bool" where
  "raw_within a b (RawEmpty sp) = (a \<le> sp_start sp \<and> sp_start sp \<le> b)"
| "raw_within a b (RawComment c) = (a \<le> sp_start (s_span c) \<and> sp_start (s_span c) \<le> b)"
| "raw_within a b (RawDirective d) = ((a \<le> sp_start (s_span (rd_keyword d)) \<and> sp_start (s_span (rd_keyword d)) \<le> b)
     \<and> (a \<le> sp_start (s_span (rd_arguments d)) \<and> sp_start (s_span (rd_arguments d)) \<le> b))"
| "raw_within a b (RawUnknown u) = (a \<le> sp_start (s_span u) \<and> sp_start (s_span u) \<le> b)"

lemma line_within:
  assumes "p_line pos l = Some (e, k)"
  shows "raw_within pos (pos + length l) e"
proof -
  have "drop pos (replicate pos c @ l) = l" for c by simp
  from line_sound [of pos "replicate pos undefined @ l" e k] assms
  have sound: "raw_sound (replicate pos undefined @ l) e" by simp
  consider (empty) "p_empty_line pos l = Some (e, k)" | (comment) "p_comment pos l = Some (e, k)"
    | (directive) "p_directive pos l = Some (e, k)" | (unknown) "p_unknown_line pos l = Some (e, k)"
    using assms by (auto simp: p_line_def split: option.splits)
  then show ?thesis
  proof cases
    case directive
    then obtain d where e: "e = RawDirective d" "pos \<le> sp_start (s_span (rd_keyword d))"
        "pos \<le> sp_start (s_span (rd_arguments d))"
      by (auto simp: p_directive_def p_keyword_def p_raw_arguments_def spanned_of_def span_of_def Let_def
          split: option.splits prod.splits list.splits if_splits)
    then show ?thesis using sound by (auto simp: sound_span_def)
  qed (auto simp: p_empty_line_def p_comment_def p_unknown_line_def spanned_of_def span_of_def Let_def
      split: if_splits list.splits)
qed

primrec entry_locations :: "entry \<Rightarrow> location list" where
  "entry_locations (EmptyEntry l) = [l]"
| "entry_locations (CommentEntry c) = [lc_location c]"
| "entry_locations (DirectiveEntry d) = [lc_location (d_keyword d), lc_location (d_arguments d)]"
| "entry_locations (UnknownEntry u) = [lc_location u]"

text \<open>The line of a located entry and the columns of its parts, for a line that starts at \<open>start\<close>.\<close>

definition entry_at :: "nat \<Rightarrow> nat \<Rightarrow> entry \<Rightarrow> bool" where
  "entry_at line start e \<longleftrightarrow> (\<forall>l \<in> set (entry_locations e). loc_line l = line
     \<and> start \<le> sp_start (loc_span l) \<and> loc_column l = sp_start (loc_span l) - start + 1)"

lemma located_at:
  assumes "line_found s i q l" "raw_within q (q + length l) e"
  shows "entry_at (i + 1) q (locate_entry (source_file_new path s) e)"
  using assms(2) line_col_found [OF assms(1)]
  by (cases e) (simp_all add: entry_at_def locate_def location_of_def)

subsection \<open>Properties\<close>

abbreviation good_lines :: "string \<Rightarrow> bool" where
  "good_lines s \<equiv> list_all (\<lambda>x. \<not> bad_line (snd x)) (lines_at s)"

lemma tail_lines_are_lines: "x \<in> set (tail_lines pos r) \<Longrightarrow> is_line (snd x)"
proof (induction pos r rule: tail_lines.induct)
  case (1 pos r)
  from "1.prems" have "p_newline r \<noteq> 0" by (cases "p_newline r = 0") (simp_all add: tail_lines.simps [of pos r])
  with "1.prems" "1.IH" [OF refl refl this] show ?case
    by (subst (asm) tail_lines.simps) (auto simp: Let_def is_line_takeWhile)
qed

lemma lines_are_lines: "x \<in> set (lines_at s) \<Longrightarrow> is_line (snd x)"
  by (auto simp: lines_at_def Let_def is_line_takeWhile dest!: tail_lines_are_lines)

lemma parse_nth:
  assumes "good_lines s" "i < length (lines_at s)" "lines_at s ! i = (q, l)"
  shows "p_line q l = Some (parse s ! i, length l)"
proof -
  have x: "(q, l) \<in> set (lines_at s)" using assms(2,3) by (metis nth_mem)
  from line_consumes [OF lines_are_lines [OF x, simplified], of q]
  obtain e k where e: "p_line q l = Some (e, k)" "k = length l \<longleftrightarrow> \<not> bad_line l" by blast
  moreover have "\<not> bad_line l" using assms(1) x by (auto simp: list_all_iff)
  moreover have "parse s ! i = e" using assms e(1) by (simp add: parse_lines line_entry_def)
  ultimately show ?thesis by simp
qed

text \<open>
  C30: parsing line by line. In a file without a line whose keyword is directly followed by a
  character other than a blank or \<open>=\<close>, parsing yields exactly one entry per line, in order, and each
  is what the grammar's \<open>line\<close> rule makes of that line alone, to its end. Other files are left out: one
  such line turns the whole file into a single unknown entry.
\<close>

theorem parse_line_by_line:
  assumes "list_all (\<lambda>x. \<not> bad_line (snd x)) (lines_at s)"
  shows "length (parse s) = length (lines_at s)
    \<and> (\<forall>i < length (lines_at s). case lines_at s ! i of
         (q, l) \<Rightarrow> p_line q l = Some (parse s ! i, length l))"
proof -
  have "length (parse s) = length (lines_at s)" using assms by (simp add: parse_lines)
  with parse_nth [OF assms] show ?thesis by (auto split: prod.splits)
qed

lemmas line_defs = lines_at_def tail_lines.simps bad_line_def Let_def blank_def letter_def digit_def
  not_newline_def LF_def CR_def TAB_def code_def

lemma two_lines:
  "lines_at (''Port 22'' @ [LF] @ ''Host x'') = [(0, ''Port 22''), (8, ''Host x'')]"
  "good_lines (''Port 22'' @ [LF] @ ''Host x'')"
  by (simp_all add: line_defs)

theorem parse_line_by_line_witness:
  "length (parse (''Port 22'' @ [LF] @ ''Host x'')) = 2
   \<and> p_line 8 ''Host x'' = Some (parse (''Port 22'' @ [LF] @ ''Host x'') ! 1, 6)"
proof -
  note r = parse_line_by_line [OF two_lines(2), unfolded two_lines(1)]
  from r [THEN conjunct1] r [THEN conjunct2, rule_format, of 1] show ?thesis by simp
qed

text \<open>A line such as \<open>X-Y z\<close> takes the directives of all other lines with it.\<close>

theorem one_bad_line_loses_the_file:
  "parse (''Port 22'' @ [LF] @ ''X-Y z'') =
     [RawUnknown (spanned_of (''Port 22'' @ [LF] @ ''X-Y z'') 0 13)]"
proof -
  have "\<not> list_all (\<lambda>x. \<not> bad_line (snd x)) (lines_at (''Port 22'' @ [LF] @ ''X-Y z''))"
    by (simp add: lines_at_def tail_lines.simps bad_line_def Let_def blank_def letter_def digit_def
        not_newline_def LF_def CR_def TAB_def code_def)
  then show ?thesis by (subst parse_lines) (simp add: numeral_eq_Suc)
qed

text \<open>
  C31: locations are sound. Every keyword, argument string and unknown line of a parsed file lies
  within the file and its span selects exactly its text. The tokens of an argument string and the
  parts of a comma-separated token again select exactly their text, on the same line and with the
  column moved by their offset. And in a file of good lines that end with LF or CRLF, the
  \<open>i\<close>-th entry is located on line \<open>i\<close>, its parts in the columns where they start in that line.
  Nothing is claimed of the span of a comment, which begins before the text it carries.
\<close>

theorem locations_sound:
  "(\<forall>d. DirectiveEntry d \<in> set (source_parse (source_file_new path content)) \<longrightarrow>
        anchored content (d_keyword d) \<and> anchored content (d_arguments d) \<and>
        (\<forall>t \<in> set (tokenize (d_arguments d)).
           anchored content t \<and> on_line_of (d_arguments d) t \<and>
           (\<forall>u \<in> set (split_comma t). anchored content u \<and> on_line_of t u)))
    \<and> (\<forall>u. UnknownEntry u \<in> set (source_parse (source_file_new path content)) \<longrightarrow> anchored content u)
    \<and> (no_bare_cr content \<and> list_all (\<lambda>x. \<not> bad_line (snd x)) (lines_at content) \<longrightarrow>
        length (source_parse (source_file_new path content)) = length (lines_at content) \<and>
        (\<forall>i < length (lines_at content).
           entry_at (i + 1) (fst (lines_at content ! i)) (source_parse (source_file_new path content) ! i)))"
proof (intro conjI allI impI ballI; (elim conjE)?)
  let ?f = "source_file_new path content"
  have sp: "source_parse ?f = map (locate_entry ?f) (parse content)"
    by (simp add: source_parse_def source_file_new_def)
  have loc: "anchored content (locate ?f x)" if "sound_span content x" for x
    using that by (simp add: anchored_def sound_span_def locate_def location_of_def Let_def split: prod.split)
  {
    fix d assume "DirectiveEntry d \<in> set (source_parse ?f)"
    then obtain e where e: "e \<in> set (parse content)" "locate_entry ?f e = DirectiveEntry d" by (auto simp: sp)
    with parse_sound [OF e(1)] loc show *: "anchored content (d_keyword d)" "anchored content (d_arguments d)"
      by (cases e; auto)+
    fix t assume "t \<in> set (tokenize (d_arguments d))"
    with tokens_anchored [OF *(2)] show **: "anchored content t" "on_line_of (d_arguments d) t"
      by (simp_all add: tokenize_def)
    fix u assume "u \<in> set (split_comma t)"
    with split_comma_anchored [OF **(1)] show "anchored content u" "on_line_of t u" by blast+
  }
  {
    fix u assume "UnknownEntry u \<in> set (source_parse ?f)"
    then obtain e where e: "e \<in> set (parse content)" "locate_entry ?f e = UnknownEntry u" by (auto simp: sp)
    with parse_sound [OF e(1)] loc show "anchored content u" by (cases e) auto
  }
  assume good: "no_bare_cr content" "good_lines content"
  then show len: "length (source_parse ?f) = length (lines_at content)" by (simp add: sp parse_lines)
  fix i assume i: "i < length (lines_at content)"
  obtain q l where l: "lines_at content ! i = (q, l)" by fastforce
  have "entry_at (i + 1) q (locate_entry ?f (parse content ! i))"
    by (rule located_at [OF lines_at_found [OF good(1) i l] line_within [OF parse_nth [OF good(2) i l]]])
  then show "entry_at (i + 1) (fst (lines_at content ! i)) (source_parse ?f ! i)"
    using i len l by (simp add: sp)
qed

theorem locations_sound_witness:
  "entry_at 2 8 (source_parse (source_file_new ''config'' (''Port 22'' @ [LF] @ ''Host x'')) ! 1)"
proof -
  let ?s = "''Port 22'' @ [LF] @ ''Host x''"
  have "no_bare_cr ?s" by (simp add: CR_def LF_def)
  then have g: "no_bare_cr ?s \<and> good_lines ?s" using two_lines(2) by (rule conjI)
  from locations_sound [of "''config''" ?s, THEN conjunct2, THEN conjunct2, THEN mp, OF g, THEN conjunct2,
      rule_format, of 1, unfolded two_lines(1)]
  show ?thesis by (simp add: numeral_2_eq_2)
qed

text \<open>The span of a comment covers the number sign and the blanks around it, its text does not.\<close>

lemma trim_x: "trim '' x'' = ''x''"
  by (simp add: trim_def trim_end.simps [of "'' x''"] trim_start.simps [of "'' x''"] trim_start.simps [of "''x''"]
      ws_back_def ws_front_def code_def)

theorem comment_span_not_its_text:
  "source_parse (source_file_new ''f'' ''# x'') =
     [CommentEntry \<lparr>lc_value = ''x'', lc_location = location_of (source_file_new ''f'' ''# x'') (span_of 0 3)\<rparr>]"
proof -
  have "p_line 0 ''# x'' = Some (RawComment (spanned_of (trim '' x'') 0 3), 3)"
    by (simp add: p_line_def p_empty_line_def p_eol_def p_comment_def blanks_def blank_def not_newline_def
        CR_def LF_def TAB_def numeral_3_eq_3)
  then show ?thesis
    by (simp add: source_parse_def source_file_new_def parse_def p_config_def p_rest.simps [of 3 "[]"] trim_x
        spanned_of_def locate_def)
qed

text \<open>
  The parser ends a line at a bare carriage return but line numbers count line feeds only, so
  the second of two lines separated by a carriage return is located on line 1.
\<close>

theorem carriage_return_not_counted:
  "length (lines_at (''A 1'' @ [CR] @ ''B 2'')) = 2 \<and>
   loc_line (location_of (source_file_new ''f'' (''A 1'' @ [CR] @ ''B 2'')) (span_of 4 7)) = 1"
  by (simp add: lines_at_def tail_lines.simps Let_def not_newline_def LF_def CR_def location_of_def
      line_col_def source_file_new_def compute_line_starts_def span_of_def)

end
