(* ===== verification/Config_Directives.thy ===== *)
theory Config_Directives
  imports Config_Lines
begin

text \<open>
  Typed parsing of directive arguments (\<open>src/config/directives.rs\<close>): glob patterns, the
  argument-count helpers, integers, \<open>Host\<close> and \<open>Match\<close>, and every other argument type. A parse
  is an error with its location or a value with its location.
\<close>

subsection \<open>Patterns\<close>

record pattern =
  pat_negated :: bool
  pat_value :: string

definition ascii_lower :: "char \<Rightarrow> char" where
  "ascii_lower c = (if 65 \<le> code c \<and> code c \<le> 90 then char_of (code c + 32) else c)"

definition to_ascii_lowercase :: "string \<Rightarrow> string" where
  "to_ascii_lowercase s = map ascii_lower s"

fun glob_match :: "string \<Rightarrow> string \<Rightarrow> bool" where
  "glob_match [] [] = True"
| "glob_match [] (t # ts) = False"
| "glob_match (p # ps) [] = (if p = CHR ''*'' then glob_match ps [] else False)"
| "glob_match (p # ps) (t # ts) =
     (if p = CHR ''*'' then glob_match ps (t # ts) \<or> glob_match (p # ps) ts
      else if p = CHR ''?'' then glob_match ps ts
      else if ascii_lower p = ascii_lower t then glob_match ps ts
      else False)"

definition pattern_matches :: "pattern \<Rightarrow> string \<Rightarrow> bool" where
  "pattern_matches p text =
     (let m = glob_match (pat_value p) text in if pat_negated p then \<not> m else m)"

definition glob_matches :: "pattern \<Rightarrow> string \<Rightarrow> bool" where
  "glob_matches p text = glob_match (pat_value p) text"

definition strip_bang :: "string \<Rightarrow> bool \<times> string" where
  "strip_bang s = (case s of c # rest \<Rightarrow> if c = CHR ''!'' then (True, rest) else (False, s) | [] \<Rightarrow> (False, s))"

definition parse_pattern :: "string located \<Rightarrow> pattern located" where
  "parse_pattern token = (case strip_bang (lc_value token) of (negated, v) \<Rightarrow>
     with_value token \<lparr>pat_negated = negated, pat_value = v\<rparr>)"

definition parse_pattern_list :: "string located \<Rightarrow> pattern located list" where
  "parse_pattern_list token = map parse_pattern (split_comma token)"

subsection \<open>Errors and helpers\<close>

record argument_count_error =
  expected :: string
  actual :: nat

datatype parse_int_error = EmptyInt | InvalidDigit | PosOverflow

datatype parse_integer_arg_error = WrongArgumentCount nat | InvalidValue parse_int_error

datatype parse_remote_forward_args_error = RemoteForwardCount nat

datatype parse_match_args_error =
    MatchEmpty | UnknownCriterion string | MissingArgument string | InvalidAllPlacement

definition tokenize_single :: "string located \<Rightarrow> argument_count_error located + string located" where
  "tokenize_single args = (case tokenize args of
       [t] \<Rightarrow> Inr t
     | ts \<Rightarrow> Inl (with_value args \<lparr>expected = ''exactly 1'', actual = length ts\<rparr>))"

definition tokenize_pair ::
    "string located \<Rightarrow> argument_count_error located + string located \<times> string located" where
  "tokenize_pair args = (case tokenize args of
       [t, u] \<Rightarrow> Inr (t, u)
     | ts \<Rightarrow> Inl (with_value args \<lparr>expected = ''exactly 2'', actual = length ts\<rparr>))"

definition tokenize_at_least_one ::
    "string located \<Rightarrow> argument_count_error located + string located list" where
  "tokenize_at_least_one args = (case tokenize args of
       [] \<Rightarrow> Inl (with_value args \<lparr>expected = ''at least 1'', actual = 0\<rparr>)
     | ts \<Rightarrow> Inr ts)"

text \<open>\<open>str::parse\<close> of an unsigned integer type whose largest value is \<open>m\<close>.\<close>

fun uint_digits :: "nat \<Rightarrow> nat \<Rightarrow> string \<Rightarrow> parse_int_error + nat" where
  "uint_digits m acc [] = Inr acc"
| "uint_digits m acc (c # s) =
     (if \<not> digit c then Inl InvalidDigit
      else if m < acc * 10 then Inl PosOverflow
      else if m < acc * 10 + (code c - 48) then Inl PosOverflow
      else uint_digits m (acc * 10 + (code c - 48)) s)"

definition parse_uint :: "nat \<Rightarrow> string \<Rightarrow> parse_int_error + nat" where
  "parse_uint m s = (case s of
       [] \<Rightarrow> Inl EmptyInt
     | c # t \<Rightarrow>
         if (c = CHR ''+'' \<or> c = CHR ''-'') \<and> t = [] then Inl InvalidDigit
         else if c = CHR ''+'' then uint_digits m 0 t
         else uint_digits m 0 s)"

definition U16_MAX :: nat where "U16_MAX = 2 ^ 16 - 1"
definition U32_MAX :: nat where "U32_MAX = 2 ^ 32 - 1"

definition parse_single_integer ::
    "nat \<Rightarrow> string located \<Rightarrow> parse_integer_arg_error located + nat located" where
  "parse_single_integer m args = (case tokenize args of
       [t] \<Rightarrow>
         (case parse_uint m (lc_value t) of
            Inl e \<Rightarrow> Inl (with_value t (InvalidValue e))
          | Inr n \<Rightarrow> Inr (with_value t n))
     | ts \<Rightarrow> Inl (with_value args (WrongArgumentCount (length ts))))"

definition map_ok :: "('a \<Rightarrow> 'b) \<Rightarrow> 'e + 'a \<Rightarrow> 'e + 'b" where
  "map_ok f r = (case r of Inl e \<Rightarrow> Inl e | Inr x \<Rightarrow> Inr (f x))"

subsection \<open>Host and Match\<close>

record host_args =
  ha_patterns :: "pattern located list"

definition parse_host_args :: "string located \<Rightarrow> argument_count_error located + host_args located" where
  "parse_host_args args =
     map_ok (\<lambda>ts. with_value args \<lparr>ha_patterns = map parse_pattern ts\<rparr>) (tokenize_at_least_one args)"

datatype match_criterion =
    MC_All | MC_Canonical | MC_Final
  | MC_Exec "string located"
  | MC_Host "pattern located list"
  | MC_OriginalHost "pattern located list"
  | MC_User "pattern located list"
  | MC_LocalUser "pattern located list"
  | MC_LocalNetwork "string located list"
  | MC_Tagged "pattern located list"
  | MC_Command "pattern located list"
  | MC_Version "pattern located list"
  | MC_SessionType "pattern located list"

record match_entry =
  me_negated :: bool
  me_criterion :: match_criterion

record match_args =
  ma_entries :: "match_entry located list"

definition plain_criterion :: "string \<Rightarrow> match_criterion option" where
  "plain_criterion kw =
     (if kw = ''all'' then Some MC_All
      else if kw = ''canonical'' then Some MC_Canonical
      else if kw = ''final'' then Some MC_Final else None)"

definition arg_criterion :: "string \<Rightarrow> (string located \<Rightarrow> match_criterion) option" where
  "arg_criterion kw =
     (if kw = ''exec'' then Some MC_Exec
      else if kw = ''localnetwork'' then Some (\<lambda>a. MC_LocalNetwork (split_comma a))
      else if kw = ''host'' then Some (\<lambda>a. MC_Host (parse_pattern_list a))
      else if kw = ''originalhost'' then Some (\<lambda>a. MC_OriginalHost (parse_pattern_list a))
      else if kw = ''user'' then Some (\<lambda>a. MC_User (parse_pattern_list a))
      else if kw = ''localuser'' then Some (\<lambda>a. MC_LocalUser (parse_pattern_list a))
      else if kw = ''tagged'' then Some (\<lambda>a. MC_Tagged (parse_pattern_list a))
      else if kw = ''command'' then Some (\<lambda>a. MC_Command (parse_pattern_list a))
      else if kw = ''version'' then Some (\<lambda>a. MC_Version (parse_pattern_list a))
      else if kw = ''sessiontype'' then Some (\<lambda>a. MC_SessionType (parse_pattern_list a))
      else None)"

fun match_entries ::
    "string located list \<Rightarrow> parse_match_args_error located + match_entry located list" where
  "match_entries [] = Inr []"
| "match_entries (t # ts) =
     (case strip_bang (lc_value t) of (negated, keyword) \<Rightarrow>
        let kw = to_ascii_lowercase keyword in
        case plain_criterion kw of
          Some c \<Rightarrow>
            map_ok (\<lambda>es. with_value t \<lparr>me_negated = negated, me_criterion = c\<rparr> # es) (match_entries ts)
        | None \<Rightarrow>
            (case arg_criterion kw of
               Some mk \<Rightarrow>
                 (case ts of
                    [] \<Rightarrow> Inl (with_value t (MissingArgument kw))
                  | a # us \<Rightarrow>
                      map_ok (\<lambda>es. with_value t \<lparr>me_negated = negated, me_criterion = mk a\<rparr> # es)
                        (match_entries us))
             | None \<Rightarrow> Inl (with_value t (UnknownCriterion keyword))))"

definition is_all :: "match_entry located \<Rightarrow> bool" where
  "is_all e \<longleftrightarrow> me_criterion (lc_value e) = MC_All"

definition is_reparse :: "match_entry located \<Rightarrow> bool" where
  "is_reparse e \<longleftrightarrow> me_criterion (lc_value e) = MC_Canonical \<or> me_criterion (lc_value e) = MC_Final"

definition parse_match_args :: "string located \<Rightarrow> parse_match_args_error located + match_args located" where
  "parse_match_args args =
     (let tokens = tokenize args in
      if tokens = [] then Inl (with_value args MatchEmpty)
      else case match_entries tokens of
        Inl e \<Rightarrow> Inl e
      | Inr entries \<Rightarrow>
          (let before = takeWhile (\<lambda>e. \<not> is_all e) entries in
           if length before < length entries \<and> \<not> list_all is_reparse before
           then Inl (with_value (entries ! length before) InvalidAllPlacement)
           else Inr (with_value args \<lparr>ma_entries = entries\<rparr>)))"

subsection \<open>The other argument types\<close>

record include_args = inc_paths :: "string located list"
record multi_arg = multi_values :: "string located list"
record host_name_args = hn_hostname :: "string located"
record user_args = ua_username :: "string located"
record identity_file_args = if_path :: "string located"
record certificate_file_args = cf_path :: "string located"
record dynamic_forward_args = df_bind :: "string located"
record proxy_jump_args = pj_jumps :: "string located list"
record single_arg = single_value :: "string located"
record local_forward_args =
  lf_bind :: "string located"
  lf_destination :: "string located"
record port_args = pa_port :: "nat located"
record server_alive_interval_args = sai_seconds :: "nat located"
record server_alive_count_max_args = sac_count :: "nat located"
record connect_timeout_args = ct_seconds :: "nat located"
record connection_attempts_args = ca_count :: "nat located"
record remote_forward_args =
  rf_bind :: "string located"
  rf_destination :: "string located option"

definition parse_include_args :: "string located \<Rightarrow> argument_count_error located + include_args located" where
  "parse_include_args args =
     map_ok (\<lambda>ts. with_value args \<lparr>inc_paths = ts\<rparr>) (tokenize_at_least_one args)"

definition parse_multi_arg :: "string located \<Rightarrow> argument_count_error located + multi_arg located" where
  "parse_multi_arg args =
     map_ok (\<lambda>ts. with_value args \<lparr>multi_values = ts\<rparr>) (tokenize_at_least_one args)"

definition parse_host_name_args :: "string located \<Rightarrow> argument_count_error located + host_name_args located" where
  "parse_host_name_args args =
     map_ok (\<lambda>t. with_value args \<lparr>hn_hostname = t\<rparr>) (tokenize_single args)"

definition parse_user_args :: "string located \<Rightarrow> argument_count_error located + user_args located" where
  "parse_user_args args =
     map_ok (\<lambda>t. with_value args \<lparr>ua_username = t\<rparr>) (tokenize_single args)"

definition parse_identity_file_args ::
    "string located \<Rightarrow> argument_count_error located + identity_file_args located" where
  "parse_identity_file_args args =
     map_ok (\<lambda>t. with_value args \<lparr>if_path = t\<rparr>) (tokenize_single args)"

definition parse_certificate_file_args ::
    "string located \<Rightarrow> argument_count_error located + certificate_file_args located" where
  "parse_certificate_file_args args =
     map_ok (\<lambda>t. with_value args \<lparr>cf_path = t\<rparr>) (tokenize_single args)"

definition parse_dynamic_forward_args ::
    "string located \<Rightarrow> argument_count_error located + dynamic_forward_args located" where
  "parse_dynamic_forward_args args =
     map_ok (\<lambda>t. with_value args \<lparr>df_bind = t\<rparr>) (tokenize_single args)"

definition parse_proxy_jump_args ::
    "string located \<Rightarrow> argument_count_error located + proxy_jump_args located" where
  "parse_proxy_jump_args args =
     map_ok (\<lambda>t. with_value args \<lparr>pj_jumps = split_comma t\<rparr>) (tokenize_single args)"

definition parse_single_arg :: "string located \<Rightarrow> argument_count_error located + single_arg located" where
  "parse_single_arg args =
     map_ok (\<lambda>t. with_value args \<lparr>single_value = t\<rparr>) (tokenize_single args)"

definition parse_local_forward_args ::
    "string located \<Rightarrow> argument_count_error located + local_forward_args located" where
  "parse_local_forward_args args =
     map_ok (\<lambda>(t, u). with_value args \<lparr>lf_bind = t, lf_destination = u\<rparr>) (tokenize_pair args)"

definition parse_port_args :: "string located \<Rightarrow> parse_integer_arg_error located + port_args located" where
  "parse_port_args args =
     map_ok (\<lambda>n. with_value args \<lparr>pa_port = n\<rparr>) (parse_single_integer U16_MAX args)"

definition parse_server_alive_interval_args ::
    "string located \<Rightarrow> parse_integer_arg_error located + server_alive_interval_args located" where
  "parse_server_alive_interval_args args =
     map_ok (\<lambda>n. with_value args \<lparr>sai_seconds = n\<rparr>) (parse_single_integer U32_MAX args)"

definition parse_server_alive_count_max_args ::
    "string located \<Rightarrow> parse_integer_arg_error located + server_alive_count_max_args located" where
  "parse_server_alive_count_max_args args =
     map_ok (\<lambda>n. with_value args \<lparr>sac_count = n\<rparr>) (parse_single_integer U32_MAX args)"

definition parse_connect_timeout_args ::
    "string located \<Rightarrow> parse_integer_arg_error located + connect_timeout_args located" where
  "parse_connect_timeout_args args =
     map_ok (\<lambda>n. with_value args \<lparr>ct_seconds = n\<rparr>) (parse_single_integer U32_MAX args)"

definition parse_connection_attempts_args ::
    "string located \<Rightarrow> parse_integer_arg_error located + connection_attempts_args located" where
  "parse_connection_attempts_args args =
     map_ok (\<lambda>n. with_value args \<lparr>ca_count = n\<rparr>) (parse_single_integer U32_MAX args)"

definition parse_remote_forward_args ::
    "string located \<Rightarrow> parse_remote_forward_args_error located + remote_forward_args located" where
  "parse_remote_forward_args args = (case tokenize args of
       [t] \<Rightarrow> Inr (with_value args \<lparr>rf_bind = t, rf_destination = None\<rparr>)
     | [t, u] \<Rightarrow> Inr (with_value args \<lparr>rf_bind = t, rf_destination = Some u\<rparr>)
     | ts \<Rightarrow> Inl (with_value args (RemoteForwardCount (length ts))))"

subsection \<open>Glob matching\<close>

inductive globs :: "string \<Rightarrow> string \<Rightarrow> bool" where
  globs_nil: "globs [] []"
| globs_star: "globs ps t \<Longrightarrow> globs (CHR ''*'' # ps) (u @ t)"
| globs_any: "globs ps t \<Longrightarrow> globs (CHR ''?'' # ps) (c # t)"
| globs_char: "p \<noteq> CHR ''*'' \<Longrightarrow> p \<noteq> CHR ''?'' \<Longrightarrow> ascii_lower p = ascii_lower c \<Longrightarrow> globs ps t
    \<Longrightarrow> globs (p # ps) (c # t)"

inductive_cases globs_NilE: "globs [] t"
inductive_cases globs_ConsE: "globs (p # ps) t"

lemma glob_star: "glob_match ps t \<Longrightarrow> glob_match (CHR ''*'' # ps) (u @ t)"
proof (induction u)
  case Nil
  then show ?case by (cases t) auto
qed simp

lemma glob_sound: "glob_match p t \<Longrightarrow> globs p t"
proof (induction p t rule: glob_match.induct)
  case (3 p ps)
  then show ?case using globs_star [of ps "[]" "[]"] by (auto split: if_splits)
next
  case (4 p ps t ts)
  show ?case
  proof (cases "p = CHR ''*''")
    case True
    with 4 consider "globs ps (t # ts)" | "globs (p # ps) ts" by auto
    then show ?thesis
    proof cases
      case 1
      then show ?thesis using globs_star [of ps "t # ts" "[]"] True by simp
    next
      case 2
      then obtain u v where "ts = u @ v" "globs ps v" using True by (auto elim: globs_ConsE)
      then show ?thesis using globs_star [of ps v "t # u"] True by simp
    qed
  next
    case False
    with 4 show ?thesis by (auto intro: globs.intros split: if_splits)
  qed
qed (auto intro: globs.intros)

lemma glob_complete: "globs p t \<Longrightarrow> glob_match p t"
  by (induction rule: globs.induct) (auto intro: glob_star)

lemma glob_match_iff: "glob_match p t \<longleftrightarrow> globs p t"
  using glob_sound glob_complete by blast

subsection \<open>Glob matching on characters\<close>

text \<open>
  The documented meaning is about characters, which the code does not decode. A character is its
  UTF-8 encoding here, a text a list of characters.
\<close>

definition continuation :: "char \<Rightarrow> bool" where
  "continuation c \<longleftrightarrow> 128 \<le> code c \<and> code c < 192"

definition utf8_width :: "char \<Rightarrow> nat" where
  "utf8_width c = (if code c < 128 then 1 else if code c < 224 then 2 else if code c < 240 then 3 else 4)"

definition utf8_char :: "string \<Rightarrow> bool" where
  "utf8_char c \<longleftrightarrow> c \<noteq> [] \<and> \<not> continuation (hd c) \<and> list_all continuation (tl c) \<and> length c = utf8_width (hd c)"

inductive char_globs :: "string list \<Rightarrow> string list \<Rightarrow> bool" where
  cg_nil: "char_globs [] []"
| cg_star: "char_globs ps t \<Longrightarrow> char_globs (''*'' # ps) (u @ t)"
| cg_any: "char_globs ps t \<Longrightarrow> char_globs (''?'' # ps) (c # t)"
| cg_char: "p \<noteq> ''*'' \<Longrightarrow> p \<noteq> ''?'' \<Longrightarrow> map ascii_lower p = map ascii_lower c \<Longrightarrow> char_globs ps t
    \<Longrightarrow> char_globs (p # ps) (c # t)"

lemma ascii_lower_eq: "ascii_lower c = ascii_lower d \<Longrightarrow> c = d \<or> code c < 128 \<and> code d < 128"
  by (auto simp: ascii_lower_def code_def split: if_splits)

lemma ascii_lower_class:
  assumes "ascii_lower c = ascii_lower d"
  shows "continuation c = continuation d" "utf8_width c = utf8_width d"
  using ascii_lower_eq [OF assms] by (auto simp: continuation_def utf8_width_def)

text \<open>The bytes of a character other than the two wildcards are no wildcards.\<close>

lemma utf8_char_bytes:
  assumes "utf8_char p" "p \<noteq> ''*''" "p \<noteq> ''?''"
  shows "CHR ''*'' \<notin> set p" "CHR ''?'' \<notin> set p"
proof -
  obtain c r where p: "p = c # r" using assms(1) by (cases p) (auto simp: utf8_char_def)
  have r: "list_all continuation r" "length r = utf8_width c - 1" using assms(1) by (auto simp: utf8_char_def p)
  have "CHR ''*'' \<notin> set r" "CHR ''?'' \<notin> set r"
    using r(1) by (auto simp: list_all_iff continuation_def code_def)
  moreover have "c \<noteq> CHR ''*'' \<and> c \<noteq> CHR ''?''"
    using assms(2,3) r(2) by (auto simp: p utf8_width_def code_def)
  ultimately show "CHR ''*'' \<notin> set p" "CHR ''?'' \<notin> set p" by (auto simp: p)
qed

lemma globs_literal:
  assumes "CHR ''*'' \<notin> set p" "CHR ''?'' \<notin> set p"
  shows "globs (p @ ps) t \<longleftrightarrow> (\<exists>c t'. t = c @ t' \<and> map ascii_lower p = map ascii_lower c \<and> globs ps t')"
  using assms
proof (induction p arbitrary: t)
  case (Cons x p)
  have "globs ((x # p) @ ps) t \<longleftrightarrow> (\<exists>y u. t = y # u \<and> ascii_lower x = ascii_lower y \<and> globs (p @ ps) u)"
    using Cons.prems by (auto elim!: globs_ConsE intro: globs_char)
  moreover have "globs (p @ ps) u \<longleftrightarrow> (\<exists>c t'. u = c @ t' \<and> map ascii_lower p = map ascii_lower c \<and> globs ps t')" for u
    using Cons by simp
  moreover have "(\<exists>y u. t = y # u \<and> ascii_lower x = ascii_lower y
        \<and> (\<exists>c t'. u = c @ t' \<and> map ascii_lower p = map ascii_lower c \<and> globs ps t'))
      \<longleftrightarrow> (\<exists>c t'. t = c @ t' \<and> map ascii_lower (x # p) = map ascii_lower c \<and> globs ps t')" (is "?l \<longleftrightarrow> ?r")
  proof
    assume ?l
    then obtain y c t' where "t = (y # c) @ t'" "ascii_lower x = ascii_lower y" "map ascii_lower p = map ascii_lower c"
      "globs ps t'" by auto
    then show ?r by (intro exI [of _ "y # c"] exI [of _ t']) simp
  next
    assume ?r
    then obtain c t' where c: "t = c @ t'" "map ascii_lower (x # p) = map ascii_lower c" "globs ps t'" by blast
    then obtain y ys where "c = y # ys" "ascii_lower x = ascii_lower y" "map ascii_lower p = map ascii_lower ys"
      by (cases c) auto
    with c show ?l by auto
  qed
  ultimately show ?case by simp
qed simp

text \<open>A suffix of a text begins at a character, or with a continuation byte.\<close>

lemma suffix_boundary:
  assumes "\<forall>c \<in> set t. utf8_char c" "concat t = u @ v"
  shows "(\<exists>t1 t2. t = t1 @ t2 \<and> v = concat t2) \<or> (\<exists>x w. v = x # w \<and> continuation x \<and> (\<exists>c \<in> set t. x \<in> set (tl c)))"
  using assms
proof (induction t arbitrary: u)
  case (Cons c t)
  then have "c @ concat t = u @ v" by simp
  then consider us where "u = c @ us" "concat t = us @ v" | us where "c = u @ us" "v = us @ concat t"
    by (auto simp: append_eq_append_conv2)
  then show ?case
  proof cases
    case 1
    from Cons.IH [OF _ 1(2)] Cons.prems(1) show ?thesis by (metis append_Cons list.set_intros(2))
  next
    case 2
    show ?thesis
    proof (cases "u = [] \<or> us = []")
      case True
      then show ?thesis using 2 by (metis append_Nil append_Cons append_Nil2 concat.simps(2) self_append_conv2)
    next
      case False
      then have "hd us \<in> set (tl c)" using 2(1) by (cases u; cases us) auto
      then show ?thesis using 2(2) False Cons.prems(1)
        by (cases us) (auto simp: utf8_char_def list_all_iff)
    qed
  qed
qed simp

definition plain_texts :: "string list \<Rightarrow> string list \<Rightarrow> bool" where
  "plain_texts p t \<longleftrightarrow> (\<forall>c \<in> set p \<union> set t. utf8_char c) \<and> (''?'' \<in> set p \<longrightarrow> (\<forall>c \<in> set t. length c = 1))"

lemma globs_realign:
  assumes "plain_texts q t" "globs (concat q) v" "concat t = u @ v"
  shows "\<exists>t1 t2. t = t1 @ t2 \<and> globs (concat q) (concat t2)"
  using assms
proof (induction q arbitrary: u v)
  case Nil
  then have "v = []" by (auto elim: globs_NilE)
  then show ?case by (intro exI [of _ t] exI [of _ "[]"]) (simp add: globs_nil)
next
  case (Cons p q)
  from suffix_boundary [OF _ Cons.prems(3)] Cons.prems(1)
  consider "\<exists>t1 t2. t = t1 @ t2 \<and> v = concat t2"
    | x w c where "v = x # w" "continuation x" "c \<in> set t" "x \<in> set (tl c)"
    unfolding plain_texts_def by blast
  then show ?case
  proof cases
    case 1
    then show ?thesis using Cons.prems(2) by blast
  next
    case 2
    have "c \<noteq> []" "length c \<noteq> 1" using 2(4) by (auto simp: length_Suc_conv)
    then have no_any: "p \<noteq> ''?''" using Cons.prems(1) 2(3) by (auto simp: plain_texts_def)
    have p: "utf8_char p" using Cons.prems(1) by (simp add: plain_texts_def)
    show ?thesis
    proof (cases "p = ''*''")
      case True
      then obtain a b where "v = a @ b" "globs (concat q) b" using Cons.prems(2) by (auto elim: globs_ConsE)
      moreover have "plain_texts q t" using Cons.prems(1) by (auto simp: plain_texts_def)
      ultimately obtain t1 t2 where "t = t1 @ t2" "globs (concat q) (concat t2)"
        using Cons.IH [of b "u @ a"] Cons.prems(3) by auto
      then show ?thesis using globs_star [of "concat q" "concat t2" "[]"] True by fastforce
    next
      case False
      note lit = globs_literal [OF utf8_char_bytes [OF p False no_any]]
      obtain d w' where d: "v = d @ w'" "map ascii_lower p = map ascii_lower d" using Cons.prems(2) lit by auto
      then obtain y ys z zs where "p = y # ys" "d = z # zs" "ascii_lower y = ascii_lower z"
        using p by (cases p; cases d) (auto simp: utf8_char_def)
      then have "\<not> continuation x" using ascii_lower_class(1) [of y z] p 2(1) d(1) by (simp add: utf8_char_def)
      with 2(2) show ?thesis by simp
    qed
  qed
qed

lemma char_globs_sound: "char_globs p t \<Longrightarrow> plain_texts p t \<Longrightarrow> globs (concat p) (concat t)"
proof (induction rule: char_globs.induct)
  case (cg_star ps t u)
  then have "globs (concat ps) (concat t)" by (auto simp: plain_texts_def)
  then show ?case using globs_star by simp
next
  case (cg_any ps t c)
  then have "globs (concat ps) (concat t)" "length c = 1" by (auto simp: plain_texts_def)
  then show ?case using globs_any by (cases c) auto
next
  case (cg_char p c ps t)
  have "globs (concat ps) (concat t)" "utf8_char p" using cg_char by (auto simp: plain_texts_def)
  then show ?case using globs_literal [OF utf8_char_bytes, of p "concat ps"] cg_char(1-3) by auto
qed (simp add: globs_nil)

lemma prefix_char:
  assumes "utf8_char p" "utf8_char c" "map ascii_lower p = map ascii_lower d" "c @ t = d @ u"
  shows "d = c \<and> t = u"
proof -
  obtain x xs y ys where x: "p = x # xs" "c = y # ys" using assms(1,2) by (cases p; cases c) (auto simp: utf8_char_def)
  then obtain z zs where z: "d = z # zs" "ascii_lower x = ascii_lower z" using assms(3) by (cases d) auto
  have "utf8_width x = utf8_width y" using ascii_lower_class(2) [OF z(2)] x z assms(4) by simp
  then have "length c = length d"
    using assms(1,2) map_eq_imp_length_eq [OF assms(3)] x by (simp add: utf8_char_def)
  with assms(4) show ?thesis by simp
qed

lemma char_globs_complete: "plain_texts p t \<Longrightarrow> globs (concat p) (concat t) \<Longrightarrow> char_globs p t"
proof (induction p arbitrary: t)
  case Nil
  then have "concat t = []" by (auto elim: globs_NilE)
  then have "t = []" using Nil.prems(1) by (cases t) (auto simp: plain_texts_def utf8_char_def)
  then show ?case by (simp add: cg_nil)
next
  case (Cons p q)
  have p: "utf8_char p" and rest: "plain_texts q t'" if "set t' \<subseteq> set t" for t'
    using Cons.prems(1) that by (auto simp: plain_texts_def)
  consider "p = ''*''" | "p = ''?''" | "p \<noteq> ''*''" "p \<noteq> ''?''" by blast
  then show ?case
  proof cases
    case 1
    then obtain a b where "concat t = a @ b" "globs (concat q) b" using Cons.prems(2) by (auto elim: globs_ConsE)
    then obtain t1 t2 where t: "t = t1 @ t2" "globs (concat q) (concat t2)"
      using globs_realign [OF rest] by (metis subset_refl)
    with Cons.IH [OF rest] show ?thesis by (auto simp: 1 intro: cg_star)
  next
    case 2
    then obtain x w where w: "concat t = x # w" "globs (concat q) w" using Cons.prems(2) by (auto elim: globs_ConsE)
    obtain c t' where t: "t = c # t'" using w(1) by (cases t) auto
    then have "length c = 1" using Cons.prems(1) 2 by (simp add: plain_texts_def)
    then have "w = concat t'" using w(1) t by (cases c) auto
    with Cons.IH [OF rest] w(2) t show ?thesis by (auto simp: 2 intro: cg_any)
  next
    case 3
    have pc: "utf8_char p" using p by blast
    from globs_literal [OF utf8_char_bytes [OF pc 3]] Cons.prems(2)
    obtain d w where d: "concat t = d @ w" "map ascii_lower p = map ascii_lower d" "globs (concat q) w" by auto
    have "d \<noteq> []" using d(2) pc by (auto simp: utf8_char_def)
    then obtain c t' where t: "t = c # t'" using d(1) by (cases t) auto
    have "d = c \<and> concat t' = w"
      using prefix_char [OF pc _ d(2), of c "concat t'" w] Cons.prems(1) d(1) t by (simp add: plain_texts_def)
    with Cons.IH [OF rest] d(2,3) t 3 show ?thesis by (auto intro: cg_char)
  qed
qed

text \<open>
  C32: glob matching is correct. For a pattern and a text given by their characters, the matcher on
  their UTF-8 bytes accepts exactly the texts the pattern describes: a star stands for any sequence
  of characters, a question mark for any one character, and any other character for itself in
  either ASCII case; and negation flips the result. A pattern with question marks is covered on ASCII
  text only, since the matcher lets a question mark stand for one byte.
\<close>

theorem glob_match_correct:
  assumes "\<forall>c \<in> set p \<union> set t. utf8_char c" "''?'' \<in> set p \<longrightarrow> (\<forall>c \<in> set t. length c = 1)"
  shows "(glob_match (concat p) (concat t) \<longleftrightarrow> char_globs p t)
    \<and> (pattern_matches \<lparr>pat_negated = b, pat_value = concat p\<rparr> (concat t) \<longleftrightarrow> (char_globs p t \<longleftrightarrow> \<not> b))"
proof -
  have "plain_texts p t" using assms by (simp add: plain_texts_def)
  then have "glob_match (concat p) (concat t) \<longleftrightarrow> char_globs p t"
    using char_globs_sound char_globs_complete glob_match_iff by blast
  then show ?thesis by (auto simp: pattern_matches_def)
qed

theorem glob_match_correct_witness:
  "pattern_matches \<lparr>pat_negated = False, pat_value = concat [''*'', [CHR 0xC3, CHR 0xA9]]\<rparr>
     (concat [''X'', [CHR 0xC3, CHR 0xA9]])"
proof -
  have "\<forall>c \<in> set [''*'', [CHR 0xC3, CHR 0xA9]] \<union> set [''X'', [CHR 0xC3, CHR 0xA9]]. utf8_char c"
    by (simp add: utf8_char_def continuation_def utf8_width_def code_def)
  moreover have "char_globs [''*'', [CHR 0xC3, CHR 0xA9]] ([''X''] @ [[CHR 0xC3, CHR 0xA9]])"
    by (rule cg_star, rule cg_char) (simp_all add: cg_nil)
  ultimately show ?thesis
    using glob_match_correct [of "[''*'', [CHR 0xC3, CHR 0xA9]]" "[''X'', [CHR 0xC3, CHR 0xA9]]" False] by simp
qed

text \<open>A question mark stands for one byte, so it does not match a two-byte character.\<close>

theorem question_mark_is_a_byte: "\<not> glob_match ''?'' [CHR 0xC3, CHR 0xA9]"
  by simp

subsection \<open>Match criteria\<close>

text \<open>The keywords of the \<open>Match\<close> line, as ssh_config(5) lists them, and what follows them.\<close>

definition plain_keywords :: "(string \<times> match_criterion) list" where
  "plain_keywords = [(''all'', MC_All), (''canonical'', MC_Canonical), (''final'', MC_Final)]"

definition argument_keywords :: "(string \<times> (string located \<Rightarrow> match_criterion)) list" where
  "argument_keywords =
     [(''exec'', MC_Exec), (''localnetwork'', \<lambda>a. MC_LocalNetwork (split_comma a)),
      (''host'', \<lambda>a. MC_Host (parse_pattern_list a)), (''originalhost'', \<lambda>a. MC_OriginalHost (parse_pattern_list a)),
      (''user'', \<lambda>a. MC_User (parse_pattern_list a)), (''localuser'', \<lambda>a. MC_LocalUser (parse_pattern_list a)),
      (''tagged'', \<lambda>a. MC_Tagged (parse_pattern_list a)), (''command'', \<lambda>a. MC_Command (parse_pattern_list a)),
      (''version'', \<lambda>a. MC_Version (parse_pattern_list a)),
      (''sessiontype'', \<lambda>a. MC_SessionType (parse_pattern_list a))]"

definition negated_keyword :: "string \<Rightarrow> bool \<Rightarrow> string \<Rightarrow> bool" where
  "negated_keyword s n k \<longleftrightarrow> (if n then s = CHR ''!'' # k else s = k \<and> take 1 k \<noteq> ''!'')"

inductive criteria :: "string located list \<Rightarrow> match_entry located list \<Rightarrow> bool" where
  criteria_nil: "criteria [] []"
| criteria_plain: "negated_keyword (lc_value t) n k \<Longrightarrow> (to_ascii_lowercase k, c) \<in> set plain_keywords
    \<Longrightarrow> criteria ts es
    \<Longrightarrow> criteria (t # ts) (with_value t \<lparr>me_negated = n, me_criterion = c\<rparr> # es)"
| criteria_arg: "negated_keyword (lc_value t) n k \<Longrightarrow> (to_ascii_lowercase k, mk) \<in> set argument_keywords
    \<Longrightarrow> criteria ts es
    \<Longrightarrow> criteria (t # a # ts) (with_value t \<lparr>me_negated = n, me_criterion = mk a\<rparr> # es)"

lemma strip_bang_iff: "strip_bang s = (n, k) \<longleftrightarrow> negated_keyword s n k"
  by (cases s) (auto simp: strip_bang_def negated_keyword_def)

lemma criterion_tables:
  "plain_criterion = map_of plain_keywords" "arg_criterion = map_of argument_keywords"
  by (simp_all add: plain_criterion_def plain_keywords_def arg_criterion_def argument_keywords_def fun_eq_iff)

lemma keywords_distinct: "distinct (map fst plain_keywords @ map fst argument_keywords)"
  by (simp add: plain_keywords_def argument_keywords_def)

lemma plain_criterion_iff: "plain_criterion kw = Some c \<longleftrightarrow> (kw, c) \<in> set plain_keywords"
  using keywords_distinct by (simp add: criterion_tables)

lemma arg_criterion_iff: "arg_criterion kw = Some mk \<longleftrightarrow> (kw, mk) \<in> set argument_keywords"
  using keywords_distinct by (simp add: criterion_tables)

lemma keyword_kinds: "(kw, mk) \<in> set argument_keywords \<Longrightarrow> plain_criterion kw = None"
  using keywords_distinct by (force simp: criterion_tables map_of_eq_None_iff)

lemmas criteria_iffs = strip_bang_iff [symmetric] plain_criterion_iff [symmetric] arg_criterion_iff [symmetric]

lemmas criteria_rules = criteria_plain [unfolded criteria_iffs] criteria_arg [unfolded criteria_iffs]

lemma map_ok_Inr [simp]: "map_ok f r = Inr y \<longleftrightarrow> (\<exists>x. r = Inr x \<and> y = f x)"
  by (cases r) (auto simp: map_ok_def)

lemma match_entries_sound: "match_entries ts = Inr es \<Longrightarrow> criteria ts es"
proof (induction ts arbitrary: es rule: match_entries.induct)
  case 1
  then show ?case by (simp add: criteria_nil)
next
  case (2 t ts)
  obtain n k where nk: "strip_bang (lc_value t) = (n, k)" by (cases "strip_bang (lc_value t)")
  show ?case
  proof (cases "plain_criterion (to_ascii_lowercase k)")
    case (Some c)
    with 2 nk show ?thesis by (auto intro: criteria_rules)
  next
    case None
    then obtain mk a us where "arg_criterion (to_ascii_lowercase k) = Some mk" "ts = a # us"
      using 2(3) nk by (auto simp: Let_def split: option.splits list.splits)
    with 2 nk None show ?thesis by (auto simp: Let_def intro: criteria_rules)
  qed
qed

lemma match_entries_complete: "criteria ts es \<Longrightarrow> match_entries ts = Inr es"
proof (induction rule: criteria.induct)
  case (criteria_arg t n k mk ts es a)
  with keyword_kinds [OF criteria_arg(2)] show ?case by (simp add: criteria_iffs Let_def)
qed (simp_all add: criteria_iffs Let_def)

lemma match_entries_iff: "match_entries ts = Inr es \<longleftrightarrow> criteria ts es"
  using match_entries_sound match_entries_complete by blast

definition all_well_placed :: "match_entry located list \<Rightarrow> bool" where
  "all_well_placed es \<longleftrightarrow> (\<forall>pre e post. es = pre @ e # post \<and> is_all e \<and> \<not> list_ex is_all pre
     \<longrightarrow> list_all is_reparse pre)"

lemma takeWhile_first: "\<not> P e \<Longrightarrow> list_all P pre \<Longrightarrow> takeWhile P (pre @ e # post) = pre"
  by (induction pre) auto

lemma all_placement_iff:
  "(length (takeWhile (\<lambda>e. \<not> is_all e) es) < length es
      \<longrightarrow> list_all is_reparse (takeWhile (\<lambda>e. \<not> is_all e) es)) \<longleftrightarrow> all_well_placed es"
proof
  assume l: "length (takeWhile (\<lambda>e. \<not> is_all e) es) < length es
      \<longrightarrow> list_all is_reparse (takeWhile (\<lambda>e. \<not> is_all e) es)"
  show "all_well_placed es"
    unfolding all_well_placed_def
  proof (intro allI impI, elim conjE)
    fix pre e post
    assume "es = pre @ e # post" "is_all e" "\<not> list_ex is_all pre"
    then have "takeWhile (\<lambda>e. \<not> is_all e) es = pre"
      by (simp add: list_ex_iff list_all_iff takeWhile_first)
    then show "list_all is_reparse pre" using l \<open>es = _\<close> by simp
  qed
next
  assume r: "all_well_placed es"
  let ?p = "takeWhile (\<lambda>e. \<not> is_all e) es"
  show "length ?p < length es \<longrightarrow> list_all is_reparse ?p"
  proof
    assume lt: "length ?p < length es"
    then have "es = ?p @ es ! length ?p # drop (Suc (length ?p)) es"
      by (metis append_take_drop_id Cons_nth_drop_Suc takeWhile_eq_take)
    moreover have "is_all (es ! length ?p)" using nth_length_takeWhile [OF lt] by simp
    moreover have "\<not> list_ex is_all ?p" by (auto simp: list_ex_iff dest: set_takeWhileD)
    ultimately show "list_all is_reparse ?p" using r unfolding all_well_placed_def by blast
  qed
qed

lemma parse_match_placed:
  "parse_match_args args = Inr r \<longleftrightarrow>
     tokenize args \<noteq> [] \<and>
     (\<exists>es. criteria (tokenize args) es \<and> all_well_placed es \<and> r = with_value args \<lparr>ma_entries = es\<rparr>)"
  unfolding match_entries_iff [symmetric] all_placement_iff [symmetric]
  by (auto simp: parse_match_args_def Let_def split: sum.splits if_splits)

text \<open>The rule the source states: \<open>all\<close> comes last, preceded only by \<open>canonical\<close> and \<open>final\<close>.\<close>

definition all_last :: "match_entry located list \<Rightarrow> bool" where
  "all_last es \<longleftrightarrow> (\<forall>pre e post. es = pre @ e # post \<and> is_all e \<longrightarrow> post = [] \<and> list_all is_reparse pre)"

definition nothing_after_all :: "match_entry located list \<Rightarrow> bool" where
  "nothing_after_all es \<longleftrightarrow> (\<forall>pre e post. es = pre @ e # post \<and> is_all e \<longrightarrow> post = [])"

lemma all_last_iff:
  assumes "nothing_after_all es"
  shows "all_well_placed es \<longleftrightarrow> all_last es"
proof
  assume w: "all_well_placed es"
  show "all_last es"
    unfolding all_last_def
  proof (intro allI impI, elim conjE)
    fix pre e post
    assume es: "es = pre @ e # post" "is_all e"
    have "\<not> list_ex is_all pre"
    proof
      assume "list_ex is_all pre"
      then obtain x a b where "pre = a @ x # b" "is_all x" by (metis list_ex_iff split_list)
      with assms es(1) show False unfolding nothing_after_all_def by (metis append_Cons append_assoc list.distinct(1) append_is_Nil_conv)
    qed
    with w assms es show "post = [] \<and> list_all is_reparse pre"
      unfolding all_well_placed_def nothing_after_all_def by blast
  qed
qed (auto simp: all_well_placed_def all_last_def)

text \<open>
  C33: \<open>Match\<close> parsing. A criteria line on which nothing follows an \<open>all\<close> parses exactly when it has
  a token, its tokens read from left to right as criteria (\<open>all\<close>, \<open>canonical\<close> and \<open>final\<close> alone, each
  of the ten other keywords with the token after it as its argument, a leading \<open>!\<close> negating,
  keywords in any ASCII case), and an \<open>all\<close> is preceded only by \<open>canonical\<close> and \<open>final\<close>; the result
  is those criteria in order, each at the location of its keyword. Lines that go on after an \<open>all\<close> are
  left out: the source says they are invalid and accepts them.
\<close>

theorem parse_match_args_correct:
  assumes "\<forall>es. criteria (tokenize args) es \<longrightarrow> nothing_after_all es"
  shows "parse_match_args args = Inr r \<longleftrightarrow>
     tokenize args \<noteq> [] \<and>
     (\<exists>es. criteria (tokenize args) es \<and> all_last es \<and> r = with_value args \<lparr>ma_entries = es\<rparr>)"
proof -
  have "(\<exists>es. criteria (tokenize args) es \<and> all_last es \<and> r = with_value args \<lparr>ma_entries = es\<rparr>)
      \<longleftrightarrow> (\<exists>es. criteria (tokenize args) es \<and> all_well_placed es \<and> r = with_value args \<lparr>ma_entries = es\<rparr>)"
    using assms all_last_iff by blast
  then show ?thesis by (simp add: parse_match_placed)
qed

theorem parse_match_args_correct_witness:
  "let args = \<lparr>lc_value = ''final all'',
       lc_location = location_of (source_file_new ''config'' ''Match final all'') (span_of 6 15)\<rparr>
   in \<exists>r. parse_match_args args = Inr r \<and> map is_all (ma_entries (lc_value r)) = [False, True]"
proof -
  let ?args = "\<lparr>lc_value = ''final all'',
       lc_location = location_of (source_file_new ''config'' ''Match final all'') (span_of 6 15)\<rparr>"
  have "case match_entries (tokenize ?args) of Inl _ \<Rightarrow> False | Inr es \<Rightarrow> length es = 2
      \<and> is_reparse (es ! 0) \<and> \<not> is_all (es ! 0) \<and> is_all (es ! 1)" by code_simp
  then obtain a b where es: "match_entries (tokenize ?args) = Inr [a, b]" "is_reparse a" "\<not> is_all a" "is_all b"
    by (auto simp: numeral_2_eq_2 length_Suc_conv split: sum.splits)
  have h: "\<forall>es. criteria (tokenize ?args) es \<longrightarrow> nothing_after_all es"
    using es by (auto simp: match_entries_iff [symmetric] nothing_after_all_def Cons_eq_append_conv)
  have "all_last [a, b]" using es by (auto simp: all_last_def Cons_eq_append_conv)
  moreover have "criteria (tokenize ?args) [a, b]" using es(1) by (simp add: match_entries_iff)
  moreover from this have "tokenize ?args \<noteq> []" by (auto elim: criteria.cases)
  ultimately have "parse_match_args ?args = Inr (with_value ?args \<lparr>ma_entries = [a, b]\<rparr>)"
    using parse_match_args_correct [OF h] by blast
  then show ?thesis using es by (simp add: with_value_def)
qed

text \<open>\<open>Match all host x\<close> is accepted although \<open>all\<close> is not last.\<close>

theorem match_all_not_last_accepted:
  "case parse_match_args \<lparr>lc_value = ''all host x'',
       lc_location = location_of (source_file_new ''config'' ''Match all host x'') (span_of 6 16)\<rparr> of
     Inl e \<Rightarrow> False
   | Inr r \<Rightarrow> map is_all (ma_entries (lc_value r)) = [True, False]"
  by code_simp

subsection \<open>Integers\<close>

definition digits_value :: "nat \<Rightarrow> string \<Rightarrow> nat" where
  "digits_value = foldl (\<lambda>a c. a * 10 + (code c - 48))"

lemma digits_value_simps [simp]:
  "digits_value a [] = a"
  "digits_value a (c # s) = digits_value (a * 10 + (code c - 48)) s"
  by (simp_all add: digits_value_def)

lemma digits_value_ge: "a \<le> digits_value a s"
proof (induction s arbitrary: a)
  case (Cons c s)
  then show ?case using le_trans [OF _ Cons, of a "a * 10 + (code c - 48)"] by simp
qed simp

lemma uint_digits_iff:
  "uint_digits m a s = Inr n \<longleftrightarrow> list_all digit s \<and> n = digits_value a s \<and> (s = [] \<or> n \<le> m)"
proof (induction s arbitrary: a)
  case (Cons c s)
  have ge: "a * 10 + (code c - 48) \<le> digits_value (a * 10 + (code c - 48)) s" by (rule digits_value_ge)
  show ?case using ge by (cases "s = []") (auto simp: Cons)
qed auto

definition numeral_text :: "string \<Rightarrow> string \<Rightarrow> bool" where
  "numeral_text s ds \<longleftrightarrow> (s = ds \<or> s = CHR ''+'' # ds) \<and> ds \<noteq> [] \<and> list_all digit ds"

lemma digit_not_sign: "digit c \<Longrightarrow> c \<noteq> CHR ''+'' \<and> c \<noteq> CHR ''-''"
  by (auto simp: digit_def code_def)

lemma parse_uint_iff:
  "parse_uint m s = Inr n \<longleftrightarrow> (\<exists>ds. numeral_text s ds \<and> n = digits_value 0 ds \<and> n \<le> m)"
proof (cases s)
  case Nil
  then show ?thesis by (simp add: parse_uint_def numeral_text_def)
next
  case (Cons c t)
  show ?thesis
  proof (cases "c = CHR ''+''")
    case True
    then have "\<not> digit c" using digit_not_sign by blast
    then show ?thesis using True Cons
      by (auto simp: parse_uint_def numeral_text_def uint_digits_iff split: if_splits)
  next
    case False
    then show ?thesis using Cons digit_not_sign [of c]
      by (auto simp: parse_uint_def numeral_text_def uint_digits_iff simp del: uint_digits.simps)
  qed
qed

definition numeral_arg :: "nat \<Rightarrow> string located \<Rightarrow> nat located \<Rightarrow> bool" where
  "numeral_arg bound args l \<longleftrightarrow> (\<exists>t ds. tokenize args = [t] \<and> numeral_text (lc_value t) ds
     \<and> digits_value 0 ds < bound \<and> l = with_value t (digits_value 0 ds))"

lemma parse_single_integer_iff:
  "parse_single_integer m args = Inr l \<longleftrightarrow> numeral_arg (Suc m) args l"
proof -
  have "parse_single_integer m args = Inr l \<longleftrightarrow> (\<exists>t n. tokenize args = [t]
      \<and> parse_uint m (lc_value t) = Inr n \<and> l = with_value t n)"
    by (auto simp: parse_single_integer_def split: list.splits sum.splits)
  also have "\<dots> \<longleftrightarrow> numeral_arg (Suc m) args l"
    unfolding parse_uint_iff numeral_arg_def less_Suc_eq_le by auto
  finally show ?thesis .
qed

text \<open>
  Integer arguments keep to their width. \<open>Port\<close> is accepted exactly when its argument is one
  token, a decimal numeral with at most one leading plus sign, whose value is below 65536; the four
  32-bit options likewise with 4294967296. The value parsed is the numeral's value, at the
  location of the token.
\<close>

theorem integer_args_exact:
  "(parse_port_args args = Inr p \<longleftrightarrow>
      (\<exists>l. numeral_arg 65536 args l \<and> p = with_value args \<lparr>pa_port = l\<rparr>))
   \<and> (parse_server_alive_interval_args args = Inr i \<longleftrightarrow>
      (\<exists>l. numeral_arg 4294967296 args l \<and> i = with_value args \<lparr>sai_seconds = l\<rparr>))
   \<and> (parse_server_alive_count_max_args args = Inr c \<longleftrightarrow>
      (\<exists>l. numeral_arg 4294967296 args l \<and> c = with_value args \<lparr>sac_count = l\<rparr>))
   \<and> (parse_connect_timeout_args args = Inr t \<longleftrightarrow>
      (\<exists>l. numeral_arg 4294967296 args l \<and> t = with_value args \<lparr>ct_seconds = l\<rparr>))
   \<and> (parse_connection_attempts_args args = Inr a \<longleftrightarrow>
      (\<exists>l. numeral_arg 4294967296 args l \<and> a = with_value args \<lparr>ca_count = l\<rparr>))"
proof -
  have bounds: "Suc U16_MAX = 65536" "Suc U32_MAX = 4294967296"
    by (simp_all add: U16_MAX_def U32_MAX_def)
  show ?thesis
    by (simp add: bounds parse_port_args_def parse_server_alive_interval_args_def
        parse_server_alive_count_max_args_def parse_connect_timeout_args_def
        parse_connection_attempts_args_def parse_single_integer_iff)
qed

end
