(* ===== verification/Text_Util.thy ===== *)
theory Text_Util
  imports Config_Directives
begin

text \<open>
  Formatting shared by several components: decimal numerals (\<open>Display\<close> of the integer types) and
  the last component of a path (\<open>Path::file_name\<close>), with the facts that a printed numeral reads
  back as the number.
\<close>

definition digit_char :: "nat \<Rightarrow> char" where
  "digit_char d = char_of (48 + d)"

fun show_nat :: "nat \<Rightarrow> string" where
  "show_nat n = (if n < 10 then [digit_char n] else show_nat (n div 10) @ [digit_char (n mod 10)])"

declare show_nat.simps [simp del]

definition show_int :: "int \<Rightarrow> string" where
  "show_int i = (if i < 0 then CHR ''-'' # show_nat (nat (- i)) else show_nat (nat i))"

text \<open>Empty and \<open>.\<close> components are dropped; a path ending in \<open>..\<close> has no file name.\<close>

definition file_name :: "string \<Rightarrow> string option" where
  "file_name p = (case rev (filter (\<lambda>c. c \<noteq> [] \<and> c \<noteq> ''.'') (split_on (CHR ''/'') p)) of
       [] \<Rightarrow> None
     | c # _ \<Rightarrow> if c = ''..'' then None else Some c)"

lemma code_digit_char: "d < 10 \<Longrightarrow> code (digit_char d) = 48 + d"
  by (simp add: code_def digit_char_def)

lemma digit_digit_char: "d < 10 \<Longrightarrow> digit (digit_char d)"
  by (simp add: digit_def code_digit_char)

lemma digits_value_append: "digits_value a (s @ t) = digits_value (digits_value a s) t"
  by (simp add: digits_value_def)

lemma show_nat_digits: "list_all digit (show_nat n)"
  by (induction n rule: show_nat.induct) (subst show_nat.simps, simp add: digit_digit_char)

lemma show_nat_ne [simp]: "show_nat n \<noteq> []"
  by (subst show_nat.simps) simp

lemma show_nat_value: "digits_value 0 (show_nat n) = n"
proof (induction n rule: show_nat.induct)
  case (1 n)
  then show ?case
    by (subst show_nat.simps) (auto simp: digits_value_append code_digit_char)
qed

lemma parse_uint_show: "n \<le> m \<Longrightarrow> parse_uint m (show_nat n) = Inr n"
  unfolding parse_uint_iff
  by (rule exI [of _ "show_nat n"]) (simp add: numeral_text_def show_nat_digits show_nat_value)

lemma show_nat_inject: "show_nat m = show_nat n \<longleftrightarrow> m = n"
  by (metis show_nat_value)

lemma digit_ascii: "digit c \<Longrightarrow> byte_of c < 0x80"
  by (simp add: digit_def code_def byte_of_def word_less_nat_alt unat_of_nat)

lemma ascii_append [simp]: "ascii (s @ t) \<longleftrightarrow> ascii s \<and> ascii t"
  by (simp add: ascii_def)

lemma show_nat_ascii: "ascii (show_nat n)"
  using show_nat_digits [of n] by (auto simp: ascii_def list_all_iff digit_ascii)

lemma show_int_ascii: "ascii (show_int i)"
proof -
  have "ascii (CHR ''-'' # s) \<longleftrightarrow> ascii s" for s by (simp add: ascii_def byte_of_def)
  then show ?thesis by (simp add: show_int_def show_nat_ascii)
qed

end
