(* ===== verification/Forward_Spec.thy ===== *)
theory Forward_Spec
  imports Forward_Messages Text_Util
begin

text \<open>
  The forwarding rules of the command line (\<open>src/forward/spec.rs\<close>): endpoints, the options
  \<open>-L\<close>, \<open>-R\<close> and \<open>-D\<close>, how they are displayed, and the parsing expression grammar that reads
  them. The grammar is shown to accept exactly the documented spellings.
\<close>

subsection \<open>Rules and their display\<close>

datatype endpoint = Tcp string "16 word" | Unix string

definition show_port :: "16 word \<Rightarrow> string" where
  "show_port p = show_nat (unat p)"

definition endpoint_display :: "endpoint \<Rightarrow> string" where
  "endpoint_display e = (case e of
       Tcp host port \<Rightarrow>
         if host = [] then ''*:'' @ show_port port
         else if CHR '':'' \<in> set host then ''['' @ host @ '']:'' @ show_port port
         else host @ '':'' @ show_port port
     | Unix path \<Rightarrow> path)"

record local_forward =
  local_bind :: endpoint
  local_connect :: endpoint

record remote_forward =
  remote_bind :: endpoint
  remote_connect :: "endpoint option"

record dynamic_forward =
  dyn_host :: string
  dyn_port :: "16 word"

text \<open>The arrow is one character of three bytes.\<close>

definition ARROW :: string where "ARROW = [CHR 0xE2, CHR 0x86, CHR 0x92]"

definition local_forward_display :: "local_forward \<Rightarrow> string" where
  "local_forward_display f = endpoint_display (local_bind f) @ ARROW @ endpoint_display (local_connect f)"

definition remote_forward_display :: "remote_forward \<Rightarrow> string" where
  "remote_forward_display f = (case remote_connect f of
       Some c \<Rightarrow> endpoint_display (remote_bind f) @ ARROW @ endpoint_display c
     | None \<Rightarrow> endpoint_display (remote_bind f) @ '' (listen-only)'')"

definition dynamic_forward_display :: "dynamic_forward \<Rightarrow> string" where
  "dynamic_forward_display f =
     (if dyn_host f = [] then ''*:'' @ show_port (dyn_port f)
      else dyn_host f @ '':'' @ show_port (dyn_port f))"

subsection \<open>The grammar\<close>

text \<open>
  A rule maps the input to its value and the rest of the input. Sequences pass the rest on,
  choices are ordered and commit to the first alternative that succeeds.
\<close>

type_synonym 'a peg = "string \<Rightarrow> ('a \<times> string) option"

definition thenP :: "'a peg \<Rightarrow> ('a \<Rightarrow> 'b peg) \<Rightarrow> 'b peg" where
  "thenP p f = (\<lambda>s. case p s of None \<Rightarrow> None | Some (x, r) \<Rightarrow> f x r)"

definition giveP :: "'a \<Rightarrow> 'a peg" where
  "giveP x = (\<lambda>s. Some (x, s))"

primrec first_of :: "'a peg list \<Rightarrow> 'a peg" where
  "first_of [] s = None"
| "first_of (p # ps) s = (case p s of Some y \<Rightarrow> Some y | None \<Rightarrow> first_of ps s)"

fun litP :: "string \<Rightarrow> unit peg" where
  "litP [] s = Some ((), s)"
| "litP (c # cs) [] = None"
| "litP (c # cs) (d # s) = (if c = d then litP cs s else None)"

definition many1 :: "(char \<Rightarrow> bool) \<Rightarrow> string peg" where
  "many1 P = (\<lambda>s. if takeWhile P s = [] then None else Some (takeWhile P s, dropWhile P s))"

definition unix_path :: "string peg" where
  "unix_path = (\<lambda>s. case s of
       c # t \<Rightarrow> if c = CHR ''/'' then Some (c # takeWhile (\<lambda>d. d \<noteq> CHR '':'') t, dropWhile (\<lambda>d. d \<noteq> CHR '':'') t)
                else None
     | [] \<Rightarrow> None)"

definition port :: "16 word peg" where
  "port = thenP (many1 digit) (\<lambda>n s. case parse_uint 65535 n of
       Inr v \<Rightarrow> Some (word_of_nat v, s) | Inl _ \<Rightarrow> None)"

definition host_char :: "char \<Rightarrow> bool" where
  "host_char c \<longleftrightarrow> c \<noteq> CHR '':'' \<and> c \<noteq> CHR ''/'' \<and> c \<noteq> CHR ''['' \<and> c \<noteq> CHR '']''"

definition hostname :: "string peg" where
  "hostname = many1 host_char"

definition bracketed_ipv6 :: "string peg" where
  "bracketed_ipv6 = thenP (litP ''['') (\<lambda>_. thenP (many1 (\<lambda>c. c \<noteq> CHR '']'')) (\<lambda>h.
     thenP (litP '']'') (\<lambda>_. giveP h)))"

text \<open>\<open>h \<open>:\<close> p\<close>, the shape of every TCP endpoint with a host.\<close>

definition host_port :: "string peg \<Rightarrow> endpoint peg" where
  "host_port host = thenP host (\<lambda>h. thenP (litP '':'') (\<lambda>_. thenP port (\<lambda>p. giveP (Tcp h p))))"

definition unix_endpoint :: "endpoint peg" where
  "unix_endpoint = thenP unix_path (\<lambda>p. giveP (Unix p))"

definition connect_endpoint :: "endpoint peg" where
  "connect_endpoint = first_of [unix_endpoint, host_port bracketed_ipv6, host_port hostname]"

definition wildcard_port :: "endpoint peg" where
  "wildcard_port = thenP (litP ''*:'') (\<lambda>_. thenP port (\<lambda>p. giveP (Tcp [] p)))"

definition bare_port :: "string \<Rightarrow> endpoint peg" where
  "bare_port host = thenP port (\<lambda>p. giveP (Tcp host p))"

definition with_connect :: "(endpoint \<Rightarrow> endpoint \<Rightarrow> 'a) \<Rightarrow> endpoint peg \<Rightarrow> 'a peg" where
  "with_connect mk bind = thenP bind (\<lambda>b. thenP (litP '':'') (\<lambda>_. thenP connect_endpoint (\<lambda>c. giveP (mk b c))))"

definition local_forward_rule :: "local_forward peg" where
  "local_forward_rule = first_of (map (with_connect (\<lambda>b c. \<lparr>local_bind = b, local_connect = c\<rparr>))
     [unix_endpoint, host_port bracketed_ipv6, wildcard_port, host_port hostname, bare_port ''127.0.0.1''])"

definition listen_only :: "endpoint peg \<Rightarrow> remote_forward peg" where
  "listen_only bind = thenP bind (\<lambda>b. giveP \<lparr>remote_bind = b, remote_connect = None\<rparr>)"

definition remote_forward_rule :: "remote_forward peg" where
  "remote_forward_rule = first_of
     (map (with_connect (\<lambda>b c. \<lparr>remote_bind = b, remote_connect = Some c\<rparr>))
        [unix_endpoint, host_port bracketed_ipv6, wildcard_port, host_port hostname,
         bare_port CANONICAL_REMOTE_LOOPBACK_HOST]
      @ map listen_only
        [host_port bracketed_ipv6, wildcard_port, host_port hostname,
         bare_port CANONICAL_REMOTE_LOOPBACK_HOST])"

definition to_dynamic :: "endpoint peg \<Rightarrow> dynamic_forward peg" where
  "to_dynamic bind = thenP bind (\<lambda>b. case b of
       Tcp h p \<Rightarrow> giveP \<lparr>dyn_host = h, dyn_port = p\<rparr> | Unix _ \<Rightarrow> (\<lambda>_. None))"

definition dynamic_forward_rule :: "dynamic_forward peg" where
  "dynamic_forward_rule = first_of (map to_dynamic
     [host_port bracketed_ipv6, wildcard_port, host_port hostname, bare_port ''127.0.0.1''])"

text \<open>A public rule has to match the whole input; the text of the error is left out.\<close>

definition whole :: "'a peg \<Rightarrow> string \<Rightarrow> 'a option" where
  "whole p s = (case p s of Some (x, []) \<Rightarrow> Some x | _ \<Rightarrow> None)"

definition local_forward_from_str :: "string \<Rightarrow> local_forward option" where
  "local_forward_from_str = whole local_forward_rule"

definition remote_forward_from_str :: "string \<Rightarrow> remote_forward option" where
  "remote_forward_from_str = whole remote_forward_rule"

definition dynamic_forward_from_str :: "string \<Rightarrow> dynamic_forward option" where
  "dynamic_forward_from_str = whole dynamic_forward_rule"

subsection \<open>Spellings\<close>

definition port_spelling :: "16 word \<Rightarrow> string \<Rightarrow> bool" where
  "port_spelling p s \<longleftrightarrow> s \<noteq> [] \<and> list_all digit s \<and> digits_value 0 s < 65536 \<and> p = word_of_nat (digits_value 0 s)"

definition path_spelling :: "endpoint \<Rightarrow> string \<Rightarrow> bool" where
  "path_spelling e s \<longleftrightarrow> e = Unix s \<and> s \<noteq> [] \<and> hd s = CHR ''/'' \<and> CHR '':'' \<notin> set s"

definition bracket_spelling :: "endpoint \<Rightarrow> string \<Rightarrow> bool" where
  "bracket_spelling e s \<longleftrightarrow> (\<exists>h p ps. e = Tcp h p \<and> s = ''['' @ h @ '']:'' @ ps \<and> h \<noteq> []
     \<and> CHR '']'' \<notin> set h \<and> port_spelling p ps)"

definition host_spelling :: "endpoint \<Rightarrow> string \<Rightarrow> bool" where
  "host_spelling e s \<longleftrightarrow> (\<exists>h p ps. e = Tcp h p \<and> s = h @ '':'' @ ps \<and> h \<noteq> []
     \<and> list_all host_char h \<and> port_spelling p ps)"

definition wildcard_spelling :: "endpoint \<Rightarrow> string \<Rightarrow> bool" where
  "wildcard_spelling e s \<longleftrightarrow> (\<exists>p ps. e = Tcp [] p \<and> s = ''*:'' @ ps \<and> port_spelling p ps)"

definition port_only_spelling :: "string \<Rightarrow> endpoint \<Rightarrow> string \<Rightarrow> bool" where
  "port_only_spelling host e s \<longleftrightarrow> (\<exists>p. e = Tcp host p \<and> port_spelling p s)"

definition connect_spelling :: "endpoint \<Rightarrow> string \<Rightarrow> bool" where
  "connect_spelling e s \<longleftrightarrow> path_spelling e s \<or> bracket_spelling e s \<or> host_spelling e s"

text \<open>A bind address \<open>*\<close> always means every interface.\<close>

definition listen_spelling :: "string \<Rightarrow> endpoint \<Rightarrow> string \<Rightarrow> bool" where
  "listen_spelling host e s \<longleftrightarrow> bracket_spelling e s \<or> wildcard_spelling e s
     \<or> host_spelling e s \<and> take 2 s \<noteq> ''*:'' \<or> port_only_spelling host e s"

definition bind_spelling :: "string \<Rightarrow> endpoint \<Rightarrow> string \<Rightarrow> bool" where
  "bind_spelling host e s \<longleftrightarrow> path_spelling e s \<or> listen_spelling host e s"

subsection \<open>The rules read their spellings\<close>

lemma colon_split:
  assumes "CHR '':'' \<notin> set a" "CHR '':'' \<notin> set c"
  shows "a @ CHR '':'' # b = c @ CHR '':'' # d \<longleftrightarrow> a = c \<and> b = d"
  using assms by (induction a arbitrary: c) (case_tac c; auto)+

definition stops :: "string \<Rightarrow> bool" where
  "stops r \<longleftrightarrow> r = [] \<or> hd r = CHR '':''"

lemma stops_simps [simp]: "stops []" "stops (CHR '':'' # r)"
  by (simp_all add: stops_def)

text \<open>What a rule returns is spelled by what it consumed, and every spelling is read up to a colon.\<close>

definition reads :: "'a peg \<Rightarrow> ('a \<Rightarrow> string \<Rightarrow> bool) \<Rightarrow> bool" where
  "reads p Sp \<longleftrightarrow> (\<forall>s x r. p s = Some (x, r) \<longrightarrow> (\<exists>t. s = t @ r \<and> Sp x t))
     \<and> (\<forall>x t r. Sp x t \<and> stops r \<longrightarrow> p (t @ r) = Some (x, r))"

lemma readsI:
  assumes "\<And>s x r. p s = Some (x, r) \<Longrightarrow> \<exists>t. s = t @ r \<and> Sp x t"
    and "\<And>x t r. Sp x t \<Longrightarrow> stops r \<Longrightarrow> p (t @ r) = Some (x, r)"
  shows "reads p Sp"
  using assms by (auto simp: reads_def)

lemma reads_sound: "reads p Sp \<Longrightarrow> p s = Some (x, r) \<Longrightarrow> \<exists>t. s = t @ r \<and> Sp x t"
  by (simp add: reads_def)

lemma reads_complete: "reads p Sp \<Longrightarrow> Sp x t \<Longrightarrow> stops r \<Longrightarrow> p (t @ r) = Some (x, r)"
  by (simp add: reads_def)

lemma thenP_Some: "thenP p f s = Some (y, r) \<longleftrightarrow> (\<exists>x t. p s = Some (x, t) \<and> f x t = Some (y, r))"
  by (auto simp: thenP_def split: option.splits)

lemma thenP_run: "p s = Some (x, t) \<Longrightarrow> thenP p f s = f x t"
  by (simp add: thenP_def)

lemma thenP_None: "p s = None \<Longrightarrow> thenP p f s = None"
  by (simp add: thenP_def)

lemma litP_Some: "litP l s = Some (u, r) \<longleftrightarrow> s = l @ r"
  by (induction l s rule: litP.induct) auto

lemma litP_append [simp]: "litP l (l @ r) = Some ((), r)"
  by (simp add: litP_Some)

lemma litP_colon [simp]: "litP '':'' (CHR '':'' # r) = Some ((), r)"
  by simp

lemma giveP_Some [simp]: "giveP x s = Some (y, r) \<longleftrightarrow> x = y \<and> s = r"
  by (simp add: giveP_def)

lemma giveP_run: "giveP x s = Some (x, s)"
  by (simp add: giveP_def)

lemma many1_Some: "many1 P s = Some (t, r) \<Longrightarrow> s = t @ r \<and> t \<noteq> [] \<and> list_all P t"
  using set_takeWhileD [of _ P s] by (auto simp: many1_def list_all_iff split: if_splits)

lemma span_run:
  assumes "list_all P t" "r = [] \<or> \<not> P (hd r)"
  shows "takeWhile P (t @ r) = t" "dropWhile P (t @ r) = r"
  using assms by (induction t) (cases r; auto)+

lemma many1_run:
  "t \<noteq> [] \<Longrightarrow> list_all P t \<Longrightarrow> r = [] \<or> \<not> P (hd r) \<Longrightarrow> many1 P (t @ r) = Some (t, r)"
  by (simp add: many1_def span_run)

lemma digit_not_special:
  "digit c \<Longrightarrow> c \<noteq> CHR '':'' \<and> c \<noteq> CHR ''/'' \<and> c \<noteq> CHR ''['' \<and> c \<noteq> CHR '']'' \<and> c \<noteq> CHR ''*'' \<and> host_char c"
  by (auto simp: digit_def code_def host_char_def)

lemma port_value:
  assumes "ds \<noteq> []" "list_all digit ds"
  shows "parse_uint 65535 ds = Inr v \<longleftrightarrow> v = digits_value 0 ds \<and> v < 65536"
proof -
  have "ds \<noteq> CHR ''+'' # es" for es using assms(2) digit_not_sign [of "CHR ''+''"] by auto
  then show ?thesis using assms by (auto simp: parse_uint_iff numeral_text_def)
qed

lemma reads_port: "reads port port_spelling"
proof (rule readsI)
  fix s x r
  assume "port s = Some (x, r)"
  then obtain ds t where d: "many1 digit s = Some (ds, t)"
      "(case parse_uint 65535 ds of Inr v \<Rightarrow> Some (word_of_nat v, t) | Inl _ \<Rightarrow> None) = Some (x, r)"
    by (auto simp: port_def thenP_Some)
  then obtain v where v: "parse_uint 65535 ds = Inr v" "x = word_of_nat v" "t = r"
    by (cases "parse_uint 65535 ds") simp_all
  then show "\<exists>t. s = t @ r \<and> port_spelling x t"
    using many1_Some [OF d(1)] port_value [of ds v] by (auto simp: port_spelling_def)
next
  fix x t r
  assume t: "port_spelling x t" and r: "stops r"
  have "r = [] \<or> \<not> digit (hd r)" using r by (auto simp: stops_def digit_def code_def)
  then have "many1 digit (t @ r) = Some (t, r)" using t by (intro many1_run) (simp_all add: port_spelling_def)
  moreover have "parse_uint 65535 t = Inr (digits_value 0 t)"
    using t by (subst port_value) (simp_all add: port_spelling_def)
  ultimately show "port (t @ r) = Some (x, r)"
    using t by (simp add: port_def thenP_def port_spelling_def)
qed

lemma reads_map:
  assumes "reads p Sp"
  shows "reads (thenP p (\<lambda>x. giveP (g x))) (\<lambda>y t. \<exists>x. y = g x \<and> Sp x t)"
proof (rule readsI)
  fix s y r
  assume "thenP p (\<lambda>x. giveP (g x)) s = Some (y, r)"
  then obtain x where "p s = Some (x, r)" "y = g x" by (auto simp: thenP_Some)
  with reads_sound [OF assms] show "\<exists>t. s = t @ r \<and> (\<exists>x. y = g x \<and> Sp x t)" by blast
next
  fix y t r
  assume "\<exists>x. y = g x \<and> Sp x t" "stops r"
  with reads_complete [OF assms] show "thenP p (\<lambda>x. giveP (g x)) (t @ r) = Some (y, r)"
    by (auto simp: thenP_Some)
qed

lemma reads_weaken:
  assumes "reads p Sp" "\<And>x t. Sp x t \<longleftrightarrow> Sq x t"
  shows "reads p Sq"
  using assms by (simp add: reads_def)

lemma reads_unix: "reads unix_endpoint path_spelling"
proof -
  have "reads unix_path (\<lambda>x t. x = t \<and> t \<noteq> [] \<and> hd t = CHR ''/'' \<and> CHR '':'' \<notin> set t)"
  proof (rule readsI)
    fix s x r
    assume "unix_path s = Some (x, r)"
    then obtain u where "s = CHR ''/'' # u" "x = CHR ''/'' # takeWhile (\<lambda>d. d \<noteq> CHR '':'') u"
        "r = dropWhile (\<lambda>d. d \<noteq> CHR '':'') u"
      unfolding unix_path_def by (cases s) (simp_all split: if_splits)
    moreover have "CHR '':'' \<notin> set (takeWhile (\<lambda>d. d \<noteq> CHR '':'') u)" for u
      using set_takeWhileD [of "CHR '':''" "\<lambda>d. d \<noteq> CHR '':''" u] by blast
    ultimately show "\<exists>t. s = t @ r \<and> x = t \<and> t \<noteq> [] \<and> hd t = CHR ''/'' \<and> CHR '':'' \<notin> set t"
      by (intro exI [of _ x]) simp
  next
    fix x t r
    assume t: "x = t \<and> t \<noteq> [] \<and> hd t = CHR ''/'' \<and> CHR '':'' \<notin> set t" and r: "stops r"
    then obtain u where u: "t = CHR ''/'' # u" "list_all (\<lambda>d. d \<noteq> CHR '':'') u"
      by (cases t) (auto simp: list_all_iff)
    have "r = [] \<or> \<not> hd r \<noteq> CHR '':''" using r by (simp add: stops_def)
    with t u show "unix_path (t @ r) = Some (x, r)" by (simp add: unix_path_def span_run)
  qed
  from reads_map [OF this, of Unix] show ?thesis
    unfolding unix_endpoint_def by (rule reads_weaken) (auto simp: path_spelling_def)
qed

lemma reads_host_port:
  assumes "reads H Sh"
  shows "reads (host_port H) (\<lambda>e t. \<exists>h p ht ps. e = Tcp h p \<and> t = ht @ '':'' @ ps \<and> Sh h ht \<and> port_spelling p ps)"
proof (rule readsI)
  fix s e r
  assume "host_port H s = Some (e, r)"
  then obtain h t p where p: "H s = Some (h, CHR '':'' # t)" "port t = Some (p, r)" "e = Tcp h p"
    by (auto simp: host_port_def thenP_Some litP_Some)
  obtain ht ps where "s = ht @ CHR '':'' # t" "Sh h ht" "t = ps @ r" "port_spelling p ps"
    using reads_sound [OF assms p(1)] reads_sound [OF reads_port p(2)] by blast
  then show "\<exists>t. s = t @ r \<and> (\<exists>h p ht ps. e = Tcp h p \<and> t = ht @ '':'' @ ps \<and> Sh h ht \<and> port_spelling p ps)"
    using p(3) by (intro exI [of _ "ht @ '':'' @ ps"]) auto
next
  fix e t r
  assume "\<exists>h p ht ps. e = Tcp h p \<and> t = ht @ '':'' @ ps \<and> Sh h ht \<and> port_spelling p ps" and r: "stops r"
  then obtain h p ht ps where e: "e = Tcp h p" "t = ht @ CHR '':'' # ps" "Sh h ht" "port_spelling p ps" by auto
  have "H (ht @ CHR '':'' # ps @ r) = Some (h, CHR '':'' # ps @ r)" using reads_complete [OF assms e(3)] by simp
  moreover have "port (ps @ r) = Some (p, r)" using reads_complete [OF reads_port e(4) r] .
  ultimately show "host_port H (t @ r) = Some (e, r)"
    using e(1,2) by (simp add: host_port_def thenP_def giveP_run)
qed

lemma reads_hostname: "reads hostname (\<lambda>h t. h = t \<and> t \<noteq> [] \<and> list_all host_char t)"
proof (rule readsI)
  fix s h r
  assume "hostname s = Some (h, r)"
  then show "\<exists>t. s = t @ r \<and> h = t \<and> t \<noteq> [] \<and> list_all host_char t"
    unfolding hostname_def using many1_Some by blast
next
  fix h t r
  assume t: "h = t \<and> t \<noteq> [] \<and> list_all host_char t" and r: "stops r"
  have "r = [] \<or> \<not> host_char (hd r)" using r by (auto simp: stops_def host_char_def)
  then show "hostname (t @ r) = Some (h, r)" unfolding hostname_def using t by (simp add: many1_run)
qed

lemma reads_bracketed:
  "reads bracketed_ipv6 (\<lambda>h t. t = ''['' @ h @ '']'' \<and> h \<noteq> [] \<and> CHR '']'' \<notin> set h)"
proof (rule readsI)
  fix s h r
  assume "bracketed_ipv6 s = Some (h, r)"
  then obtain t where "s = CHR ''['' # t" "many1 (\<lambda>c. c \<noteq> CHR '']'') t = Some (h, CHR '']'' # r)"
    by (auto simp: bracketed_ipv6_def thenP_Some litP_Some)
  with many1_Some [OF this(2)] show "\<exists>t. s = t @ r \<and> t = ''['' @ h @ '']'' \<and> h \<noteq> [] \<and> CHR '']'' \<notin> set h"
    by (intro exI [of _ "''['' @ h @ '']''"]) (auto simp: list_all_iff)
next
  fix h t r
  assume t: "t = ''['' @ h @ '']'' \<and> h \<noteq> [] \<and> CHR '']'' \<notin> set h"
  then have "many1 (\<lambda>c. c \<noteq> CHR '']'') (h @ CHR '']'' # r) = Some (h, CHR '']'' # r)"
    by (intro many1_run) (auto simp: list_all_iff)
  with t show "bracketed_ipv6 (t @ r) = Some (h, r)"
    by (simp add: bracketed_ipv6_def thenP_def giveP_run)
qed

lemma reads_host: "reads (host_port hostname) host_spelling"
  by (rule reads_weaken [OF reads_host_port [OF reads_hostname]]) (auto simp: host_spelling_def)

lemma reads_bracket: "reads (host_port bracketed_ipv6) bracket_spelling"
  by (rule reads_weaken [OF reads_host_port [OF reads_bracketed]]) (auto simp: bracket_spelling_def)

lemma reads_bare: "reads (bare_port host) (port_only_spelling host)"
  unfolding bare_port_def
  by (rule reads_weaken [OF reads_map [OF reads_port]]) (simp add: port_only_spelling_def)

lemma reads_wildcard: "reads wildcard_port wildcard_spelling"
proof (rule readsI)
  fix s e r
  assume "wildcard_port s = Some (e, r)"
  then obtain t p where "s = ''*:'' @ t" "port t = Some (p, r)" "e = Tcp [] p"
    by (auto simp: wildcard_port_def thenP_Some litP_Some)
  with reads_sound [OF reads_port this(2)] show "\<exists>t. s = t @ r \<and> wildcard_spelling e t"
    by (fastforce simp: wildcard_spelling_def)
next
  fix e t r
  assume "wildcard_spelling e t" "stops r"
  then show "wildcard_port (t @ r) = Some (e, r)"
    using reads_complete [OF reads_port]
    by (auto simp: wildcard_spelling_def wildcard_port_def thenP_def giveP_run)
qed

subsection \<open>Alternatives exclude each other\<close>

lemma path_head: "path_spelling e s \<Longrightarrow> \<exists>t. s = CHR ''/'' # t"
  by (cases s) (simp_all add: path_spelling_def)

lemma bracket_head: "bracket_spelling e s \<Longrightarrow> \<exists>t. s = CHR ''['' # t"
  unfolding bracket_spelling_def by (elim exE conjE) simp

lemma wildcard_head: "wildcard_spelling e s \<Longrightarrow> \<exists>t. s = CHR ''*'' # CHR '':'' # t"
  unfolding wildcard_spelling_def by (elim exE conjE) simp

lemma host_head: "host_spelling e s \<Longrightarrow> \<exists>c t. s = c # t \<and> host_char c"
  unfolding host_spelling_def by (elim exE conjE, case_tac h) simp_all

lemma port_only_head: "port_only_spelling h e s \<Longrightarrow> \<exists>c t. s = c # t \<and> digit c"
  unfolding port_only_spelling_def port_spelling_def by (cases s) auto

lemma reads_None:
  assumes "reads p Sp" "\<And>e t r. s = t @ r \<Longrightarrow> \<not> Sp e t"
  shows "p s = None"
  using assms(2) reads_sound [OF assms(1)] by (metis option.exhaust surj_pair)

lemma unix_fails: "c \<noteq> CHR ''/'' \<Longrightarrow> unix_endpoint (c # s) = None"
  by (rule reads_None [OF reads_unix]) (auto dest!: path_head)

lemma bracket_fails: "c \<noteq> CHR ''['' \<Longrightarrow> host_port bracketed_ipv6 (c # s) = None"
  by (rule reads_None [OF reads_bracket]) (auto dest!: bracket_head)

lemma wildcard_fails: "take 2 s \<noteq> ''*:'' \<Longrightarrow> wildcard_port s = None"
  by (rule reads_None [OF reads_wildcard]) (auto dest!: wildcard_head)

lemma host_fails: "\<not> host_char c \<Longrightarrow> host_port hostname (c # s) = None"
  by (rule reads_None [OF reads_host]) (auto dest!: host_head)

lemma bare_fails: "\<not> digit c \<Longrightarrow> bare_port h (c # s) = None"
  by (rule reads_None [OF reads_bare]) (auto dest!: port_only_head)

lemma reads_connect: "reads connect_endpoint connect_spelling"
proof (rule readsI)
  fix s e r
  assume "connect_endpoint s = Some (e, r)"
  then consider "unix_endpoint s = Some (e, r)" | "host_port bracketed_ipv6 s = Some (e, r)"
      | "host_port hostname s = Some (e, r)"
    by (auto simp: connect_endpoint_def split: option.splits)
  then show "\<exists>t. s = t @ r \<and> connect_spelling e t"
    unfolding connect_spelling_def
    by cases (blast dest: reads_sound [OF reads_unix] reads_sound [OF reads_bracket] reads_sound [OF reads_host])+
next
  fix e t r
  assume t: "connect_spelling e t" and r: "stops r"
  from t consider (path) "path_spelling e t" | (bracket) "bracket_spelling e t" | (host) "host_spelling e t"
    by (auto simp: connect_spelling_def)
  then show "connect_endpoint (t @ r) = Some (e, r)"
  proof cases
    case path
    then show ?thesis using reads_complete [OF reads_unix path r] by (simp add: connect_endpoint_def)
  next
    case bracket
    then obtain u where "t = CHR ''['' # u" using bracket_head by blast
    then show ?thesis using reads_complete [OF reads_bracket bracket r] by (simp add: connect_endpoint_def unix_fails)
  next
    case host
    then obtain c u where "t = c # u" "host_char c" using host_head by blast
    then show ?thesis using reads_complete [OF reads_host host r]
      by (simp add: connect_endpoint_def unix_fails bracket_fails host_char_def)
  qed
qed

subsection \<open>Whole rules\<close>

lemma with_connect_sound:
  assumes "reads b Sb" "with_connect mk b s = Some (x, r)"
  shows "\<exists>e sb c sc. s = sb @ '':'' @ sc @ r \<and> Sb e sb \<and> connect_spelling c sc \<and> x = mk e c"
proof -
  from assms(2) obtain e t c where p: "b s = Some (e, CHR '':'' # t)" "connect_endpoint t = Some (c, r)" "x = mk e c"
    by (auto simp: with_connect_def thenP_Some litP_Some)
  with reads_sound [OF assms(1) p(1)] reads_sound [OF reads_connect p(2)] show ?thesis by auto
qed

lemma with_connect_complete:
  assumes "reads b Sb" "Sb e sb" "connect_spelling c sc"
  shows "with_connect mk b (sb @ CHR '':'' # sc) = Some (mk e c, [])"
proof -
  have "b (sb @ CHR '':'' # sc) = Some (e, CHR '':'' # sc)" using reads_complete [OF assms(1,2)] by simp
  moreover have "connect_endpoint sc = Some (c, [])" using reads_complete [OF reads_connect assms(3), of "[]"] by simp
  ultimately show ?thesis by (simp add: with_connect_def thenP_def giveP_run)
qed

lemma with_connect_None: "b s = None \<Longrightarrow> with_connect mk b s = None"
  by (simp add: with_connect_def thenP_None)

lemma first_of_Some: "first_of ps s = Some y \<Longrightarrow> \<exists>p \<in> set ps. p s = Some y"
  by (induction ps) (auto split: option.splits)

lemma whole_Some: "whole p s = Some x \<longleftrightarrow> p s = Some (x, [])"
  by (auto simp: whole_def split: option.splits list.splits)

lemma port_no_colon: "port_spelling p s \<Longrightarrow> CHR '':'' \<notin> set s"
  using digit_not_special by (auto simp: port_spelling_def list_all_iff)

lemma host_no_colon: "list_all host_char h \<Longrightarrow> CHR '':'' \<notin> set h"
  by (auto simp: list_all_iff host_char_def)

lemma digits_no_connect:
  assumes "list_all digit (sc @ r)" "connect_spelling c sc"
  shows False
proof -
  from assms(2) consider "path_spelling c sc" | "bracket_spelling c sc" | "host_spelling c sc"
    by (auto simp: connect_spelling_def)
  then show False
  proof cases
    case 1
    from path_head [OF this] show False using assms(1) digit_not_special [of "CHR ''/''"] by auto
  next
    case 2
    from bracket_head [OF this] show False using assms(1) digit_not_special [of "CHR ''[''"] by auto
  next
    case 3
    then show False using assms(1) digit_not_special [of "CHR '':''"] by (auto simp: host_spelling_def)
  qed
qed

lemma no_host_before_connect:
  assumes "list_all digit ds" "connect_spelling c sc"
  shows "with_connect mk (host_port hostname) (ds @ CHR '':'' # sc) = None"
proof (rule ccontr)
  assume "with_connect mk (host_port hostname) (ds @ CHR '':'' # sc) \<noteq> None"
  then obtain x r where "with_connect mk (host_port hostname) (ds @ CHR '':'' # sc) = Some (x, r)" by auto
  from with_connect_sound [OF reads_host this] obtain e sb c' sc' where
      s: "ds @ CHR '':'' # sc = sb @ CHR '':'' # sc' @ r" "host_spelling e sb" "connect_spelling c' sc'" by auto
  then obtain h p ps where h: "sb = h @ CHR '':'' # ps" "list_all host_char h" "port_spelling p ps"
    by (auto simp: host_spelling_def)
  have "CHR '':'' \<notin> set ds" using assms(1) digit_not_special by (auto simp: list_all_iff)
  then have sc: "sc = ps @ CHR '':'' # sc' @ r"
    using s(1) h host_no_colon [OF h(2)] by (simp add: colon_split)
  obtain d us where ps: "ps = d # us" "digit d" using h(3) by (cases ps) (auto simp: port_spelling_def)
  have "\<not> path_spelling c sc" "\<not> bracket_spelling c sc"
    using sc ps digit_not_special [OF ps(2)] path_head [of c sc] bracket_head [of c sc] by auto
  then obtain h2 p2 ps2 where h2: "sc = h2 @ CHR '':'' # ps2" "list_all host_char h2" "port_spelling p2 ps2"
    using assms(2) by (auto simp: connect_spelling_def host_spelling_def)
  then have "ps2 = sc' @ r"
    using sc host_no_colon [OF h2(2)] port_no_colon [OF h(3)] by (simp add: colon_split)
  then show False using h2(3) digits_no_connect [OF _ s(3), of r] by (simp add: port_spelling_def)
qed

lemma local_exact:
  assumes "rules = [unix_endpoint, host_port bracketed_ipv6, wildcard_port, host_port hostname, bare_port d]"
    and "bind_spelling d e sb" "connect_spelling c sc"
  shows "first_of (map (with_connect mk) rules @ others) (sb @ CHR '':'' # sc) = Some (mk e c, [])"
proof -
  note w = with_connect_complete [OF _ _ assms(3), of _ _ e sb mk]
  from assms(2) consider (path) "path_spelling e sb" | (bracket) "bracket_spelling e sb"
    | (wildcard) "wildcard_spelling e sb" | (host) "host_spelling e sb" "take 2 sb \<noteq> ''*:''"
    | (bare) "port_only_spelling d e sb"
    by (auto simp: bind_spelling_def listen_spelling_def)
  then show ?thesis
  proof cases
    case path
    then show ?thesis using w [OF reads_unix] by (simp add: assms(1))
  next
    case bracket
    then show ?thesis using w [OF reads_bracket] bracket_head [OF bracket]
      by (auto simp: assms(1) with_connect_None unix_fails)
  next
    case wildcard
    then show ?thesis using w [OF reads_wildcard] wildcard_head [OF wildcard]
      by (auto simp: assms(1) with_connect_None unix_fails bracket_fails)
  next
    case host
    obtain c1 t where t: "sb = c1 # t" "host_char c1" using host_head [OF host(1)] by blast
    have "t \<noteq> []" using host(1) t by (auto simp: host_spelling_def port_spelling_def Cons_eq_append_conv)
    then have "take 2 (sb @ CHR '':'' # sc) = take 2 sb" using t by (cases t) auto
    then show ?thesis using host w [OF reads_host] t
      by (simp add: assms(1) with_connect_None unix_fails bracket_fails wildcard_fails host_char_def)
  next
    case bare
    then obtain p where p: "e = Tcp d p" "port_spelling p sb" by (auto simp: port_only_spelling_def)
    obtain c1 t where t: "sb = c1 # t" "digit c1" using port_only_head [OF bare] by blast
    have "take 2 (sb @ CHR '':'' # sc) \<noteq> ''*:''" using t digit_not_special [OF t(2)] by auto
    moreover have "list_all digit sb" using p(2) by (simp add: port_spelling_def)
    ultimately show ?thesis
      using w [OF reads_bare, OF bare] no_host_before_connect [OF _ assms(3), of sb mk] t digit_not_special [OF t(2)]
      by (simp add: assms(1) with_connect_None unix_fails bracket_fails wildcard_fails)
  qed
qed

text \<open>A listening address alone cannot be read as a bind address with something to connect to.\<close>

definition prefixed :: "string \<Rightarrow> bool" where
  "prefixed s \<longleftrightarrow> (\<exists>h ds. s = h @ CHR '':'' # ds \<and> CHR '':'' \<notin> set h \<and> list_all digit ds
     \<and> h \<noteq> [] \<and> hd h \<noteq> CHR ''['' \<and> hd h \<noteq> CHR ''/'')"

definition bracketed :: "string \<Rightarrow> bool" where
  "bracketed s \<longleftrightarrow> (\<exists>h ds. s = CHR ''['' # h @ CHR '']'' # CHR '':'' # ds \<and> CHR '']'' \<notin> set h \<and> list_all digit ds)"

lemma host_prefixed: "host_spelling e s \<Longrightarrow> prefixed s"
  unfolding host_spelling_def prefixed_def port_spelling_def
  by (elim exE conjE, rule_tac x = h in exI, rule_tac x = ps in exI)
    (auto simp: neq_Nil_conv host_char_def host_no_colon)

lemma wildcard_prefixed: "wildcard_spelling e s \<Longrightarrow> prefixed s"
  unfolding wildcard_spelling_def prefixed_def port_spelling_def
  by (elim exE conjE, rule_tac x = "''*''" in exI, rule_tac x = ps in exI) auto

lemma bracket_bracketed: "bracket_spelling e s \<Longrightarrow> bracketed s"
  unfolding bracket_spelling_def bracketed_def port_spelling_def by fastforce

lemma listen_shape:
  "listen_spelling d e s \<Longrightarrow> s \<noteq> [] \<and> hd s \<noteq> CHR ''/'' \<and> (list_all digit s \<or> prefixed s \<or> bracketed s)"
  using host_prefixed [of e s] wildcard_prefixed [of e s] bracket_bracketed [of e s] port_only_head [of d e s]
    bracket_head [of e s] wildcard_head [of e s] host_head [of e s] digit_not_special
  by (auto simp: listen_spelling_def port_only_spelling_def port_spelling_def host_char_def)

lemma digits_no_colon: "list_all digit ds \<Longrightarrow> ds \<noteq> a @ CHR '':'' # b"
  using digit_not_special [of "CHR '':''"] by (auto simp: list_all_iff)

lemma bracket_split:
  assumes "CHR '']'' \<notin> set a" "CHR '']'' \<notin> set c"
  shows "a @ CHR '']'' # b = c @ CHR '']'' # d \<longleftrightarrow> a = c \<and> b = d"
  using assms by (induction a arbitrary: c) (case_tac c; auto)+

lemma listen_not_connect:
  assumes s: "list_all digit s \<or> prefixed s \<or> bracketed s" "s = sb @ CHR '':'' # sc @ r"
    and sb: "list_all digit sb \<or> prefixed sb \<or> bracketed sb" and sc: "connect_spelling c sc"
  shows False
proof -
  have not_digits: "\<not> list_all digit s" using digits_no_colon s(2) by blast
  then consider (host) h ds where "s = h @ CHR '':'' # ds" "CHR '':'' \<notin> set h" "list_all digit ds"
      "h \<noteq> []" "hd h \<noteq> CHR ''[''"
    | (bracket) h ds where "s = CHR ''['' # h @ CHR '']'' # CHR '':'' # ds" "CHR '']'' \<notin> set h" "list_all digit ds"
    using s(1) unfolding prefixed_def bracketed_def by blast
  then show False
  proof cases
    case host
    from sb consider "list_all digit sb" | "prefixed sb" | "bracketed sb" by blast
    then show False
    proof cases
      case 1
      then have "CHR '':'' \<notin> set sb" using digit_not_special [of "CHR '':''"] by (auto simp: list_all_iff)
      then have "ds = sc @ r" using host(1,2) s(2) by (simp add: colon_split)
      then show False using digits_no_connect [OF _ sc, of r] host(3) by simp
    next
      case 2
      then obtain h' ps where sb': "sb = h' @ CHR '':'' # ps" "CHR '':'' \<notin> set h'" by (auto simp: prefixed_def)
      then have "ds = ps @ CHR '':'' # sc @ r" using host(1,2) s(2) by (simp add: colon_split)
      then show False using digits_no_colon host(3) by blast
    next
      case 3
      then show False using host s(2) by (cases h) (auto simp: bracketed_def)
    qed
  next
    case bracket
    from sb consider "list_all digit sb" | "prefixed sb" | "bracketed sb" by blast
    then show False
    proof cases
      case 1
      then show False using bracket(1) s(2) digit_not_special by (cases sb) auto
    next
      case 2
      then obtain h' ps where "sb = h' @ CHR '':'' # ps" "h' \<noteq> []" "hd h' \<noteq> CHR ''[''" by (auto simp: prefixed_def)
      then show False using bracket(1) s(2) by (cases h') auto
    next
      case 3
      then obtain h' ps where "sb = CHR ''['' # h' @ CHR '']'' # CHR '':'' # ps" "CHR '']'' \<notin> set h'"
        by (auto simp: bracketed_def)
      then have "ds = ps @ CHR '':'' # sc @ r" using bracket(1,2) s(2) by (simp add: bracket_split)
      then show False using digits_no_colon bracket(3) by blast
    qed
  qed
qed

lemma listen_fails:
  assumes "listen_spelling d e s" "reads b Sb"
    and "\<And>e t. Sb e t \<Longrightarrow> t \<noteq> [] \<and> hd t = CHR ''/'' \<or> list_all digit t \<or> prefixed t \<or> bracketed t"
  shows "with_connect mk b s = None"
proof (rule ccontr)
  assume "with_connect mk b s \<noteq> None"
  then obtain x r where "with_connect mk b s = Some (x, r)" by auto
  from with_connect_sound [OF assms(2) this] obtain e' sb c sc where
      sb: "s = sb @ CHR '':'' # sc @ r" "Sb e' sb" "connect_spelling c sc" by auto
  have "hd s \<noteq> CHR ''/''" using listen_shape [OF assms(1)] by blast
  then have "\<not> (sb \<noteq> [] \<and> hd sb = CHR ''/'')" using sb(1) by (cases sb) auto
  then show False using listen_not_connect [OF _ sb(1) _ sb(3)] listen_shape [OF assms(1)] assms(3) [OF sb(2)] by blast
qed

lemma listen_alternatives:
  assumes "listen_spelling d e s"
    and "b \<in> {unix_endpoint, host_port bracketed_ipv6, wildcard_port, host_port hostname, bare_port d'}"
  shows "with_connect mk b s = None"
proof -
  note f = listen_fails [OF assms(1), of _ _ mk]
  have "with_connect mk unix_endpoint s = None" by (rule f [OF reads_unix]) (auto simp: path_spelling_def)
  moreover have "with_connect mk (host_port bracketed_ipv6) s = None"
    by (rule f [OF reads_bracket]) (blast dest: bracket_bracketed)
  moreover have "with_connect mk wildcard_port s = None"
    by (rule f [OF reads_wildcard]) (blast dest: wildcard_prefixed)
  moreover have "with_connect mk (host_port hostname) s = None"
    by (rule f [OF reads_host]) (blast dest: host_prefixed)
  moreover have "with_connect mk (bare_port d') s = None"
    by (rule f [OF reads_bare]) (auto simp: port_only_spelling_def port_spelling_def)
  ultimately show ?thesis using assms(2) by blast
qed

definition bind_rules :: "string \<Rightarrow> endpoint peg list" where
  "bind_rules d = [host_port bracketed_ipv6, wildcard_port, host_port hostname, bare_port d]"

lemma listen_exact:
  assumes "listen_spelling d e s" "f e [] = Some y"
  shows "first_of (map (\<lambda>b. thenP b f) (bind_rules d)) s = Some y"
proof -
  have w: "thenP b f s = Some y" if "reads b Sb" "Sb e s" for b Sb
    using reads_complete [OF that, of "[]"] assms(2) by (simp add: thenP_def)
  from assms(1) consider (bracket) "bracket_spelling e s" | (wildcard) "wildcard_spelling e s"
    | (host) "host_spelling e s" "take 2 s \<noteq> ''*:''" | (bare) "port_only_spelling d e s"
    by (auto simp: listen_spelling_def)
  then show ?thesis
  proof cases
    case bracket
    then show ?thesis using w [OF reads_bracket] by (simp add: bind_rules_def)
  next
    case wildcard
    then show ?thesis using w [OF reads_wildcard] wildcard_head [OF wildcard]
      by (auto simp: bind_rules_def thenP_None bracket_fails)
  next
    case host
    obtain c t where t: "s = c # t" "host_char c" using host_head [OF host(1)] by blast
    then show ?thesis using w [OF reads_host] host
      by (simp add: bind_rules_def thenP_None bracket_fails wildcard_fails host_char_def)
  next
    case bare
    obtain c t where t: "s = c # t" "digit c" using port_only_head [OF bare] by blast
    have "list_all digit s" using bare by (auto simp: port_only_spelling_def port_spelling_def)
    then have "host_port hostname s = None"
      using digits_no_colon by (intro reads_None [OF reads_host]) (fastforce simp: host_spelling_def)
    then show ?thesis using w [OF reads_bare] bare t digit_not_special [OF t(2)]
      by (simp add: bind_rules_def thenP_None bracket_fails wildcard_fails)
  qed
qed

lemma star_host:
  assumes "host_spelling e s" "take 2 s = ''*:''"
  shows "\<exists>p. wildcard_spelling (Tcp [] p) s"
proof -
  from assms(1) obtain h p ps where h: "s = h @ CHR '':'' # ps" "h \<noteq> []" "list_all host_char h" "port_spelling p ps"
    by (auto simp: host_spelling_def)
  obtain c t where "h = c # t" using h(2) by (cases h) auto
  moreover from this have "t = []" using assms(2) h(1) host_no_colon [OF h(3)] by (cases t) auto
  ultimately show ?thesis using h assms(2) by (auto simp: wildcard_spelling_def)
qed

lemma listen_some: "host_spelling e s \<Longrightarrow> \<exists>e'. listen_spelling d e' s"
  using star_host [of e s] by (cases "take 2 s = ''*:''") (auto simp: listen_spelling_def)

lemma bind_rule_reads:
  assumes "b \<in> set (bind_rules d)"
  shows "\<exists>Sb. reads b Sb \<and> (\<forall>e t. Sb e t \<longrightarrow> (\<exists>e'. listen_spelling d e' t))"
proof -
  have direct: "\<exists>Sb. reads b Sb \<and> (\<forall>e t. Sb e t \<longrightarrow> (\<exists>e'. listen_spelling d e' t))"
    if "reads b Sb" "\<And>e t. Sb e t \<Longrightarrow> \<exists>e'. listen_spelling d e' t" for Sb using that by blast
  from assms consider "b = host_port bracketed_ipv6" | "b = wildcard_port" | "b = host_port hostname"
      | "b = bare_port d" by (auto simp: bind_rules_def)
  then show ?thesis
  proof cases
    case 1
    show ?thesis by (rule direct [of bracket_spelling]) (auto simp: 1 reads_bracket listen_spelling_def)
  next
    case 2
    show ?thesis by (rule direct [of wildcard_spelling]) (auto simp: 2 reads_wildcard listen_spelling_def)
  next
    case 3
    show ?thesis by (rule direct [of host_spelling]) (simp_all add: 3 reads_host listen_some)
  next
    case 4
    show ?thesis by (rule direct [of "port_only_spelling d"]) (auto simp: 4 reads_bare listen_spelling_def)
  qed
qed

lemma listen_rules_sound:
  assumes "b \<in> set (bind_rules d)" "b s = Some (e, [])"
  shows "\<exists>e'. listen_spelling d e' s"
proof -
  obtain Sb where "reads b Sb" "\<forall>e t. Sb e t \<longrightarrow> (\<exists>e'. listen_spelling d e' t)"
    using bind_rule_reads [OF assms(1)] by blast
  then show ?thesis using reads_sound [of b Sb s e "[]"] assms(2) by auto
qed

lemma connect_rules_sound:
  assumes "b \<in> set (unix_endpoint # bind_rules d)" "with_connect mk b s = Some (x, [])"
  shows "\<exists>e sb c sc. s = sb @ CHR '':'' # sc \<and> bind_spelling d e sb \<and> connect_spelling c sc"
proof -
  obtain Sb where "reads b Sb" "\<forall>e t. Sb e t \<longrightarrow> (\<exists>e'. bind_spelling d e' t)"
  proof (cases "b = unix_endpoint")
    case True
    then show thesis using that [of path_spelling] reads_unix by (auto simp: bind_spelling_def)
  next
    case False
    then obtain Sb where "reads b Sb" "\<forall>e t. Sb e t \<longrightarrow> (\<exists>e'. listen_spelling d e' t)"
      using assms(1) bind_rule_reads [of b d] by auto
    then show thesis using that [of Sb] by (auto simp: bind_spelling_def)
  qed
  with with_connect_sound [OF this(1) assms(2)] show ?thesis by fastforce
qed

lemma connect_rules_exact:
  "(\<exists>b \<in> set (unix_endpoint # bind_rules d). with_connect mk b s = Some (x, []))
     \<and> first_of (map (with_connect mk) (unix_endpoint # bind_rules d) @ others) s = Some (x, [])
   \<longleftrightarrow> (\<exists>e sb c sc. s = sb @ CHR '':'' # sc \<and> bind_spelling d e sb \<and> connect_spelling c sc \<and> x = mk e c)"
  (is "?l \<longleftrightarrow> ?r")
proof
  assume l: ?l
  then obtain b where "b \<in> set (unix_endpoint # bind_rules d)" "with_connect mk b s = Some (x, [])" by blast
  from connect_rules_sound [OF this] obtain e sb c sc where
      s: "s = sb @ CHR '':'' # sc" "bind_spelling d e sb" "connect_spelling c sc" by blast
  from local_exact [OF _ s(2,3), of _ mk others] l s show ?r by (auto simp: bind_rules_def)
next
  assume ?r
  then obtain e sb c sc where s: "s = sb @ CHR '':'' # sc" "bind_spelling d e sb" "connect_spelling c sc" "x = mk e c"
    by blast
  from local_exact [OF _ s(2,3), of _ mk "[]"] s
  have "first_of (map (with_connect mk) (unix_endpoint # bind_rules d)) s = Some (x, [])" by (simp add: bind_rules_def)
  from first_of_Some [OF this] local_exact [OF _ s(2,3), of _ mk others] s
  show ?l by (auto simp: bind_rules_def)
qed

lemma listen_tcp: "listen_spelling d e s \<Longrightarrow> \<exists>h p. e = Tcp h p"
  by (auto simp: listen_spelling_def bracket_spelling_def wildcard_spelling_def host_spelling_def
      port_only_spelling_def)

lemma listen_rules_exact:
  assumes f: "\<And>e r y r'. f e r = Some (y, r') \<Longrightarrow> r' = r" "\<And>h p. f (Tcp h p) [] = Some (g h p, [])"
  shows "first_of (map (\<lambda>b. thenP b f) (bind_rules d)) s = Some (x, [])
     \<longleftrightarrow> (\<exists>h p. listen_spelling d (Tcp h p) s \<and> x = g h p)"
proof
  assume l: "first_of (map (\<lambda>b. thenP b f) (bind_rules d)) s = Some (x, [])"
  from first_of_Some [OF this] obtain b e r where b: "b \<in> set (bind_rules d)" "b s = Some (e, r)" "f e r = Some (x, [])"
    by (auto simp: thenP_Some)
  have "r = []" using f(1) [OF b(3)] by simp
  with b obtain e' where "listen_spelling d e' s" using listen_rules_sound by blast
  with listen_tcp [OF this] obtain h p where e': "listen_spelling d (Tcp h p) s" by blast
  from listen_exact [where f = f, OF e' f(2)] l have "x = g h p" by simp
  with e' show "\<exists>h p. listen_spelling d (Tcp h p) s \<and> x = g h p" by blast
next
  assume "\<exists>h p. listen_spelling d (Tcp h p) s \<and> x = g h p"
  then show "first_of (map (\<lambda>b. thenP b f) (bind_rules d)) s = Some (x, [])"
    using listen_exact [where f = f] f(2) by blast
qed

subsection \<open>The options\<close>

lemma local_forward_exact:
  "local_forward_from_str s = Some f \<longleftrightarrow> (\<exists>sb sc. s = sb @ CHR '':'' # sc
     \<and> bind_spelling ''127.0.0.1'' (local_bind f) sb \<and> connect_spelling (local_connect f) sc)"
proof -
  let ?mk = "\<lambda>b c. \<lparr>local_bind = b, local_connect = c\<rparr>"
  let ?rules = "unix_endpoint # bind_rules ''127.0.0.1''"
  have rule: "local_forward_rule = first_of (map (with_connect ?mk) ?rules)"
    by (simp add: local_forward_rule_def bind_rules_def)
  have "local_forward_from_str s = Some f \<longleftrightarrow> first_of (map (with_connect ?mk) ?rules @ []) s = Some (f, [])"
    by (simp add: local_forward_from_str_def whole_Some rule)
  also have "\<dots> \<longleftrightarrow> (\<exists>b \<in> set ?rules. with_connect ?mk b s = Some (f, []))
      \<and> first_of (map (with_connect ?mk) ?rules @ []) s = Some (f, [])"
    using first_of_Some [of "map (with_connect ?mk) ?rules @ []" s "(f, [])"] by auto
  also have "\<dots> \<longleftrightarrow> (\<exists>e sb c sc. s = sb @ CHR '':'' # sc \<and> bind_spelling ''127.0.0.1'' e sb
      \<and> connect_spelling c sc \<and> f = ?mk e c)"
    by (rule connect_rules_exact)
  finally show ?thesis by (cases f) auto
qed

lemma remote_forward_exact:
  "remote_forward_from_str s = Some f \<longleftrightarrow> (case remote_connect f of
       Some c \<Rightarrow> \<exists>sb sc. s = sb @ CHR '':'' # sc
         \<and> bind_spelling CANONICAL_REMOTE_LOOPBACK_HOST (remote_bind f) sb \<and> connect_spelling c sc
     | None \<Rightarrow> listen_spelling CANONICAL_REMOTE_LOOPBACK_HOST (remote_bind f) s)"
proof -
  let ?d = CANONICAL_REMOTE_LOOPBACK_HOST and ?mk = "\<lambda>b c. \<lparr>remote_bind = b, remote_connect = Some c\<rparr>"
  let ?with = "map (with_connect ?mk) (unix_endpoint # bind_rules ?d)"
  let ?listen = "map (\<lambda>b. thenP b (\<lambda>b. giveP \<lparr>remote_bind = b, remote_connect = None\<rparr>)) (bind_rules ?d)"
  have rule: "remote_forward_from_str s = Some f \<longleftrightarrow> first_of (?with @ ?listen) s = Some (f, [])"
    by (simp add: remote_forward_from_str_def remote_forward_rule_def whole_Some bind_rules_def listen_only_def)
  have listens: "first_of ?listen s = Some (f, []) \<longleftrightarrow>
      (\<exists>h p. listen_spelling ?d (Tcp h p) s \<and> f = \<lparr>remote_bind = Tcp h p, remote_connect = None\<rparr>)"
    by (rule listen_rules_exact) (simp_all add: giveP_def)
  have skip: "first_of (?with @ ?listen) s = first_of ?listen s" if "listen_spelling ?d e s" for e
    using listen_alternatives [OF that, of _ ?d ?mk] by (simp add: bind_rules_def)
  show ?thesis
  proof (cases "remote_connect f")
    case None
    have "first_of (?with @ ?listen) s = Some (f, []) \<longleftrightarrow> first_of ?listen s = Some (f, [])"
    proof
      assume l: "first_of (?with @ ?listen) s = Some (f, [])"
      have "\<not> (\<exists>b \<in> set (unix_endpoint # bind_rules ?d). with_connect ?mk b s = Some (f, []))"
        using l connect_rules_exact [of ?d ?mk s f ?listen] None by auto
      then have "with_connect ?mk b s \<noteq> Some (f, [])" if "b \<in> set (unix_endpoint # bind_rules ?d)" for b
        using that by blast
      then obtain b where "b \<in> set ?listen" "b s = Some (f, [])" using first_of_Some [OF l] by auto
      then obtain b' where "b' \<in> set (bind_rules ?d)" "b' s = Some (remote_bind f, [])"
        by (auto simp: thenP_Some)
      from listen_rules_sound [OF this] skip l show "first_of ?listen s = Some (f, [])" by metis
    next
      assume l: "first_of ?listen s = Some (f, [])"
      then show "first_of (?with @ ?listen) s = Some (f, [])" using listens skip by auto
    qed
    then show ?thesis using rule listens None listen_tcp by fastforce
  next
    case (Some c)
    have "\<not> (\<exists>b \<in> set ?listen. b s = Some (f, []))" using Some by (auto simp: thenP_Some)
    then have "first_of (?with @ ?listen) s = Some (f, []) \<longleftrightarrow>
        (\<exists>b \<in> set (unix_endpoint # bind_rules ?d). with_connect ?mk b s = Some (f, []))
        \<and> first_of (?with @ ?listen) s = Some (f, [])"
      using first_of_Some [of "?with @ ?listen" s "(f, [])"] by auto
    also have "\<dots> \<longleftrightarrow> (\<exists>e sb c sc. s = sb @ CHR '':'' # sc \<and> bind_spelling ?d e sb
        \<and> connect_spelling c sc \<and> f = ?mk e c)"
      by (rule connect_rules_exact)
    finally show ?thesis using rule Some by (cases f) auto
  qed
qed

lemma dynamic_forward_exact:
  "dynamic_forward_from_str s = Some f \<longleftrightarrow> listen_spelling ''127.0.0.1'' (Tcp (dyn_host f) (dyn_port f)) s"
proof -
  let ?f = "\<lambda>b. case b of Tcp h p \<Rightarrow> giveP \<lparr>dyn_host = h, dyn_port = p\<rparr> | Unix _ \<Rightarrow> (\<lambda>_. None)"
  have "dynamic_forward_from_str s = Some f \<longleftrightarrow>
      first_of (map (\<lambda>b. thenP b ?f) (bind_rules ''127.0.0.1'')) s = Some (f, [])"
    by (simp add: dynamic_forward_from_str_def dynamic_forward_rule_def whole_Some bind_rules_def to_dynamic_def)
  also have "\<dots> \<longleftrightarrow> (\<exists>h p. listen_spelling ''127.0.0.1'' (Tcp h p) s \<and> f = \<lparr>dyn_host = h, dyn_port = p\<rparr>)"
    by (rule listen_rules_exact) (auto simp: giveP_def split: endpoint.splits)
  finally show ?thesis by (cases f) auto
qed

text \<open>
  C15: forwarding rules are read exactly. An argument of \<open>-L\<close>, \<open>-R\<close> or \<open>-D\<close> is accepted exactly
  when it is one of the documented spellings, and it means the rule so spelled: the ordered
  alternatives of the grammar, which commit to the first that succeeds, reject no documented
  spelling and give none a second meaning.
\<close>

theorem forward_specs_exact:
  "(local_forward_from_str s = Some l \<longleftrightarrow> (\<exists>sb sc. s = sb @ '':'' @ sc
      \<and> bind_spelling ''127.0.0.1'' (local_bind l) sb \<and> connect_spelling (local_connect l) sc))
   \<and> (remote_forward_from_str s = Some r \<longleftrightarrow> (case remote_connect r of
        Some c \<Rightarrow> \<exists>sb sc. s = sb @ '':'' @ sc \<and> bind_spelling ''localhost'' (remote_bind r) sb \<and> connect_spelling c sc
      | None \<Rightarrow> listen_spelling ''localhost'' (remote_bind r) s))
   \<and> (dynamic_forward_from_str s = Some d \<longleftrightarrow>
        listen_spelling ''127.0.0.1'' (Tcp (dyn_host d) (dyn_port d)) s)"
  unfolding append_Cons append_Nil
  using local_forward_exact remote_forward_exact [unfolded CANONICAL_REMOTE_LOOPBACK_HOST_def] dynamic_forward_exact
  by (intro conjI)

text \<open>
  An endpoint is displayed the way it is written on the command line, so joining two displayed
  endpoints by a colon gives the rule back. A connect endpoint has a host.
\<close>

definition endpoint_ok :: "endpoint \<Rightarrow> bool" where
  "endpoint_ok e = (case e of
       Tcp h _ \<Rightarrow> if CHR '':'' \<in> set h then CHR '']'' \<notin> set h else list_all host_char h \<and> h \<noteq> ''*''
     | Unix p \<Rightarrow> path_spelling e p)"

lemma port_spelling_show: "port_spelling p (show_port p)"
  using unsigned_less [of p] by (simp add: port_spelling_def show_port_def show_nat_digits show_nat_value)

lemma not_star:
  assumes "h \<noteq> []" "CHR '':'' \<notin> set h" "h \<noteq> ''*''"
  shows "take 2 (h @ CHR '':'' # r) \<noteq> ''*:''"
proof -
  obtain c t where h: "h = c # t" using assms(1) by (cases h) auto
  show ?thesis using assms(2,3) by (cases t) (auto simp: h)
qed

lemma endpoint_display_spells:
  assumes "endpoint_ok e"
  shows "bind_spelling d e (endpoint_display e) \<and> ((\<forall>q. e \<noteq> Tcp [] q) \<longrightarrow> connect_spelling e (endpoint_display e))"
proof -
  consider (path) q where "e = Unix q" | (any) q where "e = Tcp [] q"
    | (bracket) h q where "e = Tcp h q" "h \<noteq> []" "CHR '':'' \<in> set h"
    | (host) h q where "e = Tcp h q" "h \<noteq> []" "CHR '':'' \<notin> set h"
    by (cases e) auto
  then show ?thesis
  proof cases
    case path
    then show ?thesis using assms
      by (simp add: endpoint_ok_def endpoint_display_def bind_spelling_def connect_spelling_def)
  next
    case any
    then show ?thesis using port_spelling_show [of q]
      by (simp add: endpoint_display_def bind_spelling_def listen_spelling_def wildcard_spelling_def)
  next
    case bracket
    then have "bracket_spelling e (endpoint_display e)"
      using assms port_spelling_show [of q] by (simp add: endpoint_ok_def endpoint_display_def bracket_spelling_def)
    then show ?thesis by (simp add: bind_spelling_def listen_spelling_def connect_spelling_def)
  next
    case host
    then have s: "endpoint_display e = h @ CHR '':'' # show_port q" and h: "list_all host_char h" "h \<noteq> ''*''"
      using assms by (simp_all add: endpoint_ok_def endpoint_display_def)
    have "host_spelling e (endpoint_display e)"
      unfolding s host_spelling_def using host h port_spelling_show [of q] by simp
    with not_star [OF host(2,3) h(2)] s show ?thesis
      by (simp add: bind_spelling_def listen_spelling_def connect_spelling_def)
  qed
qed

theorem displayed_rule_roundtrip:
  assumes "endpoint_ok b" "endpoint_ok c" "\<forall>q. c \<noteq> Tcp [] q"
  shows "local_forward_from_str (endpoint_display b @ '':'' @ endpoint_display c) = Some \<lparr>local_bind = b, local_connect = c\<rparr>"
  using endpoint_display_spells [OF assms(1)] endpoint_display_spells [OF assms(2)] assms(3)
  unfolding local_forward_exact
  by (intro exI [of _ "endpoint_display b"] exI [of _ "endpoint_display c"]) simp

text \<open>The display of a dynamic rule does not bracket an IPv6 address and cannot be read back.\<close>

theorem dynamic_display_not_bracketed:
  "dynamic_forward_from_str ''[::1]:80'' = Some \<lparr>dyn_host = ''::1'', dyn_port = 80\<rparr>"
  "dynamic_forward_display \<lparr>dyn_host = ''::1'', dyn_port = 80\<rparr> = ''::1:80''"
  "dynamic_forward_from_str ''::1:80'' = None"
proof -
  have "port_spelling 80 ''80''" by (simp add: port_spelling_def digit_def code_def)
  then show "dynamic_forward_from_str ''[::1]:80'' = Some \<lparr>dyn_host = ''::1'', dyn_port = 80\<rparr>"
    by (simp add: dynamic_forward_exact listen_spelling_def bracket_spelling_def)
  show "dynamic_forward_display \<lparr>dyn_host = ''::1'', dyn_port = 80\<rparr> = ''::1:80''"
    by (simp add: dynamic_forward_display_def show_port_def show_nat.simps digit_char_def char_of_def bit_0)
  have "dynamic_forward_rule (CHR '':'' # s) = None" for s
    by (simp add: dynamic_forward_rule_def to_dynamic_def thenP_None bracket_fails wildcard_fails host_fails
        bare_fails host_char_def digit_def code_def)
  then show "dynamic_forward_from_str ''::1:80'' = None"
    by (simp add: dynamic_forward_from_str_def whole_def)
qed

end
