(* ===== verification/Forward_Direct.thy ===== *)
theory Forward_Direct
  imports Forward_Messages Text_Util
begin

text \<open>
  The server's handlers for \<open>direct-tcpip\<close> and \<open>direct-streamlocal@openssh.com\<close> channels
  (\<open>src/forward/direct.rs\<close>). Connecting is a parameter: from the address to an error or the
  two halves of the connected stream.
\<close>

datatype direct_forward_error =
    DF_Decode codec_error | DF_DecodeVarint io_error
  | DF_Accept write_channel_open_confirmation_error | DF_Reject write_channel_open_failure_error
  | DF_Relay io_error

definition U16_LIMIT :: nat where "U16_LIMIT = 2 ^ 16"

definition send_open_failure ::
    "varint_api \<Rightarrow> nat \<Rightarrow> string \<Rightarrow> (ssh_channel, direct_forward_error, unit) io" where
  "send_open_failure V reason desc =
     ctx DF_Reject (pending_reject V reason (ssh_string_from desc))"

definition send_open_confirmation :: "varint_api \<Rightarrow> (ssh_channel, direct_forward_error, unit) io" where
  "send_open_confirmation V = ctx DF_Accept (pending_accept V DEFAULT_MAX_MESSAGE_SIZE)"

text \<open>
  The two copies run concurrently on disjoint streams, so their effects commute; the first
  direction's error is reported first. The result carries both ends.
\<close>

definition relay_bidirectional ::
    "nat \<Rightarrow> ssh_channel \<Rightarrow> ssh_channel \<Rightarrow> (direct_forward_error + unit) \<times> ssh_channel \<times> ssh_channel" where
  "relay_bidirectional lag c t =
     (case relay lag (ch_reader c, ch_writer t) of (r1, (cr, tw)) \<Rightarrow>
      case relay lag (ch_reader t, ch_writer c) of (r2, (tr, cw)) \<Rightarrow>
        (case r1 of
           Inl e \<Rightarrow> Inl (DF_Relay e)
         | Inr _ \<Rightarrow> (case r2 of Inl e \<Rightarrow> Inl (DF_Relay e) | Inr _ \<Rightarrow> Inr ()),
         \<lparr>ch_reader = cr, ch_writer = cw\<rparr>, \<lparr>ch_reader = tr, ch_writer = tw\<rparr>))"

text \<open>After the destination is known: connect, then reject or confirm and relay.\<close>

definition connect_and_relay ::
    "varint_api \<Rightarrow> nat \<Rightarrow> io_error + ssh_channel \<Rightarrow> ssh_channel
     \<Rightarrow> (direct_forward_error + unit) \<times> ssh_channel \<times> ssh_channel option" where
  "connect_and_relay V lag target c = (case target of
       Inl _ \<Rightarrow>
         (case send_open_failure V CONNECT_FAILED ''connect failed'' c of (r, c') \<Rightarrow> (r, c', None))
     | Inr t \<Rightarrow>
         (case send_open_confirmation V c of
            (Inl e, c') \<Rightarrow> (Inl e, c', Some t)
          | (Inr _, c') \<Rightarrow> (case relay_bidirectional lag c' t of (r, c'', t') \<Rightarrow> (r, c'', Some t'))))"

definition read_direct_tcpip :: "varint_api \<Rightarrow> (reader, direct_forward_error, ssh_string \<times> nat) io" where
  "read_direct_tcpip V =
     bindS (ctx DF_Decode (dec_ssh_string V)) (\<lambda>dest_host.
     bindS (ctx DF_DecodeVarint (decode_varint V)) (\<lambda>dest_port.
     bindS (ctx DF_Decode (dec_ssh_string V)) (\<lambda>originator_host.
     bindS (ctx DF_DecodeVarint (decode_varint V)) (\<lambda>originator_port.
       okS (dest_host, dest_port)))))"

definition handle_direct_tcpip ::
    "varint_api \<Rightarrow> nat \<Rightarrow> (string \<Rightarrow> io_error + ssh_channel) \<Rightarrow> ssh_channel
     \<Rightarrow> (direct_forward_error + unit) \<times> ssh_channel \<times> ssh_channel option" where
  "handle_direct_tcpip V lag connect c =
     (case on_reader (read_direct_tcpip V) c of
        (Inl e, c') \<Rightarrow> (Inl e, c', None)
      | (Inr (dest_host, raw_port), c') \<Rightarrow>
          if U16_LIMIT \<le> raw_port
          then (case send_open_failure V ADMINISTRATIVELY_PROHIBITED ''invalid destination port'' c' of
                  (r, c'') \<Rightarrow> (r, c'', None))
          else connect_and_relay V lag (connect (text_of dest_host @ '':'' @ show_nat raw_port)) c')"

definition read_direct_streamlocal :: "varint_api \<Rightarrow> (reader, direct_forward_error, ssh_string) io" where
  "read_direct_streamlocal V =
     bindS (ctx DF_Decode (dec_ssh_string V)) (\<lambda>socket_path.
     bindS (ctx DF_Decode (dec_ssh_string V)) (\<lambda>reserved_string.
     bindS (ctx DF_DecodeVarint (decode_varint V)) (\<lambda>reserved_port.
       okS socket_path)))"

definition handle_direct_streamlocal ::
    "varint_api \<Rightarrow> nat \<Rightarrow> (string \<Rightarrow> io_error + ssh_channel) \<Rightarrow> ssh_channel
     \<Rightarrow> (direct_forward_error + unit) \<times> ssh_channel \<times> ssh_channel option" where
  "handle_direct_streamlocal V lag connect c =
     (case on_reader (read_direct_streamlocal V) c of
        (Inl e, c') \<Rightarrow> (Inl e, c', None)
      | (Inr socket_path, c') \<Rightarrow> connect_and_relay V lag (connect (text_of socket_path)) c')"

subsection \<open>Relaying\<close>

lemma relay_endless:
  assumes "endless w"
  shows "\<exists>w'. relay lag (rd bs None, w) = (Inr (length bs), (rd [] None, w'))
    \<and> w_out w' = w_out w @ bs \<and> w_shut w'"
  using assms
  by (simp add: relay_def copy_limited_def Let_def bindS_def write_all_def flush_def shutdown_def
      endless_def fits_def push_def)

lemma accept_endless:
  assumes "endless (ch_writer c)"
  shows "\<exists>w. pending_accept V n c = (Inr (), c\<lparr>ch_writer := w\<rparr>) \<and> endless w
    \<and> w_out w = w_out (ch_writer c) @ img_confirmation V n"
proof -
  have "sends (seqS [ctx WOC_EncodeMessageType (encode_varint V SSH_MSG_CHANNEL_OPEN_CONFIRMATION),
      ctx WOC_EncodeMaxMessageSize (encode_varint V n), ctx WOC_Flush flush]) (img_confirmation V n)"
    unfolding img_confirmation_def by (intro sends_intros emits_intros)
  from sends_endless [OF this assms] show ?thesis by (auto simp: pending_accept_def on_writer_def)
qed

lemma confirmation_endless:
  assumes "endless (ch_writer c)"
  shows "\<exists>w. send_open_confirmation V c = (Inr (), c\<lparr>ch_writer := w\<rparr>) \<and> endless w
    \<and> w_out w = w_out (ch_writer c) @ img_confirmation V DEFAULT_MAX_MESSAGE_SIZE"
  using accept_endless [OF assms, of V DEFAULT_MAX_MESSAGE_SIZE] by (auto simp: send_open_confirmation_def ctx_def)

lemma failure_endless:
  assumes "endless (ch_writer c)" "valid_ssh_string (lit d)"
  shows "\<exists>w. send_open_failure V n d c = (Inr (), c\<lparr>ch_writer := w\<rparr>)
    \<and> w_out w = w_out (ch_writer c) @ img_open_failure V n (lit d)"
proof -
  have "sends (seqS [ctx WOF_EncodeMessageType (encode_varint V SSH_MSG_CHANNEL_OPEN_FAILURE),
      ctx WOF_EncodeReasonCode (encode_varint V n), ctx WOF_EncodeDescription (enc_ssh_string V (lit d)),
      ctx WOF_Flush flush]) (img_open_failure V n (lit d))"
    unfolding img_open_failure_def using assms(2)
    by (intro sends_intros emits_intros) (simp_all add: valid_ssh_string_def size_limits)
  from sends_endless [OF this assms(1)] show ?thesis
    by (auto simp: send_open_failure_def pending_reject_def on_writer_def ctx_def ssh_string_from_def)
qed

lemma fixed_descriptions:
  "valid_ssh_string (lit ''connect failed'')" "valid_ssh_string (lit ''invalid destination port'')"
  by (simp_all add: valid_ssh_string_def utf8_valid_lit ascii_def byte_of_def MAX_REMOTE_FIELD_SIZE_def)

text \<open>What a forwarding channel amounts to once its destination is known.\<close>

definition forwards_to :: "varint_api \<Rightarrow> bytes \<Rightarrow> ssh_channel \<Rightarrow> io_error + ssh_channel
    \<Rightarrow> (direct_forward_error + unit) \<times> ssh_channel \<times> ssh_channel option \<Rightarrow> bool" where
  "forwards_to V sent c target result = (case target of
       Inl _ \<Rightarrow> fst result = Inr () \<and> snd (snd result) = None
         \<and> w_out (ch_writer (fst (snd result))) =
             w_out (ch_writer c) @ img_open_failure V CONNECT_FAILED (lit ''connect failed'')
     | Inr t \<Rightarrow> fst result = Inr () \<and> (\<exists>t'. snd (snd result) = Some t'
         \<and> w_out (ch_writer t') = w_out (ch_writer t) @ sent \<and> w_shut (ch_writer t'))
         \<and> w_out (ch_writer (fst (snd result))) =
             w_out (ch_writer c) @ img_confirmation V DEFAULT_MAX_MESSAGE_SIZE @ r_in (ch_reader t)
         \<and> w_shut (ch_writer (fst (snd result))))"

lemma relay_both:
  assumes "endless (ch_writer c)" "ch_reader c = rd a None" "endless (ch_writer t)" "ch_reader t = rd b None"
  shows "\<exists>c' t'. relay_bidirectional lag c t = (Inr (), c', t')
    \<and> w_out (ch_writer c') = w_out (ch_writer c) @ b \<and> w_shut (ch_writer c')
    \<and> w_out (ch_writer t') = w_out (ch_writer t) @ a \<and> w_shut (ch_writer t')"
  using relay_endless [OF assms(1), of lag b] relay_endless [OF assms(3), of lag a] assms(2,4)
  by (auto simp: relay_bidirectional_def)

lemma connect_and_relay_spec:
  assumes "endless (ch_writer c)" "ch_reader c = rd sent None"
    and "\<And>t. target = Inr t \<Longrightarrow> endless (ch_writer t) \<and> r_end (ch_reader t) = None"
  shows "forwards_to V sent c target (connect_and_relay V lag target c)"
proof (cases target)
  case (Inl e)
  from failure_endless [OF assms(1) fixed_descriptions(1), of V CONNECT_FAILED]
  show ?thesis by (auto simp: Inl connect_and_relay_def forwards_to_def)
next
  case (Inr t)
  from confirmation_endless [OF assms(1), of V] obtain w where w:
      "send_open_confirmation V c = (Inr (), c\<lparr>ch_writer := w\<rparr>)" "endless w"
      "w_out w = w_out (ch_writer c) @ img_confirmation V DEFAULT_MAX_MESSAGE_SIZE" by blast
  have t: "endless (ch_writer t)" "ch_reader t = rd (r_in (ch_reader t)) None"
    using assms(3) [OF Inr] by (simp, metis reader_eta)
  from relay_both [of "c\<lparr>ch_writer := w\<rparr>" sent t "r_in (ch_reader t)" lag] w(2) t assms(2)
  show ?thesis using Inr w(1,3) by (auto simp: connect_and_relay_def forwards_to_def)
qed

context varint_codec
begin

lemma read_direct_tcpip_img:
  assumes "valid_direct_tcpip p"
  shows "read_direct_tcpip V (rd (img_direct_tcpip V p @ rest) e) = (Inr (dt_dest_host p, dt_dest_port p), rd rest e)"
  using assms
  by (simp add: read_direct_tcpip_def img_direct_tcpip_def valid_direct_tcpip_def io_simps wire)

lemma read_direct_streamlocal_img:
  assumes "valid_direct_streamlocal p"
  shows "read_direct_streamlocal V (rd (img_direct_streamlocal V p @ rest) e) = (Inr (ds_socket_path p), rd rest e)"
  using assms
  by (simp add: read_direct_streamlocal_def img_direct_streamlocal_def valid_direct_streamlocal_def
      io_simps wire)

lemma handle_direct_img:
  assumes "ch_reader c = rd (img @ sent) None"
  shows "img = img_direct_tcpip V p \<Longrightarrow> valid_direct_tcpip p \<Longrightarrow> dt_dest_port p < 65536 \<Longrightarrow>
      handle_direct_tcpip V lag connect c
        = connect_and_relay V lag (connect (text_of (dt_dest_host p) @ '':'' @ show_nat (dt_dest_port p)))
            (c\<lparr>ch_reader := rd sent None\<rparr>)"
    and "img = img_direct_streamlocal V q \<Longrightarrow> valid_direct_streamlocal q \<Longrightarrow>
      handle_direct_streamlocal V lag connect c
        = connect_and_relay V lag (connect (text_of (ds_socket_path q))) (c\<lparr>ch_reader := rd sent None\<rparr>)"
  using assms read_direct_tcpip_img [of p sent None] read_direct_streamlocal_img [of q sent None]
  by (simp_all add: handle_direct_tcpip_def handle_direct_streamlocal_def on_reader_def U16_LIMIT_def)

end

text \<open>
  C39: direct forwarding. A \<open>direct-tcpip\<close> channel carrying the client's payload is connected to
  exactly the host and port the client named: if connecting works the client gets a confirmation
  followed by every byte of the destination, the destination gets every byte of the client, and
  both directions are closed; if it does not, the client gets a connect failure; a port beyond
  65535 is refused without connecting anywhere. A \<open>direct-streamlocal\<close> channel does the same with
  its socket path.
\<close>

theorem direct_forwarding:
  assumes "varint_codec V" "endless (ch_writer c)"
    and targets: "\<And>a t. connect a = Inr t \<Longrightarrow> endless (ch_writer t) \<and> r_end (ch_reader t) = None"
  shows "(valid_direct_tcpip p \<and> ch_reader c = rd (img_direct_tcpip V p @ sent) None \<longrightarrow>
      (if dt_dest_port p < 65536
       then forwards_to V sent c (connect (text_of (dt_dest_host p) @ '':'' @ show_nat (dt_dest_port p)))
              (handle_direct_tcpip V lag connect c)
       else fst (handle_direct_tcpip V lag connect c) = Inr ()
         \<and> w_out (ch_writer (fst (snd (handle_direct_tcpip V lag connect c)))) = w_out (ch_writer c)
             @ img_open_failure V ADMINISTRATIVELY_PROHIBITED (lit ''invalid destination port'')))
   \<and> (valid_direct_streamlocal q \<and> ch_reader c = rd (img_direct_streamlocal V q @ sent) None \<longrightarrow>
       forwards_to V sent c (connect (text_of (ds_socket_path q))) (handle_direct_streamlocal V lag connect c))"
proof (intro conjI impI; elim conjE)
  assume p: "valid_direct_tcpip p" and r: "ch_reader c = rd (img_direct_tcpip V p @ sent) None"
  let ?c = "c\<lparr>ch_reader := rd sent None\<rparr>"
  have read: "on_reader (read_direct_tcpip V) c = (Inr (dt_dest_host p, dt_dest_port p), ?c)"
    using varint_codec.read_direct_tcpip_img [OF assms(1) p] r by (simp add: on_reader_def)
  show "if dt_dest_port p < 65536
       then forwards_to V sent c (connect (text_of (dt_dest_host p) @ '':'' @ show_nat (dt_dest_port p)))
              (handle_direct_tcpip V lag connect c)
       else fst (handle_direct_tcpip V lag connect c) = Inr ()
         \<and> w_out (ch_writer (fst (snd (handle_direct_tcpip V lag connect c)))) = w_out (ch_writer c)
             @ img_open_failure V ADMINISTRATIVELY_PROHIBITED (lit ''invalid destination port'')"
  proof (cases "dt_dest_port p < 65536")
    case True
    let ?t = "connect (text_of (dt_dest_host p) @ '':'' @ show_nat (dt_dest_port p))"
    have "handle_direct_tcpip V lag connect c = connect_and_relay V lag ?t ?c"
      by (rule varint_codec.handle_direct_img(1) [OF assms(1) r refl p True])
    moreover have "forwards_to V sent ?c ?t (connect_and_relay V lag ?t ?c)"
      using assms(2) targets by (intro connect_and_relay_spec) simp_all
    ultimately show ?thesis using True by (simp add: forwards_to_def split: sum.splits)
  next
    case False
    from failure_endless [OF _ fixed_descriptions(2), of ?c V ADMINISTRATIVELY_PROHIBITED] assms(2)
    show ?thesis using read False by (auto simp: handle_direct_tcpip_def U16_LIMIT_def)
  qed
next
  assume q: "valid_direct_streamlocal q" and r: "ch_reader c = rd (img_direct_streamlocal V q @ sent) None"
  let ?c = "c\<lparr>ch_reader := rd sent None\<rparr>" and ?t = "connect (text_of (ds_socket_path q))"
  have "handle_direct_streamlocal V lag connect c = connect_and_relay V lag ?t ?c"
    by (rule varint_codec.handle_direct_img(2) [OF assms(1) r refl q])
  moreover have "forwards_to V sent ?c ?t (connect_and_relay V lag ?t ?c)"
    using assms(2) targets by (intro connect_and_relay_spec) simp_all
  ultimately show "forwards_to V sent c ?t (handle_direct_streamlocal V lag connect c)"
    by (simp add: forwards_to_def split: sum.splits)
qed

theorem direct_forwarding_witness:
  "fst (handle_direct_tcpip quic_varint 0 (\<lambda>_. Inl BrokenPipe)
     \<lparr>ch_reader = rd (img_direct_tcpip quic_varint
        \<lparr>dt_dest_host = [], dt_dest_port = 80, dt_originator_host = [], dt_originator_port = 0\<rparr> @ [7]) None,
      ch_writer = fresh_writer\<rparr>) = Inr ()"
proof -
  let ?p = "\<lparr>dt_dest_host = [], dt_dest_port = 80, dt_originator_host = [], dt_originator_port = 0\<rparr>"
  let ?c = "\<lparr>ch_reader = rd (img_direct_tcpip quic_varint ?p @ [7]) None, ch_writer = fresh_writer\<rparr>"
  have v: "valid_direct_tcpip ?p" by (simp add: valid_direct_tcpip_def valid_ssh_string_def VARINT_LIMIT_def)
  have "endless (ch_writer ?c)" by (simp add: endless_fresh)
  from direct_forwarding [OF quic.varint_codec_axioms this, of "\<lambda>_. Inl BrokenPipe" ?p "[7]" 0] v
  show ?thesis by (simp add: forwards_to_def)
qed

end
