(* ===== verification/Socks5.thy ===== *)
theory Socks5
  imports Forward_Direct
begin

text \<open>
  The SOCKS5 proxy on a \<open>socks5\<close> channel (\<open>src/forward/socks5.rs\<close>): method negotiation, the
  connect request, the reply and the relay, with the text form of IP addresses the standard
  library prints. Connecting and the local address of a connection are parameters.
\<close>

unbundle bit_operations_syntax

subsection \<open>Addresses as text\<close>

fun join_with :: "string \<Rightarrow> string list \<Rightarrow> string" where
  "join_with sep [] = []"
| "join_with sep [s] = s"
| "join_with sep (s # t # ss) = s @ sep @ join_with sep (t # ss)"

definition show_ipv4 :: "bytes \<Rightarrow> string" where
  "show_ipv4 bs = join_with ''.'' (map (\<lambda>b. show_nat (unat b)) bs)"

definition hex_char :: "nat \<Rightarrow> char" where
  "hex_char d = (if d < 10 then char_of (48 + d) else char_of (87 + d))"

fun show_hex :: "nat \<Rightarrow> string" where
  "show_hex n = (if n < 16 then [hex_char n] else show_hex (n div 16) @ [hex_char (n mod 16)])"

declare show_hex.simps [simp del]

fun segments :: "bytes \<Rightarrow> nat list" where
  "segments (a # b # bs) = (unat a * 256 + unat b) # segments bs"
| "segments bs = []"

text \<open>The first longest run of zero segments, as start and length.\<close>

primrec zero_run :: "nat list \<Rightarrow> nat \<Rightarrow> nat \<times> nat \<Rightarrow> nat \<times> nat \<Rightarrow> nat \<times> nat" where
  "zero_run [] i current longest = longest"
| "zero_run (s # ss) i current longest =
     (if s = 0 then
        let current = (if snd current = 0 then (i, 1) else (fst current, snd current + 1)) in
        zero_run ss (i + 1) current (if snd current > snd longest then current else longest)
      else zero_run ss (i + 1) (0, 0) longest)"

definition show_segments :: "nat list \<Rightarrow> string" where
  "show_segments ss = join_with '':'' (map show_hex ss)"

definition show_ipv6 :: "bytes \<Rightarrow> string" where
  "show_ipv6 bs =
     (let ss = segments bs in
      if take 6 ss = [0, 0, 0, 0, 0, 65535] then ''::ffff:'' @ show_ipv4 (drop 12 bs)
      else case zero_run ss 0 (0, 0) (0, 0) of (start, len) \<Rightarrow>
        if 1 < len then show_segments (take start ss) @ ''::'' @ show_segments (drop (start + len) ss)
        else show_segments ss)"

subsection \<open>The protocol\<close>

datatype socks5_error =
    S5_Io io_error | S5_UnsupportedVersion u8 | S5_UnsupportedAddressType u8 | S5_InvalidDomain

datatype socket_addr = SocketV4 bytes "16 word" | SocketV6 bytes "16 word"

definition be16 :: "16 word \<Rightarrow> bytes" where
  "be16 p = [ucast (drop_bit 8 p), ucast p]"

definition read_u16 :: "(reader, io_error, 16 word) io" where
  "read_u16 = bindS (read_exact 2) (\<lambda>bs. okS (case bs of
     [a, b] \<Rightarrow> push_bit 8 (ucast a) + ucast b | _ \<Rightarrow> 0))"

definition SOCKS5_VERSION :: u8 where "SOCKS5_VERSION = 0x05"
definition METHOD_NO_AUTH :: u8 where "METHOD_NO_AUTH = 0x00"
definition METHOD_NO_ACCEPTABLE :: u8 where "METHOD_NO_ACCEPTABLE = 0xFF"
definition CMD_CONNECT :: u8 where "CMD_CONNECT = 0x01"
definition ATYP_IPV4 :: u8 where "ATYP_IPV4 = 0x01"
definition ATYP_DOMAIN :: u8 where "ATYP_DOMAIN = 0x03"
definition ATYP_IPV6 :: u8 where "ATYP_IPV6 = 0x04"
definition REP_SUCCEEDED :: u8 where "REP_SUCCEEDED = 0x00"
definition REP_CONNECTION_REFUSED :: u8 where "REP_CONNECTION_REFUSED = 0x05"
definition REP_COMMAND_NOT_SUPPORTED :: u8 where "REP_COMMAND_NOT_SUPPORTED = 0x07"

lemmas socks_consts = SOCKS5_VERSION_def METHOD_NO_AUTH_def METHOD_NO_ACCEPTABLE_def CMD_CONNECT_def
  ATYP_IPV4_def ATYP_DOMAIN_def ATYP_IPV6_def REP_SUCCEEDED_def REP_CONNECTION_REFUSED_def
  REP_COMMAND_NOT_SUPPORTED_def

definition read_greeting :: "(reader, socks5_error, bytes) io" where
  "read_greeting =
     bindS (ctx S5_Io read_u8) (\<lambda>ver.
       if ver \<noteq> SOCKS5_VERSION then failS (S5_UnsupportedVersion ver)
       else bindS (ctx S5_Io read_u8) (\<lambda>nmethods. ctx S5_Io (read_exact (unat nmethods))))"

text \<open>The destination as text and as the bytes a reply echoes.\<close>

definition read_address :: "u8 \<Rightarrow> (reader, socks5_error, string \<times> bytes) io" where
  "read_address atyp =
     (if atyp = ATYP_IPV4 then
        bindS (ctx S5_Io (read_exact 4)) (\<lambda>buf. okS (show_ipv4 buf, buf))
      else if atyp = ATYP_DOMAIN then
        bindS (ctx S5_Io read_u8) (\<lambda>len.
        bindS (ctx S5_Io (read_exact (unat len))) (\<lambda>buf.
          if utf8_valid buf then okS (text_of buf, len # buf) else failS S5_InvalidDomain))
      else if atyp = ATYP_IPV6 then
        bindS (ctx S5_Io (read_exact 16)) (\<lambda>buf. okS (show_ipv6 buf, buf))
      else failS (S5_UnsupportedAddressType atyp))"

record socks_request =
  sr_cmd :: u8
  sr_atyp :: u8
  sr_host :: string
  sr_addr :: bytes
  sr_port :: "16 word"

definition read_request :: "(reader, socks5_error, socks_request) io" where
  "read_request =
     bindS (ctx S5_Io read_u8) (\<lambda>ver.
       if ver \<noteq> SOCKS5_VERSION then failS (S5_UnsupportedVersion ver)
       else
         bindS (ctx S5_Io read_u8) (\<lambda>cmd.
         bindS (ctx S5_Io read_u8) (\<lambda>rsv.
         bindS (ctx S5_Io read_u8) (\<lambda>atyp.
         bindS (read_address atyp) (\<lambda>(host, addr).
         bindS (ctx S5_Io read_u16) (\<lambda>port.
           okS \<lparr>sr_cmd = cmd, sr_atyp = atyp, sr_host = host, sr_addr = addr, sr_port = port\<rparr>))))))"

definition send_reply :: "u8 \<Rightarrow> u8 \<Rightarrow> bytes \<Rightarrow> 16 word \<Rightarrow> (writer, socks5_error, unit) io" where
  "send_reply rep atyp addr_bytes port =
     ctx S5_Io (write_all ([SOCKS5_VERSION, rep, 0x00, atyp] @ addr_bytes @ be16 port))"

definition send_reply_with_bound_addr :: "u8 \<Rightarrow> socket_addr \<Rightarrow> (writer, socks5_error, unit) io" where
  "send_reply_with_bound_addr rep addr = (case addr of
       SocketV4 ip port \<Rightarrow> send_reply rep ATYP_IPV4 ip port
     | SocketV6 ip port \<Rightarrow> send_reply rep ATYP_IPV6 ip port)"

definition refuse_methods :: "(writer, socks5_error, unit) io" where
  "refuse_methods = bindS (ctx S5_Io (write_all [SOCKS5_VERSION, METHOD_NO_ACCEPTABLE]))
     (\<lambda>_. ctx S5_Io shutdown)"

definition accept_methods :: "(writer, socks5_error, unit) io" where
  "accept_methods = bindS (ctx S5_Io (write_all [SOCKS5_VERSION, METHOD_NO_AUTH])) (\<lambda>_. ctx S5_Io flush)"

definition refuse_request :: "u8 \<Rightarrow> socks_request \<Rightarrow> (writer, socks5_error, unit) io" where
  "refuse_request rep req = bindS (send_reply rep (sr_atyp req) (sr_addr req) (sr_port req))
     (\<lambda>_. ctx S5_Io shutdown)"

definition accept_request :: "io_error + socket_addr \<Rightarrow> (writer, socks5_error, unit) io" where
  "accept_request local_addr =
     bindS (ctx S5_Io (liftE local_addr)) (\<lambda>addr.
     bindS (send_reply_with_bound_addr REP_SUCCEEDED addr) (\<lambda>_. ctx S5_Io flush))"

definition handle_socks5 ::
    "nat \<Rightarrow> (string \<Rightarrow> io_error + ssh_channel) \<Rightarrow> (ssh_channel \<Rightarrow> io_error + socket_addr) \<Rightarrow> ssh_channel
     \<Rightarrow> (socks5_error + unit) \<times> ssh_channel \<times> ssh_channel option" where
  "handle_socks5 lag connect local_addr c =
     (case on_reader read_greeting c of
        (Inl e, c1) \<Rightarrow> (Inl e, c1, None)
      | (Inr methods, c1) \<Rightarrow>
          if METHOD_NO_AUTH \<notin> set methods
          then (case on_writer refuse_methods c1 of (r, c2) \<Rightarrow> (r, c2, None))
          else (case bindS (on_writer accept_methods) (\<lambda>_. on_reader read_request) c1 of
            (Inl e, c2) \<Rightarrow> (Inl e, c2, None)
          | (Inr req, c2) \<Rightarrow>
              if sr_cmd req \<noteq> CMD_CONNECT
              then (case on_writer (refuse_request REP_COMMAND_NOT_SUPPORTED req) c2 of (r, c3) \<Rightarrow> (r, c3, None))
              else (case connect (sr_host req @ '':'' @ show_nat (unat (sr_port req))) of
                Inl _ \<Rightarrow>
                  (case on_writer (refuse_request REP_CONNECTION_REFUSED req) c2 of (r, c3) \<Rightarrow> (r, c3, None))
              | Inr t \<Rightarrow>
                  (case on_writer (accept_request (local_addr t)) c2 of
                     (Inl e, c3) \<Rightarrow> (Inl e, c3, Some t)
                   | (Inr _, c3) \<Rightarrow>
                       (case relay lag (ch_reader c3, ch_writer t) of (r1, (cr, tw)) \<Rightarrow>
                        case relay lag (ch_reader t, ch_writer c3) of (r2, (tr, cw)) \<Rightarrow>
                          (case r1 of
                             Inl e \<Rightarrow> Inl (S5_Io e)
                           | Inr _ \<Rightarrow> (case r2 of Inl e \<Rightarrow> Inl (S5_Io e) | Inr _ \<Rightarrow> Inr ()),
                           \<lparr>ch_reader = cr, ch_writer = cw\<rparr>, Some \<lparr>ch_reader = tr, ch_writer = tw\<rparr>))))))"

subsection \<open>Requests and their images\<close>

datatype socks_addr = SA_IPv4 bytes | SA_Domain bytes | SA_IPv6 bytes

primrec sa_atyp :: "socks_addr \<Rightarrow> u8" where
  "sa_atyp (SA_IPv4 b) = ATYP_IPV4"
| "sa_atyp (SA_Domain d) = ATYP_DOMAIN"
| "sa_atyp (SA_IPv6 b) = ATYP_IPV6"

primrec sa_bytes :: "socks_addr \<Rightarrow> bytes" where
  "sa_bytes (SA_IPv4 b) = b"
| "sa_bytes (SA_Domain d) = word_of_nat (length d) # d"
| "sa_bytes (SA_IPv6 b) = b"

primrec sa_text :: "socks_addr \<Rightarrow> string" where
  "sa_text (SA_IPv4 b) = show_ipv4 b"
| "sa_text (SA_Domain d) = text_of d"
| "sa_text (SA_IPv6 b) = show_ipv6 b"

primrec sa_ok :: "socks_addr \<Rightarrow> bool" where
  "sa_ok (SA_IPv4 b) \<longleftrightarrow> length b = 4"
| "sa_ok (SA_Domain d) \<longleftrightarrow> length d < 256 \<and> utf8_valid d"
| "sa_ok (SA_IPv6 b) \<longleftrightarrow> length b = 16"

definition img_greeting :: "bytes \<Rightarrow> bytes" where
  "img_greeting methods = [SOCKS5_VERSION, word_of_nat (length methods)] @ methods"

definition img_socks_request :: "u8 \<Rightarrow> socks_addr \<Rightarrow> 16 word \<Rightarrow> bytes" where
  "img_socks_request cmd a port = [SOCKS5_VERSION, cmd, 0x00, sa_atyp a] @ sa_bytes a @ be16 port"

lemma be16_roundtrip [simp]: "read_u16 (rd (be16 p @ rest) e) = (Inr p, rd rest e)"
proof -
  have "push_bit 8 (ucast (ucast (drop_bit 8 p) :: u8)) + ucast (ucast p :: u8) = p"
  proof (subst disjunctive_add)
    show "\<not> bit (push_bit 8 (ucast (ucast (drop_bit 8 p) :: u8)) :: 16 word) n
        \<or> \<not> bit (ucast (ucast p :: u8) :: 16 word) n" for n
      by (auto simp: bit_simps)
    show "push_bit 8 (ucast (ucast (drop_bit 8 p) :: u8)) OR ucast (ucast p :: u8) = p"
      by (auto simp: bit_eq_iff bit_simps)
  qed
  then show ?thesis by (simp add: read_u16_def be16_def bindS_def okS_def read_exact_def)
qed

lemma read_greeting_img:
  assumes "length methods < 256"
  shows "read_greeting (rd (img_greeting methods @ rest) e) = (Inr methods, rd rest e)"
  using assms
  by (simp add: read_greeting_def img_greeting_def io_simps read_u8_def read_exact_def unat_of_nat take_bit_nat_def)

lemma read_address_img:
  assumes "sa_ok a"
  shows "read_address (sa_atyp a) (rd (sa_bytes a @ rest) e) = (Inr (sa_text a, sa_bytes a), rd rest e)"
  using assms
  by (cases a) (simp_all add: read_address_def socks_consts io_simps read_u8_def read_exact_def unat_of_nat
      take_bit_nat_def)

definition socks_req :: "u8 \<Rightarrow> socks_addr \<Rightarrow> 16 word \<Rightarrow> socks_request" where
  "socks_req cmd a port =
     \<lparr>sr_cmd = cmd, sr_atyp = sa_atyp a, sr_host = sa_text a, sr_addr = sa_bytes a, sr_port = port\<rparr>"

lemma socks_req_simps [simp]:
  "sr_cmd (socks_req cmd a port) = cmd" "sr_host (socks_req cmd a port) = sa_text a"
  "sr_port (socks_req cmd a port) = port"
  by (simp_all add: socks_req_def)

lemma read_request_img:
  assumes "sa_ok a"
  shows "read_request (rd (img_socks_request cmd a port @ rest) e) = (Inr (socks_req cmd a port), rd rest e)"
  using read_address_img [OF assms, of "be16 port @ rest" e]
  by (simp add: read_request_def img_socks_request_def socks_req_def bindS_def ctx_def okS_def
      read_u8_def read_exact_def)

subsection \<open>The answers\<close>

primrec bound_image :: "socket_addr \<Rightarrow> bytes" where
  "bound_image (SocketV4 ip port) = ATYP_IPV4 # ip @ be16 port"
| "bound_image (SocketV6 ip port) = ATYP_IPV6 # ip @ be16 port"

lemma refuse_methods_endless:
  assumes "endless w"
  shows "\<exists>w'. refuse_methods w = (Inr (), w')
    \<and> w_out w' = w_out w @ [SOCKS5_VERSION, METHOD_NO_ACCEPTABLE] \<and> w_shut w'"
  using assms
  by (simp add: refuse_methods_def bindS_def ctx_def write_all_def shutdown_def endless_def fits_def push_def)

lemma accept_methods_endless:
  assumes "endless w"
  shows "\<exists>w'. accept_methods w = (Inr (), w') \<and> endless w'
    \<and> w_out w' = w_out w @ [SOCKS5_VERSION, METHOD_NO_AUTH]"
  using assms
  by (simp add: accept_methods_def bindS_def ctx_def write_all_def flush_def endless_def fits_def push_def)

lemma refuse_request_endless:
  assumes "endless w"
  shows "\<exists>w'. refuse_request rep (socks_req cmd a port) w = (Inr (), w') \<and> w_shut w'
    \<and> w_out w' = w_out w @ [SOCKS5_VERSION, rep, 0x00, sa_atyp a] @ sa_bytes a @ be16 port"
  using assms
  by (simp add: refuse_request_def send_reply_def socks_req_def bindS_def ctx_def write_all_def shutdown_def
      endless_def fits_def push_def)

lemma accept_request_endless:
  assumes "endless w"
  shows "\<exists>w'. accept_request (Inr addr) w = (Inr (), w') \<and> endless w'
    \<and> w_out w' = w_out w @ [SOCKS5_VERSION, REP_SUCCEEDED, 0x00] @ bound_image addr"
  using assms
  by (cases addr) (simp_all add: accept_request_def send_reply_with_bound_addr_def send_reply_def bindS_def
      liftE_def okS_def ctx_def write_all_def flush_def endless_def fits_def push_def)

text \<open>The answer to a connect request for \<open>a\<close> and \<open>port\<close>, after the method reply.\<close>

definition answers ::
    "ssh_channel \<Rightarrow> (string \<Rightarrow> io_error + ssh_channel) \<Rightarrow> (ssh_channel \<Rightarrow> io_error + socket_addr) \<Rightarrow> bytes
     \<Rightarrow> u8 \<Rightarrow> socks_addr \<Rightarrow> 16 word \<Rightarrow> (socks5_error + unit) \<times> ssh_channel \<times> ssh_channel option \<Rightarrow> bool" where
  "answers c connect local_addr sent cmd a port result =
     (case result of (r, c', t') \<Rightarrow> r = Inr () \<and> w_shut (ch_writer c')
      \<and> (\<exists>answer. w_out (ch_writer c') = w_out (ch_writer c) @ [SOCKS5_VERSION, METHOD_NO_AUTH] @ answer
        \<and> (if cmd \<noteq> CMD_CONNECT
           then t' = None \<and> answer =
             [SOCKS5_VERSION, REP_COMMAND_NOT_SUPPORTED, 0x00, sa_atyp a] @ sa_bytes a @ be16 port
           else case connect (sa_text a @ '':'' @ show_nat (unat port)) of
               Inl _ \<Rightarrow> t' = None \<and> answer =
                 [SOCKS5_VERSION, REP_CONNECTION_REFUSED, 0x00, sa_atyp a] @ sa_bytes a @ be16 port
             | Inr t \<Rightarrow> (\<exists>addr tt. local_addr t = Inr addr \<and> t' = Some tt
                 \<and> answer = [SOCKS5_VERSION, REP_SUCCEEDED, 0x00] @ bound_image addr @ r_in (ch_reader t)
                 \<and> w_out (ch_writer tt) = w_out (ch_writer t) @ sent \<and> w_shut (ch_writer tt)))))"

lemma handle_socks5_refused:
  assumes "on_reader read_greeting c = (Inr ms, c1)" "METHOD_NO_AUTH \<notin> set ms" "endless (ch_writer c1)"
  shows "\<exists>c'. handle_socks5 lag connect local_addr c = (Inr (), c', None)
    \<and> w_out (ch_writer c') = w_out (ch_writer c1) @ [SOCKS5_VERSION, METHOD_NO_ACCEPTABLE] \<and> w_shut (ch_writer c')"
  using assms(1,2) refuse_methods_endless [OF assms(3)]
  by (auto simp: handle_socks5_def on_writer_def)

lemma handle_socks5_answers:
  assumes greeting: "on_reader read_greeting c = (Inr ms, c1)" "METHOD_NO_AUTH \<in> set ms"
    and same: "ch_writer c1 = ch_writer c" "endless (ch_writer c)"
    and request: "sa_ok a" "ch_reader c1 = rd (img_socks_request cmd a port @ sent) None"
    and targets: "\<And>d t. connect d = Inr t \<Longrightarrow> endless (ch_writer t) \<and> r_end (ch_reader t) = None
        \<and> (\<exists>addr. local_addr t = Inr addr)"
  shows "answers c connect local_addr sent cmd a port (handle_socks5 lag connect local_addr c)"
proof -
  obtain w where w: "accept_methods (ch_writer c) = (Inr (), w)" "endless w"
      "w_out w = w_out (ch_writer c) @ [SOCKS5_VERSION, METHOD_NO_AUTH]"
    using accept_methods_endless [OF same(2)] by blast
  let ?c2 = "\<lparr>ch_reader = rd sent None, ch_writer = w\<rparr>" and ?req = "socks_req cmd a port"
  have accepted: "on_writer accept_methods c1 = (Inr (), c1\<lparr>ch_writer := w\<rparr>)"
    using w(1) same(1) by (simp add: on_writer_def)
  have "on_reader read_request (c1\<lparr>ch_writer := w\<rparr>) = (Inr ?req, ?c2)"
    using read_request_img [OF request(1)] request(2) by (simp add: on_reader_def)
  with accepted have read: "bindS (on_writer accept_methods) (\<lambda>_. on_reader read_request) c1 = (Inr ?req, ?c2)"
    by (simp add: bindS_def)
  note reading = handle_socks5_def greeting read
  let ?dest = "sa_text a @ '':'' @ show_nat (unat port)"
  consider (unsupported) "cmd \<noteq> CMD_CONNECT"
    | (refused) e where "cmd = CMD_CONNECT" "connect ?dest = Inl e"
    | (connected) t where "cmd = CMD_CONNECT" "connect ?dest = Inr t"
    by (cases "connect ?dest") auto
  then show ?thesis
  proof cases
    case unsupported
    obtain w' where w': "refuse_request REP_COMMAND_NOT_SUPPORTED ?req w = (Inr (), w')" "w_shut w'"
        "w_out w' = w_out w @ [SOCKS5_VERSION, REP_COMMAND_NOT_SUPPORTED, 0x00, sa_atyp a] @ sa_bytes a @ be16 port"
      using refuse_request_endless [OF w(2)] by blast
    then have "handle_socks5 lag connect local_addr c = (Inr (), ?c2\<lparr>ch_writer := w'\<rparr>, None)"
      using unsupported by (simp add: reading, simp add: on_writer_def)
    with unsupported w(3) w' show ?thesis by (simp add: answers_def)
  next
    case refused
    obtain w' where w': "refuse_request REP_CONNECTION_REFUSED ?req w = (Inr (), w')" "w_shut w'"
        "w_out w' = w_out w @ [SOCKS5_VERSION, REP_CONNECTION_REFUSED, 0x00, sa_atyp a] @ sa_bytes a @ be16 port"
      using refuse_request_endless [OF w(2)] by blast
    then have "handle_socks5 lag connect local_addr c = (Inr (), ?c2\<lparr>ch_writer := w'\<rparr>, None)"
      using refused by (simp add: reading, simp add: on_writer_def)
    with refused w(3) w' show ?thesis by (simp add: answers_def)
  next
    case connected
    obtain addr where t: "endless (ch_writer t)" "ch_reader t = rd (r_in (ch_reader t)) None"
        "local_addr t = Inr addr"
      using targets [OF connected(2)] by (metis reader_eta)
    obtain w' where w': "accept_request (Inr addr) w = (Inr (), w')" "endless w'"
        "w_out w' = w_out w @ [SOCKS5_VERSION, REP_SUCCEEDED, 0x00] @ bound_image addr"
      using accept_request_endless [OF w(2)] by blast
    from relay_endless [OF t(1), of lag sent] obtain tw where tw:
        "relay lag (rd sent None, ch_writer t) = (Inr (length sent), (rd [] None, tw))"
        "w_out tw = w_out (ch_writer t) @ sent" "w_shut tw" by blast
    from relay_endless [OF w'(2), of lag "r_in (ch_reader t)"] obtain cw where cw:
        "relay lag (ch_reader t, w') = (Inr (length (r_in (ch_reader t))), (rd [] None, cw))"
        "w_out cw = w_out w' @ r_in (ch_reader t)" "w_shut cw" using t(2) by auto
    have "on_writer (accept_request (local_addr t)) ?c2 = (Inr (), ?c2\<lparr>ch_writer := w'\<rparr>)"
      using t(3) w'(1) by (simp add: on_writer_def)
    then show ?thesis using connected t(3) w(3) w' tw cw by (simp add: reading answers_def)
  qed
qed

text \<open>An address type the proxy does not know ends the exchange with an error, connected to nothing.\<close>

lemma read_request_unknown_type:
  assumes "atyp \<notin> {ATYP_IPV4, ATYP_DOMAIN, ATYP_IPV6}"
  shows "\<exists>r. read_request (rd ([SOCKS5_VERSION, cmd, 0x00, atyp] @ rest) e) = (Inl (S5_UnsupportedAddressType atyp), r)"
  using assms by (simp add: read_request_def read_address_def io_simps read_u8_def read_exact_def)

lemma handle_socks5_unknown_type:
  assumes "on_reader read_greeting c = (Inr ms, c1)" "METHOD_NO_AUTH \<in> set ms"
    and "ch_writer c1 = ch_writer c" "endless (ch_writer c)"
    and "atyp \<notin> {ATYP_IPV4, ATYP_DOMAIN, ATYP_IPV6}" "ch_reader c1 = rd ([SOCKS5_VERSION, cmd, 0x00, atyp] @ rest) None"
  shows "\<exists>c'. handle_socks5 lag connect local_addr c = (Inl (S5_UnsupportedAddressType atyp), c', None)
    \<and> w_out (ch_writer c') = w_out (ch_writer c) @ [SOCKS5_VERSION, METHOD_NO_AUTH]"
proof -
  obtain w where w: "accept_methods (ch_writer c) = (Inr (), w)"
      "w_out w = w_out (ch_writer c) @ [SOCKS5_VERSION, METHOD_NO_AUTH]"
    using accept_methods_endless [OF assms(4)] by blast
  obtain r where r: "read_request (ch_reader c1) = (Inl (S5_UnsupportedAddressType atyp), r)"
    using read_request_unknown_type [OF assms(5)] assms(6) by metis
  have "bindS (on_writer accept_methods) (\<lambda>_. on_reader read_request) c1
      = (Inl (S5_UnsupportedAddressType atyp), c1\<lparr>ch_writer := w, ch_reader := r\<rparr>)"
    using w(1) r assms(3) by (cases c1) (simp add: on_writer_def on_reader_def bindS_def)
  then show ?thesis using assms(1,2) w(2) by (simp add: handle_socks5_def)
qed

text \<open>
  C40: the SOCKS5 proxy. A client that offers no-authentication and sends a well-formed request for
  an IPv4 address, an IPv6 address or a UTF-8 domain name is connected to exactly that destination
  (the reply carries the address bound for it, and afterwards all bytes flow both ways until both
  ends are closed), or is told that the connection was refused or the command is unsupported, with
  its address echoed. A client that does not offer no-authentication is told so and nothing is
  connected; a request for another type of address ends with an error, without a reply, and
  nothing is connected.
\<close>

theorem socks5_proxy:
  assumes "endless (ch_writer c)" "length methods < 256"
    and "\<And>d t. connect d = Inr t \<Longrightarrow> endless (ch_writer t) \<and> r_end (ch_reader t) = None
        \<and> (\<exists>addr. local_addr t = Inr addr)"
  shows "(METHOD_NO_AUTH \<in> set methods \<and> sa_ok a
        \<and> ch_reader c = rd (img_greeting methods @ img_socks_request cmd a port @ sent) None
      \<longrightarrow> answers c connect local_addr sent cmd a port (handle_socks5 lag connect local_addr c))
    \<and> (METHOD_NO_AUTH \<notin> set methods \<and> ch_reader c = rd (img_greeting methods @ rest) None
      \<longrightarrow> (\<exists>c'. handle_socks5 lag connect local_addr c = (Inr (), c', None) \<and> w_shut (ch_writer c')
          \<and> w_out (ch_writer c') = w_out (ch_writer c) @ [SOCKS5_VERSION, METHOD_NO_ACCEPTABLE]))
    \<and> (METHOD_NO_AUTH \<in> set methods \<and> atyp \<notin> {ATYP_IPV4, ATYP_DOMAIN, ATYP_IPV6}
        \<and> ch_reader c = rd (img_greeting methods @ [SOCKS5_VERSION, cmd, 0x00, atyp] @ rest) None
      \<longrightarrow> (\<exists>c'. handle_socks5 lag connect local_addr c = (Inl (S5_UnsupportedAddressType atyp), c', None)
          \<and> w_out (ch_writer c') = w_out (ch_writer c) @ [SOCKS5_VERSION, METHOD_NO_AUTH]))"
proof (intro conjI impI; elim conjE)
  assume no_auth: "METHOD_NO_AUTH \<in> set methods" and a: "sa_ok a"
    and r: "ch_reader c = rd (img_greeting methods @ img_socks_request cmd a port @ sent) None"
  have "on_reader read_greeting c =
      (Inr methods, c\<lparr>ch_reader := rd (img_socks_request cmd a port @ sent) None\<rparr>)"
    using r by (simp add: on_reader_def read_greeting_img assms(2))
  from handle_socks5_answers [OF this no_auth] assms(1,3) a
  show "answers c connect local_addr sent cmd a port (handle_socks5 lag connect local_addr c)" by simp
next
  assume no_auth: "METHOD_NO_AUTH \<notin> set methods" and r: "ch_reader c = rd (img_greeting methods @ rest) None"
  have "on_reader read_greeting c = (Inr methods, c\<lparr>ch_reader := rd rest None\<rparr>)"
    using r by (simp add: on_reader_def read_greeting_img assms(2))
  from handle_socks5_refused [OF this no_auth, of lag connect local_addr] assms(1)
  show "\<exists>c'. handle_socks5 lag connect local_addr c = (Inr (), c', None) \<and> w_shut (ch_writer c')
          \<and> w_out (ch_writer c') = w_out (ch_writer c) @ [SOCKS5_VERSION, METHOD_NO_ACCEPTABLE]"
    by auto
next
  assume no_auth: "METHOD_NO_AUTH \<in> set methods" and atyp: "atyp \<notin> {ATYP_IPV4, ATYP_DOMAIN, ATYP_IPV6}"
    and r: "ch_reader c = rd (img_greeting methods @ [SOCKS5_VERSION, cmd, 0x00, atyp] @ rest) None"
  let ?c1 = "c\<lparr>ch_reader := rd ([SOCKS5_VERSION, cmd, 0x00, atyp] @ rest) None\<rparr>"
  have "on_reader read_greeting c = (Inr methods, ?c1)"
    using r by (simp add: on_reader_def read_greeting_img assms(2))
  from handle_socks5_unknown_type [OF this no_auth _ assms(1) atyp, of cmd rest]
  show "\<exists>c'. handle_socks5 lag connect local_addr c = (Inl (S5_UnsupportedAddressType atyp), c', None)
      \<and> w_out (ch_writer c') = w_out (ch_writer c) @ [SOCKS5_VERSION, METHOD_NO_AUTH]" by simp
qed

theorem socks5_proxy_witness:
  "let c = \<lparr>ch_reader = rd (img_greeting [0] @ img_socks_request 1 (SA_IPv4 [127, 0, 0, 1]) 80 @ [7]) None,
            ch_writer = fresh_writer\<rparr>;
       t = \<lparr>ch_reader = rd [9] None, ch_writer = fresh_writer\<rparr>
   in answers c (\<lambda>_. Inr t) (\<lambda>_. Inr (SocketV4 [127, 0, 0, 1] 4000)) [7] 1 (SA_IPv4 [127, 0, 0, 1]) 80
        (handle_socks5 0 (\<lambda>_. Inr t) (\<lambda>_. Inr (SocketV4 [127, 0, 0, 1] 4000)) c)"
proof -
  let ?c = "\<lparr>ch_reader = rd (img_greeting [0] @ img_socks_request 1 (SA_IPv4 [127, 0, 0, 1]) 80 @ [7]) None,
      ch_writer = fresh_writer\<rparr>"
  let ?t = "\<lparr>ch_reader = rd [9] None, ch_writer = fresh_writer\<rparr>"
  have "endless (ch_writer ?c)" by (simp add: endless_fresh)
  from socks5_proxy [OF this, of "[0]" "\<lambda>_. Inr ?t" "\<lambda>_. Inr (SocketV4 [127, 0, 0, 1] 4000)"
      "SA_IPv4 [127, 0, 0, 1]" 1 80 "[7]" 0]
  show ?thesis by (simp add: endless_fresh METHOD_NO_AUTH_def)
qed

end
