(* ===== verification/Reverse.thy ===== *)
theory Reverse
  imports Socks5 Global_Requests
begin

text \<open>
  Reverse forwarding on the server (\<open>src/forward/reverse.rs\<close>): which addresses a request binds,
  binding a group of listeners on one port, answering the request, the accept loops, and the
  channel opened for each accepted connection. Sockets and name resolution are parameters.
\<close>

datatype accept_tcp_forward_error =
    ATF_PortOverflow | ATF_ResolveBindAddress string io_error | ATF_TcpBind io_error | ATF_LocalAddr io_error
  | ATF_Respond "forward_error respond_success_error"

datatype accept_unix_forward_error =
    AUF_UnixBind io_error | AUF_Respond "unit respond_success_error"

subsection \<open>Addresses to bind\<close>

definition IPV6_LOCALHOST :: bytes where "IPV6_LOCALHOST = replicate 15 0 @ [1]"
definition IPV6_UNSPECIFIED :: bytes where "IPV6_UNSPECIFIED = replicate 16 0"
definition IPV4_LOCALHOST :: bytes where "IPV4_LOCALHOST = [127, 0, 0, 1]"
definition IPV4_UNSPECIFIED :: bytes where "IPV4_UNSPECIFIED = [0, 0, 0, 0]"

definition bind_candidates :: "string \<Rightarrow> socket_addr list" where
  "bind_candidates host =
     (if host = ''localhost'' then [SocketV6 IPV6_LOCALHOST 0, SocketV4 IPV4_LOCALHOST 0]
      else if host = [] then [SocketV6 IPV6_UNSPECIFIED 0, SocketV4 IPV4_UNSPECIFIED 0]
      else if host = ''0.0.0.0'' then [SocketV4 IPV4_UNSPECIFIED 0]
      else if host = ''::'' then [SocketV6 IPV6_UNSPECIFIED 0]
      else if host = ''127.0.0.1'' then [SocketV4 IPV4_LOCALHOST 0]
      else if host = ''::1'' then [SocketV6 IPV6_LOCALHOST 0]
      else [])"

text \<open>
  The operating system: the steps of opening a listening socket, given the sockets that listen
  already and yielding the address bound; its local address; name lookup; and binding a Unix
  socket, given the socket files that exist.
\<close>

record socket_api =
  so_new :: "bool \<Rightarrow> io_error + unit"
  so_reuseaddr :: "io_error + unit"
  so_v6only :: "io_error + unit"
  so_bind :: "socket_addr list \<Rightarrow> socket_addr \<Rightarrow> io_error + socket_addr"
  so_listen :: "io_error + unit"
  so_local_addr :: "socket_addr \<Rightarrow> io_error + socket_addr"
  so_lookup :: "string \<Rightarrow> io_error + socket_addr list"
  so_unix_bind :: "string list \<Rightarrow> string \<Rightarrow> io_error + unit"

definition family_rank :: "socket_addr \<Rightarrow> nat" where
  "family_rank a = (case a of SocketV6 _ _ \<Rightarrow> 0 | SocketV4 _ _ \<Rightarrow> 1)"

definition resolve_bind_candidates ::
    "socket_api \<Rightarrow> string \<Rightarrow> accept_tcp_forward_error + socket_addr list" where
  "resolve_bind_candidates A host =
     (if bind_candidates host \<noteq> [] then Inr (bind_candidates host)
      else case so_lookup A host of
        Inl e \<Rightarrow> Inl (ATF_ResolveBindAddress host e)
      | Inr addrs \<Rightarrow> Inr (remdups_adj (sort_key family_rank addrs)))"

definition andE :: "'e + 'a \<Rightarrow> ('a \<Rightarrow> 'e + 'b) \<Rightarrow> 'e + 'b" where
  "andE r f = (case r of Inl e \<Rightarrow> Inl e | Inr x \<Rightarrow> f x)"

definition bind_tcp_socket :: "socket_api \<Rightarrow> socket_addr list \<Rightarrow> socket_addr \<Rightarrow> io_error + socket_addr" where
  "bind_tcp_socket A opened addr = (case addr of
       SocketV4 _ _ \<Rightarrow>
         andE (so_new A False) (\<lambda>_. andE (so_reuseaddr A) (\<lambda>_. andE (so_bind A opened addr) (\<lambda>a.
         andE (so_listen A) (\<lambda>_. Inr a))))
     | SocketV6 _ _ \<Rightarrow>
         andE (so_new A True) (\<lambda>_. andE (so_reuseaddr A) (\<lambda>_. andE (so_v6only A) (\<lambda>_.
         andE (so_bind A opened addr) (\<lambda>a. andE (so_listen A) (\<lambda>_. Inr a))))))"

primrec set_port :: "16 word \<Rightarrow> socket_addr \<Rightarrow> socket_addr" where
  "set_port p (SocketV4 ip _) = SocketV4 ip p"
| "set_port p (SocketV6 ip _) = SocketV6 ip p"

primrec sock_port :: "socket_addr \<Rightarrow> 16 word" where
  "sock_port (SocketV4 _ p) = p"
| "sock_port (SocketV6 _ p) = p"

primrec show_ip :: "socket_addr \<Rightarrow> string" where
  "show_ip (SocketV4 ip _) = show_ipv4 ip"
| "show_ip (SocketV6 ip _) = show_ipv6 ip"

record tcp_forward_listener =
  tl_advertised_host :: string
  tl_bound_port :: "16 word"
  tl_listeners :: "socket_addr list"

text \<open>The loop over the candidates, with the listeners bound so far and the port of the first.\<close>

primrec bind_group_loop ::
    "socket_api \<Rightarrow> socket_addr list \<Rightarrow> 16 word \<Rightarrow> socket_addr list \<Rightarrow> socket_addr list \<Rightarrow> 16 word option
     \<Rightarrow> accept_tcp_forward_error + socket_addr list \<times> 16 word option" where
  "bind_group_loop A opened bind_port [] listeners logical_port = Inr (listeners, logical_port)"
| "bind_group_loop A opened bind_port (candidate # cs) listeners logical_port =
     (let requested = (case logical_port of Some p \<Rightarrow> p | None \<Rightarrow> bind_port) in
      case bind_tcp_socket A (opened @ listeners) (set_port requested candidate) of
        Inr listener \<Rightarrow>
          (case logical_port of
             None \<Rightarrow> (case so_local_addr A listener of
               Inl e \<Rightarrow> Inl (ATF_LocalAddr e)
             | Inr local_addr \<Rightarrow>
                 bind_group_loop A opened bind_port cs (listeners @ [listener]) (Some (sock_port local_addr)))
           | Some _ \<Rightarrow> bind_group_loop A opened bind_port cs (listeners @ [listener]) logical_port)
      | Inl e \<Rightarrow>
          if logical_port \<noteq> None then bind_group_loop A opened bind_port cs listeners logical_port
          else Inl (ATF_TcpBind e))"

definition bind_tcp_forward_group ::
    "socket_api \<Rightarrow> socket_addr list \<Rightarrow> string \<Rightarrow> 16 word \<Rightarrow> accept_tcp_forward_error + tcp_forward_listener" where
  "bind_tcp_forward_group A opened host bind_port =
     andE (resolve_bind_candidates A host) (\<lambda>candidates.
     andE (bind_group_loop A opened bind_port candidates [] None) (\<lambda>(listeners, logical_port).
       case logical_port of
         None \<Rightarrow> Inl (ATF_TcpBind AddrNotAvailable)
       | Some p \<Rightarrow> Inr \<lparr>tl_advertised_host = host, tl_bound_port = p, tl_listeners = listeners\<rparr>))"

subsection \<open>Answering a request\<close>

text \<open>The conversation with the listening sockets and socket files of the host.\<close>

record server =
  sv_conv :: conversation_shared
  sv_tcp :: "socket_addr list"
  sv_unix :: "string list"

definition on_conv :: "(conversation_shared, 'e, 'a) aio \<Rightarrow> (server, 'e, 'a) aio" where
  "on_conv m = (\<lambda>s. case m (sv_conv s) of (v, c) \<Rightarrow> (v, s\<lparr>sv_conv := c\<rparr>))"

text \<open>\<open>let _ = m.await;\<close> and then a result.\<close>

definition anyway :: "('s, 'f, 'b) aio \<Rightarrow> 'e + 'a \<Rightarrow> ('s, 'e, 'a) aio" where
  "anyway m r = (\<lambda>s. case m s of (None, t) \<Rightarrow> (None, t) | (Some _, t) \<Rightarrow> (Some r, t))"

text \<open>A listener that is not returned is dropped, which closes its sockets.\<close>

definition accept_tcp_forward ::
    "varint_api \<Rightarrow> socket_api \<Rightarrow> ticket \<Rightarrow> tcpip_forward_request
     \<Rightarrow> (server, accept_tcp_forward_error, tcp_forward_listener) aio" where
  "accept_tcp_forward V A ticket req = (\<lambda>s.
     let bind_host = canonicalize_remote_bind_host (text_of (tf_bind_address req)) in
     if U16_LIMIT \<le> tf_bind_port req
     then anyway (on_conv (global_respond_failure V ticket)) (Inl ATF_PortOverflow) s
     else case bind_tcp_forward_group A (sv_tcp s) bind_host (word_of_nat (tf_bind_port req)) of
       Inl e \<Rightarrow> anyway (on_conv (global_respond_failure V ticket)) (Inl e) s
     | Inr listener \<Rightarrow>
         (case on_conv (global_respond_success V ticket (enc_tcpip_forward_reply V
                 \<lparr>tr_allocated_port = unat (tl_bound_port listener)\<rparr>))
               (s\<lparr>sv_tcp := sv_tcp s @ tl_listeners listener\<rparr>) of
            (None, t) \<Rightarrow> (None, t)
          | (Some (Inl e), t) \<Rightarrow> (Some (Inl (ATF_Respond e)), t\<lparr>sv_tcp := sv_tcp s\<rparr>)
          | (Some (Inr _), t) \<Rightarrow> (Some (Inr listener), t)))"

text \<open>
  The guard that removes the socket file is made only after the response: an error of the
  response closes the socket and leaves the file.
\<close>

definition accept_unix_forward ::
    "varint_api \<Rightarrow> socket_api \<Rightarrow> ticket \<Rightarrow> streamlocal_forward_request
     \<Rightarrow> (server, accept_unix_forward_error, string) aio" where
  "accept_unix_forward V A ticket req = (\<lambda>s.
     let socket_path = text_of (sf_socket_path req) in
     case so_unix_bind A (sv_unix s) socket_path of
       Inl e \<Rightarrow> anyway (on_conv (global_respond_failure V ticket)) (Inl (AUF_UnixBind e)) s
     | Inr _ \<Rightarrow>
         (case on_conv (global_respond_success V ticket enc_empty) (s\<lparr>sv_unix := sv_unix s @ [socket_path]\<rparr>) of
            (None, t) \<Rightarrow> (None, t)
          | (Some (Inl e), t) \<Rightarrow> (Some (Inl (AUF_Respond e)), t)
          | (Some (Inr _), t) \<Rightarrow> (Some (Inr socket_path), t)))"

definition unix_guard_drop :: "string \<Rightarrow> server \<Rightarrow> server" where
  "unix_guard_drop path s = s\<lparr>sv_unix := removeAll path (sv_unix s)\<rparr>"

subsection \<open>Accepted connections\<close>

definition accepted_tcp :: "string \<Rightarrow> 16 word \<Rightarrow> socket_addr \<Rightarrow> channel_open" where
  "accepted_tcp connected_addr connected_port peer = OpenForwardedTcpip
     \<lparr>ft_connected_address = ssh_string_from connected_addr, ft_connected_port = unat connected_port,
      ft_originator_address = ssh_string_from (show_ip peer), ft_originator_port = unat (sock_port peer)\<rparr>"

text \<open>
  An accept loop over what \<open>accept\<close> answers, one relay per connection; the flag says that the
  loop ended.
\<close>

fun run_tcp_accept_loop ::
    "string \<Rightarrow> 16 word \<Rightarrow> (io_error + ssh_channel \<times> socket_addr) list
     \<Rightarrow> (channel_open \<times> ssh_channel) list \<times> bool" where
  "run_tcp_accept_loop connected_addr connected_port [] = ([], False)"
| "run_tcp_accept_loop connected_addr connected_port (Inl _ # evs) = ([], True)"
| "run_tcp_accept_loop connected_addr connected_port (Inr (stream, peer) # evs) =
     (case run_tcp_accept_loop connected_addr connected_port evs of (rest, ended) \<Rightarrow>
        ((accepted_tcp connected_addr connected_port peer, stream) # rest, ended))"

text \<open>One loop per listener; the call returns when all have ended.\<close>

definition tcp_listener_run ::
    "tcp_forward_listener \<Rightarrow> (io_error + ssh_channel \<times> socket_addr) list list
     \<Rightarrow> (channel_open \<times> ssh_channel) list \<times> bool" where
  "tcp_listener_run l events =
     (let runs = map (\<lambda>(_, evs). run_tcp_accept_loop (tl_advertised_host l) (tl_bound_port l) evs)
            (zip (tl_listeners l) events)
      in (concat (map fst runs), \<forall>r \<in> set runs. snd r))"

fun unix_listener_run ::
    "string \<Rightarrow> (io_error + ssh_channel) list \<Rightarrow> (channel_open \<times> ssh_channel) list \<times> bool" where
  "unix_listener_run path [] = ([], False)"
| "unix_listener_run path (Inl _ # evs) = ([], True)"
| "unix_listener_run path (Inr stream # evs) =
     (case unix_listener_run path evs of (rest, ended) \<Rightarrow>
        ((OpenForwardedStreamlocal \<lparr>fs_socket_path = ssh_string_from path\<rparr>, stream) # rest, ended))"

text \<open>
  A relay that is aborted has moved some of its bytes and does not shut the writer down.
\<close>

definition relay_aborted :: "nat \<Rightarrow> reader \<times> writer \<Rightarrow> reader \<times> writer" where
  "relay_aborted n = (\<lambda>(r, w). (r\<lparr>r_in := drop n (r_in r)\<rparr>, snd (write_all (take n (r_in r)) w)))"

text \<open>
  \<open>cancelled\<close> is what the two relays had moved when the cancellation won. The result holds the
  two ends: the channel and the local stream.
\<close>

definition open_channel_and_relay ::
    "varint_api \<Rightarrow> nat \<Rightarrow> 'me + reader \<times> writer \<Rightarrow> channel_open \<Rightarrow> ssh_channel \<Rightarrow> (nat \<times> nat) option
     \<Rightarrow> (ssh_channel \<times> ssh_channel) option" where
  "open_channel_and_relay V lag bi opening local cancelled =
     (case open_channel V bi (channel_type opening) (channel_open_payload V opening) DEFAULT_MAX_MESSAGE_SIZE of
        Inl _ \<Rightarrow> None
      | Inr c \<Rightarrow>
          (let ((cr, lw), (lr, cw)) = (case cancelled of
               None \<Rightarrow> (snd (relay lag (ch_reader c, ch_writer local)), snd (relay lag (ch_reader local, ch_writer c)))
             | Some (m, n) \<Rightarrow> (relay_aborted m (ch_reader c, ch_writer local), relay_aborted n (ch_reader local, ch_writer c)))
           in Some (\<lparr>ch_reader = cr, ch_writer = cw\<rparr>, \<lparr>ch_reader = lr, ch_writer = lw\<rparr>)))"

subsection \<open>Groups of listeners\<close>

definition same_ip :: "socket_addr \<Rightarrow> socket_addr \<Rightarrow> bool" where
  "same_ip a b \<longleftrightarrow> set_port 0 a = set_port 0 b"

text \<open>
  What \<open>bind\<close> promises: the address asked for, on the port asked for or, when that is zero, on
  some other port; and that the local address of a socket is the one it was bound to.
\<close>

definition socket_laws :: "socket_api \<Rightarrow> bool" where
  "socket_laws A \<longleftrightarrow>
     (\<forall>opened a b. so_bind A opened a = Inr b \<longrightarrow>
        same_ip a b \<and> sock_port b \<noteq> 0 \<and> (sock_port a \<noteq> 0 \<longrightarrow> sock_port b = sock_port a))
     \<and> (\<forall>a b. so_local_addr A a = Inr b \<longrightarrow> b = a)"

lemma andE_Inr: "andE r f = Inr y \<longleftrightarrow> (\<exists>x. r = Inr x \<and> f x = Inr y)"
  by (auto simp: andE_def split: sum.splits)

lemma set_port_simps [simp]:
  "sock_port (set_port p a) = p" "set_port p (set_port q a) = set_port p a"
  by (cases a; simp)+

lemma same_ip_set_port [simp]: "same_ip (set_port p a) b \<longleftrightarrow> same_ip a b"
  by (simp add: same_ip_def)

lemma bind_tcp_socket_law:
  assumes "socket_laws A" "bind_tcp_socket A opened (set_port p c) = Inr l"
  shows "same_ip c l \<and> sock_port l \<noteq> 0 \<and> (p \<noteq> 0 \<longrightarrow> sock_port l = p)"
proof -
  have "so_bind A opened (set_port p c) = Inr l"
    using assms(2) by (auto simp: bind_tcp_socket_def andE_Inr split: socket_addr.splits)
  then show ?thesis using assms(1) unfolding socket_laws_def by (metis same_ip_set_port set_port_simps(1))
qed

lemma bind_more:
  assumes "socket_laws A" "p \<noteq> 0"
    and "bind_group_loop A opened bp cs ls (Some p) = Inr (ls', lp)"
  shows "lp = Some p \<and> (\<exists>ms. ls' = ls @ ms \<and> (\<forall>l \<in> set ms. sock_port l = p \<and> (\<exists>c \<in> set cs. same_ip c l)))"
  using assms(3)
proof (induction cs arbitrary: ls)
  case (Cons c cs)
  show ?case
  proof (cases "bind_tcp_socket A (opened @ ls) (set_port p c)")
    case (Inl e)
    then show ?thesis using Cons by (fastforce simp: Let_def)
  next
    case (Inr l)
    then have "bind_group_loop A opened bp cs (ls @ [l]) (Some p) = Inr (ls', lp)"
      using Cons.prems by (simp add: Let_def)
    from Cons.IH [OF this] bind_tcp_socket_law [OF assms(1) Inr] assms(2)
    show ?thesis by (fastforce intro: exI [of _ "l # ms" for ms])
  qed
qed simp

lemma bind_group:
  assumes "socket_laws A" "bind_group_loop A opened bp cs [] None = Inr (ls, Some p)"
  shows "ls \<noteq> [] \<and> p \<noteq> 0 \<and> (bp \<noteq> 0 \<longrightarrow> p = bp)
    \<and> (\<forall>l \<in> set ls. sock_port l = p \<and> (\<exists>c \<in> set cs. same_ip c l))"
proof (cases cs)
  case Nil
  then show ?thesis using assms(2) by simp
next
  case (Cons c ds)
  then obtain l where l: "bind_tcp_socket A opened (set_port bp c) = Inr l"
    using assms(2) by (auto simp: Let_def split: sum.splits)
  then obtain b where b: "so_local_addr A l = Inr b" "bind_group_loop A opened bp ds [l] (Some (sock_port b)) = Inr (ls, Some p)"
    using assms(2) Cons by (auto simp: Let_def split: sum.splits)
  have "b = l" using assms(1) b(1) by (auto simp: socket_laws_def)
  moreover note bind_tcp_socket_law [OF assms(1) l]
  ultimately show ?thesis using bind_more [OF assms(1) _ b(2)] Cons by auto
qed

definition bind_hosts :: "socket_api \<Rightarrow> string \<Rightarrow> socket_addr set" where
  "bind_hosts A host = (case resolve_bind_candidates A host of Inr cs \<Rightarrow> set cs | Inl _ \<Rightarrow> {})"

text \<open>A group of listeners that serves a bind address: one nonzero port on addresses of the host.\<close>

definition serves :: "socket_api \<Rightarrow> string \<Rightarrow> nat \<Rightarrow> tcp_forward_listener \<Rightarrow> bool" where
  "serves A host bp l \<longleftrightarrow> tl_advertised_host l = host \<and> tl_listeners l \<noteq> [] \<and> tl_bound_port l \<noteq> 0
     \<and> (bp \<noteq> 0 \<longrightarrow> unat (tl_bound_port l) = bp)
     \<and> (\<forall>a \<in> set (tl_listeners l). sock_port a = tl_bound_port l \<and> (\<exists>c \<in> bind_hosts A host. same_ip c a))"

lemma bind_tcp_forward_group_serves:
  assumes "socket_laws A" "bp < 65536" "bind_tcp_forward_group A opened host (word_of_nat bp) = Inr l"
  shows "serves A host bp l"
proof -
  from assms(3) obtain cs ls p where c: "resolve_bind_candidates A host = Inr cs"
      "bind_group_loop A opened (word_of_nat bp) cs [] None = Inr (ls, Some p)"
      "l = \<lparr>tl_advertised_host = host, tl_bound_port = p, tl_listeners = ls\<rparr>"
    by (auto simp: bind_tcp_forward_group_def andE_Inr split: option.splits)
  have bp: "unat (word_of_nat bp :: 16 word) = bp" using assms(2) by (simp add: unat_of_nat take_bit_nat_eq_self)
  have "bp \<noteq> 0 \<longrightarrow> (word_of_nat bp :: 16 word) \<noteq> 0" using bp by (metis unsigned_0)
  with bind_group [OF assms(1) c(2)] c(1,3) bp show ?thesis by (auto simp: serves_def bind_hosts_def)
qed

subsection \<open>Answers\<close>

text \<open>The session is usable, its writer never fails, and it is the turn of \<open>ticket\<close>.\<close>

definition our_turn :: "ticket \<Rightarrow> conversation_shared \<Rightarrow> bool" where
  "our_turn ticket c \<longleftrightarrow> \<not> poisoned c \<and> auto_failures c = [] \<and> current_serving (sh_writer c) = ticket
     \<and> endless (out_stream c)"

lemma success_turn:
  assumes "our_turn t c" "emits penc p"
  shows "\<exists>c'. global_respond_success V t penc c = (Some (Inr ()), c') \<and> wrote (img_success V p) c c'"
  unfolding global_respond_success_def using assms
  by (intro guarded_turn sends_success_write) (auto simp: our_turn_def endless_fits endless_def)

lemma failure_turn:
  assumes "our_turn t c"
  shows "\<exists>c'. global_respond_failure V t c = (Some (Inr ()), c') \<and> wrote (img_failure V) c c'"
  unfolding global_respond_failure_def using assms
  by (intro guarded_turn sends_failure_write) (auto simp: our_turn_def endless_fits endless_def)

lemma failure_anyway:
  assumes "our_turn t (sv_conv s)"
  shows "\<exists>c'. anyway (on_conv (global_respond_failure V t)) r s = (Some r, s\<lparr>sv_conv := c'\<rparr>)
    \<and> wrote (img_failure V) (sv_conv s) c'"
  using failure_turn [OF assms, of V] by (auto simp: anyway_def on_conv_def)

lemma port_reply_emits:
  "emits (enc_tcpip_forward_reply V \<lparr>tr_allocated_port = unat (p :: 16 word)\<rparr>) (vi_enc V (unat p))"
proof -
  have "unat p < 65536" using unsigned_less [of p] by simp
  then have "valid_tcpip_forward_reply \<lparr>tr_allocated_port = unat p\<rparr>"
    by (simp add: valid_tcpip_forward_reply_def VARINT_LIMIT_def)
  from forward_emits(4) [OF this] show ?thesis by (simp add: img_tcpip_forward_reply_def)
qed

lemma accept_tcp_forward_run:
  assumes "socket_laws A" "our_turn t (sv_conv s)"
  shows "\<exists>r s'. accept_tcp_forward V A t req s = (Some r, s') \<and> (case r of
       Inr l \<Rightarrow> wrote (img_success V (vi_enc V (unat (tl_bound_port l)))) (sv_conv s) (sv_conv s')
         \<and> sv_tcp s' = sv_tcp s @ tl_listeners l \<and> sv_unix s' = sv_unix s \<and> tf_bind_port req < 65536
         \<and> serves A (canonicalize_remote_bind_host (text_of (tf_bind_address req))) (tf_bind_port req) l
     | Inl e \<Rightarrow> wrote (img_failure V) (sv_conv s) (sv_conv s') \<and> sv_tcp s' = sv_tcp s \<and> sv_unix s' = sv_unix s)"
proof -
  let ?host = "canonicalize_remote_bind_host (text_of (tf_bind_address req))"
  let ?group = "bind_tcp_forward_group A (sv_tcp s) ?host (word_of_nat (tf_bind_port req))"
  note body = accept_tcp_forward_def Let_def U16_LIMIT_def
  have failed: "\<exists>r s'. anyway (on_conv (global_respond_failure V t)) (Inl e) s = (Some r, s') \<and> (case r of
       Inr l \<Rightarrow> P l s'
     | Inl e \<Rightarrow> wrote (img_failure V) (sv_conv s) (sv_conv s') \<and> sv_tcp s' = sv_tcp s \<and> sv_unix s' = sv_unix s)" for e P
    using failure_anyway [OF assms(2), of V "Inl e"] by fastforce
  consider (overflow) "65536 \<le> tf_bind_port req" | (refused) e where "tf_bind_port req < 65536" "?group = Inl e"
    | (bound) l where "tf_bind_port req < 65536" "?group = Inr l"
    by (cases ?group) (use not_le in blast)+
  then show ?thesis
  proof cases
    case overflow
    then have "accept_tcp_forward V A t req s = anyway (on_conv (global_respond_failure V t)) (Inl ATF_PortOverflow) s"
      by (simp add: body)
    then show ?thesis using failed by simp
  next
    case refused
    then have "accept_tcp_forward V A t req s = anyway (on_conv (global_respond_failure V t)) (Inl e) s"
      by (simp add: body)
    then show ?thesis using failed by simp
  next
    case bound
    from success_turn [OF assms(2) port_reply_emits, of V V "tl_bound_port l"] obtain c' where c':
        "global_respond_success V t (enc_tcpip_forward_reply V \<lparr>tr_allocated_port = unat (tl_bound_port l)\<rparr>) (sv_conv s)
          = (Some (Inr ()), c')" "wrote (img_success V (vi_enc V (unat (tl_bound_port l)))) (sv_conv s) c'" by blast
    with bound have "accept_tcp_forward V A t req s =
        (Some (Inr l), s\<lparr>sv_tcp := sv_tcp s @ tl_listeners l, sv_conv := c'\<rparr>)"
      by (simp add: body on_conv_def)
    then show ?thesis using c'(2) bound bind_tcp_forward_group_serves [OF assms(1) bound] by simp
  qed
qed

text \<open>
  C12: a forwarding request is answered truthfully. In its turn, a \<open>tcpip-forward\<close> request ends in
  one of two ways. Either a success response with a port is sent, and then listeners on exactly
  that nonzero port are open, on addresses of the requested host only, the port being the
  requested one if the request named one; or a failure response is sent and no listener stays
  open. A port beyond 65535 is always refused.
\<close>

theorem tcpip_forward_answered:
  assumes "socket_laws A" "our_turn t (sv_conv s)"
  shows "\<exists>r s'. accept_tcp_forward V A t req s = (Some r, s') \<and> (case r of
       Inr l \<Rightarrow> wrote (img_success V (vi_enc V (unat (tl_bound_port l)))) (sv_conv s) (sv_conv s')
         \<and> sv_tcp s' = sv_tcp s @ tl_listeners l \<and> sv_unix s' = sv_unix s \<and> tf_bind_port req < 65536
         \<and> serves A (canonicalize_remote_bind_host (text_of (tf_bind_address req))) (tf_bind_port req) l
     | Inl e \<Rightarrow> wrote (img_failure V) (sv_conv s) (sv_conv s') \<and> sv_tcp s' = sv_tcp s \<and> sv_unix s' = sv_unix s)"
  using assms by (rule accept_tcp_forward_run)

definition any_socket :: socket_api where
  "any_socket = \<lparr>so_new = \<lambda>_. Inr (), so_reuseaddr = Inr (), so_v6only = Inr (),
     so_bind = \<lambda>_ a. Inr (if sock_port a = 0 then set_port 4000 a else a), so_listen = Inr (),
     so_local_addr = Inr, so_lookup = \<lambda>_. Inl NotFound, so_unix_bind = \<lambda>_ _. Inr ()\<rparr>"

lemma any_socket_laws: "socket_laws any_socket"
  unfolding socket_laws_def any_socket_def by (auto simp: same_ip_def)

definition quiet_server :: server where
  "quiet_server = \<lparr>sv_conv = conversation_shared_new (rd [] None) fresh_writer, sv_tcp = [], sv_unix = []\<rparr>"

lemma quiet_server_turn: "our_turn 0 (sv_conv quiet_server)"
  by (simp add: our_turn_def quiet_server_def conversation_shared_new_def ordered_access_new_def out_stream_def
      endless_fresh)

theorem tcpip_forward_answered_witness:
  "\<exists>r s'. accept_tcp_forward quic_varint any_socket 0
     \<lparr>tf_bind_address = lit ''localhost'', tf_bind_port = 0\<rparr> quiet_server = (Some r, s')"
  using tcpip_forward_answered [OF any_socket_laws quiet_server_turn] by blast

text \<open>
  When the success response of a Unix forwarding request cannot be written, the request fails,
  but the socket file it created stays behind.
\<close>

theorem unix_socket_file_left_behind:
  "\<exists>e s'. accept_unix_forward quic_varint any_socket 0 \<lparr>sf_socket_path = lit ''/run/x''\<rparr>
     (quiet_server\<lparr>sv_conv := poison (sv_conv quiet_server)\<rparr>) = (Some (Inl e), s')
   \<and> sv_unix s' = [''/run/x'']"
proof -
  let ?s = "quiet_server\<lparr>sv_conv := poison (sv_conv quiet_server), sv_unix := [''/run/x'']\<rparr>"
  have "poisoned (sv_conv ?s)" by simp
  from acquire_writer_poisoned [OF this, of quic_varint 0] obtain c' where
    "acquire_writer quic_varint 0 (poison (sv_conv quiet_server)) = (Some (Inl SessionPoisonedError), c')" by auto
  then have "global_respond_success quic_varint 0 (enc_empty :: (writer, unit, unit) io) (poison (sv_conv quiet_server))
      = (Some (Inl RS_SessionPoisoned), c')"
    by (simp add: global_respond_success_def io_simps)
  then show ?thesis
    by (simp add: accept_unix_forward_def any_socket_def on_conv_def quiet_server_def Let_def)
qed

end
