(* ===== verification/Session_Messages.thy ===== *)
theory Session_Messages
  imports Channel_Wire
begin

text \<open>
  The payloads of session channel requests and notices (\<open>src/session/mod.rs\<close>): their records,
  encoders and decoders, the request types they travel under, and the error kinds that cross
  the process boundary. Every payload is an instance of the wire-format contract.
\<close>

datatype session_codec_error =
    SessionCodec codec_error | SessionReadIo io_error | SessionWriteIo io_error

record exec_request =
  exec_command :: ssh_bytes

record subsystem_request =
  subsystem_name :: ssh_string

record exit_status_request =
  exit_status :: nat

record exit_signal_request =
  exit_signal_name :: ssh_string
  core_dumped :: bool
  error_message :: ssh_string
  language_tag :: ssh_string

record pty_request =
  term_type :: ssh_string
  pty_width_cols :: nat
  pty_height_rows :: nat
  pty_width_px :: nat
  pty_height_px :: nat
  terminal_modes :: ssh_bytes

record window_change_request =
  width_cols :: nat
  height_rows :: nat
  width_px :: nat
  height_px :: nat

record signal_request =
  signal_name :: ssh_string

record env_request =
  env_name :: ssh_string
  env_value :: ssh_string

text \<open>Field encoders and decoders, reported as \<open>Codec\<close>, \<open>ReadIo\<close> or \<open>WriteIo\<close>.\<close>

abbreviation put_str :: "varint_api \<Rightarrow> ssh_string \<Rightarrow> (writer, session_codec_error, unit) io" where
  "put_str V s \<equiv> ctx SessionCodec (enc_ssh_string V s)"

abbreviation put_bytes :: "varint_api \<Rightarrow> ssh_bytes \<Rightarrow> (writer, session_codec_error, unit) io" where
  "put_bytes V s \<equiv> ctx SessionCodec (enc_ssh_bytes V s)"

abbreviation put_bool :: "bool \<Rightarrow> (writer, session_codec_error, unit) io" where
  "put_bool b \<equiv> ctx SessionCodec (enc_ssh_bool b)"

abbreviation put_int :: "varint_api \<Rightarrow> nat \<Rightarrow> (writer, session_codec_error, unit) io" where
  "put_int V n \<equiv> ctx SessionWriteIo (encode_varint V n)"

abbreviation get_str :: "varint_api \<Rightarrow> (reader, session_codec_error, ssh_string) io" where
  "get_str V \<equiv> ctx SessionCodec (dec_ssh_string V)"

abbreviation get_bytes :: "varint_api \<Rightarrow> (reader, session_codec_error, ssh_bytes) io" where
  "get_bytes V \<equiv> ctx SessionCodec (dec_ssh_bytes V)"

abbreviation get_bool :: "(reader, session_codec_error, bool) io" where
  "get_bool \<equiv> ctx SessionCodec dec_ssh_bool"

abbreviation get_int :: "varint_api \<Rightarrow> (reader, session_codec_error, nat) io" where
  "get_int V \<equiv> ctx SessionReadIo (decode_varint V)"

definition dec_exec :: "varint_api \<Rightarrow> (reader, session_codec_error, exec_request) io" where
  "dec_exec V = bindS (get_bytes V) (\<lambda>command. okS \<lparr>exec_command = command\<rparr>)"

definition enc_exec :: "varint_api \<Rightarrow> exec_request \<Rightarrow> (writer, session_codec_error, unit) io" where
  "enc_exec V r = seqS [put_bytes V (exec_command r)]"

definition dec_subsystem :: "varint_api \<Rightarrow> (reader, session_codec_error, subsystem_request) io" where
  "dec_subsystem V = bindS (get_str V) (\<lambda>name. okS \<lparr>subsystem_name = name\<rparr>)"

definition enc_subsystem :: "varint_api \<Rightarrow> subsystem_request \<Rightarrow> (writer, session_codec_error, unit) io" where
  "enc_subsystem V r = seqS [put_str V (subsystem_name r)]"

definition dec_exit_status :: "varint_api \<Rightarrow> (reader, session_codec_error, exit_status_request) io" where
  "dec_exit_status V = bindS (get_int V) (\<lambda>n. okS \<lparr>exit_status = n\<rparr>)"

definition enc_exit_status :: "varint_api \<Rightarrow> exit_status_request \<Rightarrow> (writer, session_codec_error, unit) io" where
  "enc_exit_status V r = seqS [put_int V (exit_status r)]"

definition dec_exit_signal :: "varint_api \<Rightarrow> (reader, session_codec_error, exit_signal_request) io" where
  "dec_exit_signal V =
     bindS (get_str V) (\<lambda>name.
     bindS get_bool (\<lambda>core.
     bindS (get_str V) (\<lambda>msg.
     bindS (get_str V) (\<lambda>tag.
       okS \<lparr>exit_signal_name = name, core_dumped = core, error_message = msg, language_tag = tag\<rparr>))))"

definition enc_exit_signal :: "varint_api \<Rightarrow> exit_signal_request \<Rightarrow> (writer, session_codec_error, unit) io" where
  "enc_exit_signal V r = seqS [put_str V (exit_signal_name r), put_bool (core_dumped r),
     put_str V (error_message r), put_str V (language_tag r)]"

definition dec_pty :: "varint_api \<Rightarrow> (reader, session_codec_error, pty_request) io" where
  "dec_pty V =
     bindS (get_str V) (\<lambda>term_type.
     bindS (get_int V) (\<lambda>cols.
     bindS (get_int V) (\<lambda>rows.
     bindS (get_int V) (\<lambda>px.
     bindS (get_int V) (\<lambda>py.
     bindS (get_bytes V) (\<lambda>modes.
       okS \<lparr>term_type = term_type, pty_width_cols = cols, pty_height_rows = rows,
            pty_width_px = px, pty_height_px = py, terminal_modes = modes\<rparr>))))))"

definition enc_pty :: "varint_api \<Rightarrow> pty_request \<Rightarrow> (writer, session_codec_error, unit) io" where
  "enc_pty V r = seqS [put_str V (term_type r), put_int V (pty_width_cols r),
     put_int V (pty_height_rows r), put_int V (pty_width_px r), put_int V (pty_height_px r),
     put_bytes V (terminal_modes r)]"

definition dec_window_change :: "varint_api \<Rightarrow> (reader, session_codec_error, window_change_request) io" where
  "dec_window_change V =
     bindS (get_int V) (\<lambda>cols.
     bindS (get_int V) (\<lambda>rows.
     bindS (get_int V) (\<lambda>px.
     bindS (get_int V) (\<lambda>py.
       okS \<lparr>width_cols = cols, height_rows = rows, width_px = px, height_px = py\<rparr>))))"

definition enc_window_change ::
    "varint_api \<Rightarrow> window_change_request \<Rightarrow> (writer, session_codec_error, unit) io" where
  "enc_window_change V r = seqS [put_int V (width_cols r), put_int V (height_rows r),
     put_int V (width_px r), put_int V (height_px r)]"

definition dec_signal :: "varint_api \<Rightarrow> (reader, session_codec_error, signal_request) io" where
  "dec_signal V = bindS (get_str V) (\<lambda>name. okS \<lparr>signal_name = name\<rparr>)"

definition enc_signal :: "varint_api \<Rightarrow> signal_request \<Rightarrow> (writer, session_codec_error, unit) io" where
  "enc_signal V r = seqS [put_str V (signal_name r)]"

definition dec_env :: "varint_api \<Rightarrow> (reader, session_codec_error, env_request) io" where
  "dec_env V =
     bindS (get_str V) (\<lambda>name.
     bindS (get_str V) (\<lambda>value. okS \<lparr>env_name = name, env_value = value\<rparr>))"

definition enc_env :: "varint_api \<Rightarrow> env_request \<Rightarrow> (writer, session_codec_error, unit) io" where
  "enc_env V r = seqS [put_str V (env_name r), put_str V (env_value r)]"

subsection \<open>Requests and notices\<close>

text \<open>
  The types implementing \<open>WantReplyChannelRequest\<close> (success payload empty) and
  \<open>NotifyChannelRequest\<close>, as the pair of their request type and payload encoder.
\<close>

datatype session_request =
    PtyChannelRequest pty_request | ExecChannelRequest exec_request | ShellChannelRequest
  | SubsystemChannelRequest subsystem_request | SignalChannelRequest signal_request

primrec session_request_type :: "session_request \<Rightarrow> ssh_string" where
  "session_request_type (PtyChannelRequest p) = ssh_string_from_static ''pty-req''"
| "session_request_type (ExecChannelRequest p) = ssh_string_from_static ''exec''"
| "session_request_type ShellChannelRequest = ssh_string_from_static ''shell''"
| "session_request_type (SubsystemChannelRequest p) = ssh_string_from_static ''subsystem''"
| "session_request_type (SignalChannelRequest p) = ssh_string_from_static ''signal''"

primrec session_request_payload ::
    "varint_api \<Rightarrow> session_request \<Rightarrow> (writer, session_codec_error, unit) io" where
  "session_request_payload V (PtyChannelRequest p) = enc_pty V p"
| "session_request_payload V (ExecChannelRequest p) = enc_exec V p"
| "session_request_payload V ShellChannelRequest = okS ()"
| "session_request_payload V (SubsystemChannelRequest p) = enc_subsystem V p"
| "session_request_payload V (SignalChannelRequest p) = enc_signal V p"

datatype session_notice =
    SignalChannelNotice signal_request | WindowChangeChannelNotice window_change_request
  | ExitStatusChannelNotice exit_status_request | ExitSignalChannelNotice exit_signal_request

primrec session_notice_type :: "session_notice \<Rightarrow> ssh_string" where
  "session_notice_type (SignalChannelNotice p) = ssh_string_from_static ''signal''"
| "session_notice_type (WindowChangeChannelNotice p) = ssh_string_from_static ''window-change''"
| "session_notice_type (ExitStatusChannelNotice p) = ssh_string_from_static ''exit-status''"
| "session_notice_type (ExitSignalChannelNotice p) = ssh_string_from_static ''exit-signal''"

primrec session_notice_payload ::
    "varint_api \<Rightarrow> session_notice \<Rightarrow> (writer, session_codec_error, unit) io" where
  "session_notice_payload V (SignalChannelNotice p) = enc_signal V p"
| "session_notice_payload V (WindowChangeChannelNotice p) = enc_window_change V p"
| "session_notice_payload V (ExitStatusChannelNotice p) = enc_exit_status V p"
| "session_notice_payload V (ExitSignalChannelNotice p) = enc_exit_signal V p"

definition send_session_notice ::
    "varint_api \<Rightarrow> session_notice \<Rightarrow> (writer, session_codec_error send_channel_notice_error, unit) io" where
  "send_session_notice V n = writer_notice V (session_notice_type n) (session_notice_payload V n)"

definition send_session_request ::
    "varint_api \<Rightarrow> session_request
     \<Rightarrow> (ssh_channel, (session_codec_error, unit) send_channel_request_error, unit) io" where
  "send_session_request V r = channel_request V (session_request_type r) (session_request_payload V r) (okS ())"

subsection \<open>Error kinds across the process boundary\<close>

datatype io_error_kind =
    KNotFound | KPermissionDenied | KConnectionRefused | KConnectionReset | KHostUnreachable
  | KNetworkUnreachable | KConnectionAborted | KNotConnected | KAddrInUse | KAddrNotAvailable
  | KNetworkDown | KBrokenPipe | KAlreadyExists | KWouldBlock | KInvalidInput | KInvalidData
  | KTimedOut | KWriteZero | KInterrupted | KUnsupported | KUnexpectedEof | KOutOfMemory | KOther

primrec io_error_kind_from :: "io_kind \<Rightarrow> io_error_kind" where
  "io_error_kind_from NotFound = KNotFound"
| "io_error_kind_from PermissionDenied = KPermissionDenied"
| "io_error_kind_from ConnectionRefused = KConnectionRefused"
| "io_error_kind_from ConnectionReset = KConnectionReset"
| "io_error_kind_from HostUnreachable = KHostUnreachable"
| "io_error_kind_from NetworkUnreachable = KNetworkUnreachable"
| "io_error_kind_from ConnectionAborted = KConnectionAborted"
| "io_error_kind_from NotConnected = KNotConnected"
| "io_error_kind_from AddrInUse = KAddrInUse"
| "io_error_kind_from AddrNotAvailable = KAddrNotAvailable"
| "io_error_kind_from NetworkDown = KNetworkDown"
| "io_error_kind_from BrokenPipe = KBrokenPipe"
| "io_error_kind_from AlreadyExists = KAlreadyExists"
| "io_error_kind_from WouldBlock = KWouldBlock"
| "io_error_kind_from InvalidInput = KInvalidInput"
| "io_error_kind_from InvalidData = KInvalidData"
| "io_error_kind_from TimedOut = KTimedOut"
| "io_error_kind_from WriteZero = KWriteZero"
| "io_error_kind_from Interrupted = KInterrupted"
| "io_error_kind_from Unsupported = KUnsupported"
| "io_error_kind_from UnexpectedEof = KUnexpectedEof"
| "io_error_kind_from OutOfMemory = KOutOfMemory"
| "io_error_kind_from (OtherKind n) = KOther"

primrec io_error_kind_display :: "io_error_kind \<Rightarrow> string" where
  "io_error_kind_display KNotFound = ''not found''"
| "io_error_kind_display KPermissionDenied = ''permission denied''"
| "io_error_kind_display KConnectionRefused = ''connection refused''"
| "io_error_kind_display KConnectionReset = ''connection reset''"
| "io_error_kind_display KHostUnreachable = ''host unreachable''"
| "io_error_kind_display KNetworkUnreachable = ''network unreachable''"
| "io_error_kind_display KConnectionAborted = ''connection aborted''"
| "io_error_kind_display KNotConnected = ''not connected''"
| "io_error_kind_display KAddrInUse = ''address in use''"
| "io_error_kind_display KAddrNotAvailable = ''address not available''"
| "io_error_kind_display KNetworkDown = ''network down''"
| "io_error_kind_display KBrokenPipe = ''broken pipe''"
| "io_error_kind_display KAlreadyExists = ''already exists''"
| "io_error_kind_display KWouldBlock = ''operation would block''"
| "io_error_kind_display KInvalidInput = ''invalid input''"
| "io_error_kind_display KInvalidData = ''invalid data''"
| "io_error_kind_display KTimedOut = ''timed out''"
| "io_error_kind_display KWriteZero = ''write zero''"
| "io_error_kind_display KInterrupted = ''interrupted''"
| "io_error_kind_display KUnsupported = ''unsupported''"
| "io_error_kind_display KUnexpectedEof = ''unexpected end of file''"
| "io_error_kind_display KOutOfMemory = ''out of memory''"
| "io_error_kind_display KOther = ''other I/O error''"

text \<open>\<open>'r\<close> is remoc's \<open>CallError\<close>, with its own display.\<close>

datatype 'r session_error = SE_Message string | SE_Io io_error_kind | SE_Remote 'r

definition session_error_from_io :: "io_error \<Rightarrow> 'r session_error" where
  "session_error_from_io e = SE_Io (io_error_kind_from e)"

definition session_error_display :: "('r \<Rightarrow> string) \<Rightarrow> 'r session_error \<Rightarrow> string" where
  "session_error_display show_remote e = (case e of
     SE_Message m \<Rightarrow> m | SE_Io k \<Rightarrow> io_error_kind_display k | SE_Remote r \<Rightarrow> show_remote r)"


subsection \<open>Images\<close>

definition img_exec where "img_exec V r = img_ssh_string V (exec_command r)"
definition img_subsystem where "img_subsystem V r = img_ssh_string V (subsystem_name r)"
definition img_exit_status where "img_exit_status V r = vi_enc V (exit_status r)"
definition img_exit_signal where
  "img_exit_signal V r = img_ssh_string V (exit_signal_name r) @ img_ssh_bool (core_dumped r)
     @ img_ssh_string V (error_message r) @ img_ssh_string V (language_tag r)"
definition img_pty where
  "img_pty V r = img_ssh_string V (term_type r) @ vi_enc V (pty_width_cols r)
     @ vi_enc V (pty_height_rows r) @ vi_enc V (pty_width_px r) @ vi_enc V (pty_height_px r)
     @ img_ssh_string V (terminal_modes r)"
definition img_window_change where
  "img_window_change V r = vi_enc V (width_cols r) @ vi_enc V (height_rows r)
     @ vi_enc V (width_px r) @ vi_enc V (height_px r)"
definition img_signal where "img_signal V r = img_ssh_string V (signal_name r)"
definition img_env where
  "img_env V r = img_ssh_string V (env_name r) @ img_ssh_string V (env_value r)"

lemmas session_imgs = img_exec_def img_subsystem_def img_exit_status_def img_exit_signal_def
  img_pty_def img_window_change_def img_signal_def img_env_def

definition valid_exec :: "exec_request \<Rightarrow> bool" where
  "valid_exec r \<longleftrightarrow> valid_ssh_bytes (exec_command r)"
definition valid_subsystem :: "subsystem_request \<Rightarrow> bool" where
  "valid_subsystem r \<longleftrightarrow> valid_ssh_string (subsystem_name r)"
definition valid_exit_status :: "exit_status_request \<Rightarrow> bool" where
  "valid_exit_status r \<longleftrightarrow> exit_status r < VARINT_LIMIT"
definition valid_exit_signal :: "exit_signal_request \<Rightarrow> bool" where
  "valid_exit_signal r \<longleftrightarrow> valid_ssh_string (exit_signal_name r) \<and>
     valid_ssh_string (error_message r) \<and> valid_ssh_string (language_tag r)"
definition valid_pty :: "pty_request \<Rightarrow> bool" where
  "valid_pty r \<longleftrightarrow> valid_ssh_string (term_type r) \<and> pty_width_cols r < VARINT_LIMIT \<and>
     pty_height_rows r < VARINT_LIMIT \<and> pty_width_px r < VARINT_LIMIT \<and>
     pty_height_px r < VARINT_LIMIT \<and> valid_ssh_bytes (terminal_modes r)"
definition valid_window_change :: "window_change_request \<Rightarrow> bool" where
  "valid_window_change r \<longleftrightarrow> width_cols r < VARINT_LIMIT \<and> height_rows r < VARINT_LIMIT \<and>
     width_px r < VARINT_LIMIT \<and> height_px r < VARINT_LIMIT"
definition valid_signal :: "signal_request \<Rightarrow> bool" where
  "valid_signal r \<longleftrightarrow> valid_ssh_string (signal_name r)"
definition valid_env :: "env_request \<Rightarrow> bool" where
  "valid_env r \<longleftrightarrow> valid_ssh_string (env_name r) \<and> valid_ssh_string (env_value r)"

lemmas session_valids = valid_exec_def valid_subsystem_def valid_exit_status_def
  valid_exit_signal_def valid_pty_def valid_window_change_def valid_signal_def valid_env_def

lemmas session_encs = enc_exec_def enc_subsystem_def enc_exit_status_def enc_exit_signal_def
  enc_pty_def enc_window_change_def enc_signal_def enc_env_def

lemmas session_decs = dec_exec_def dec_subsystem_def dec_exit_status_def dec_exit_signal_def
  dec_pty_def dec_window_change_def dec_signal_def dec_env_def

lemma valid_lengths:
  "valid_ssh_string s \<Longrightarrow> length s < VARINT_LIMIT" "valid_ssh_bytes s \<Longrightarrow> length s < VARINT_LIMIT"
  by (simp_all add: valid_ssh_string_def valid_ssh_bytes_def size_limits)

lemma session_emits:
  "valid_exec a \<Longrightarrow> emits (enc_exec V a) (img_exec V a)"
  "valid_subsystem b \<Longrightarrow> emits (enc_subsystem V b) (img_subsystem V b)"
  "emits (enc_exit_status V c) (img_exit_status V c)"
  "valid_exit_signal d \<Longrightarrow> emits (enc_exit_signal V d) (img_exit_signal V d)"
  "valid_pty f \<Longrightarrow> emits (enc_pty V f) (img_pty V f)"
  "emits (enc_window_change V g) (img_window_change V g)"
  "valid_signal h \<Longrightarrow> emits (enc_signal V h) (img_signal V h)"
  "valid_env i \<Longrightarrow> emits (enc_env V i) (img_env V i)"
  unfolding session_encs session_imgs session_valids
  by (intro emits_intros valid_lengths; simp)+

context varint_codec
begin

lemma session_dec_img:
  "valid_exec a \<Longrightarrow> dec_exec V (rd (img_exec V a @ rest) e) = (Inr a, rd rest e)"
  "valid_subsystem b \<Longrightarrow> dec_subsystem V (rd (img_subsystem V b @ rest) e) = (Inr b, rd rest e)"
  "valid_exit_status c \<Longrightarrow> dec_exit_status V (rd (img_exit_status V c @ rest) e) = (Inr c, rd rest e)"
  "valid_exit_signal d \<Longrightarrow> dec_exit_signal V (rd (img_exit_signal V d @ rest) e) = (Inr d, rd rest e)"
  "valid_pty f \<Longrightarrow> dec_pty V (rd (img_pty V f @ rest) e) = (Inr f, rd rest e)"
  "valid_window_change g \<Longrightarrow>
     dec_window_change V (rd (img_window_change V g @ rest) e) = (Inr g, rd rest e)"
  "valid_signal h \<Longrightarrow> dec_signal V (rd (img_signal V h @ rest) e) = (Inr h, rd rest e)"
  "valid_env i \<Longrightarrow> dec_env V (rd (img_env V i @ rest) e) = (Inr i, rd rest e)"
  by (simp_all add: session_decs session_imgs session_valids io_simps wire)

lemma session_dec_valid:
  "dec_exec V r = (Inr a, r') \<Longrightarrow> valid_exec a"
  "dec_subsystem V r = (Inr b, r') \<Longrightarrow> valid_subsystem b"
  "dec_exit_status V r = (Inr c, r') \<Longrightarrow> valid_exit_status c"
  "dec_exit_signal V r = (Inr d, r') \<Longrightarrow> valid_exit_signal d"
  "dec_pty V r = (Inr f, r') \<Longrightarrow> valid_pty f"
  "dec_window_change V r = (Inr g, r') \<Longrightarrow> valid_window_change g"
  "dec_signal V r = (Inr h, r') \<Longrightarrow> valid_signal h"
  "dec_env V r = (Inr i, r') \<Longrightarrow> valid_env i"
  by (auto simp: session_decs session_valids io_Inr_iffs
      dest: dec_ssh_string_valid dec_ssh_bytes_valid decode_varint_bound)

lemma session_dec_streaming:
  "streaming (dec_exec V)" "streaming (dec_subsystem V)" "streaming (dec_exit_status V)"
  "streaming (dec_exit_signal V)" "streaming (dec_pty V)" "streaming (dec_window_change V)"
  "streaming (dec_signal V)" "streaming (dec_env V)"
  unfolding session_decs
  by (intro streaming_intros streaming_codec decode_varint_streaming)+

end

sublocale varint_codec \<subseteq> exec: wire_format "enc_exec V" "dec_exec V" "img_exec V" valid_exec
  by unfold_locales (simp_all add: session_emits session_dec_img session_dec_valid session_dec_streaming)

sublocale varint_codec \<subseteq> subsystem: wire_format "enc_subsystem V" "dec_subsystem V"
    "img_subsystem V" valid_subsystem
  by unfold_locales (simp_all add: session_emits session_dec_img session_dec_valid session_dec_streaming)

sublocale varint_codec \<subseteq> exit_status: wire_format "enc_exit_status V" "dec_exit_status V"
    "img_exit_status V" valid_exit_status
  by unfold_locales (simp_all add: session_emits session_dec_img session_dec_valid session_dec_streaming)

sublocale varint_codec \<subseteq> exit_signal: wire_format "enc_exit_signal V" "dec_exit_signal V"
    "img_exit_signal V" valid_exit_signal
  by unfold_locales (simp_all add: session_emits session_dec_img session_dec_valid session_dec_streaming)

sublocale varint_codec \<subseteq> pty: wire_format "enc_pty V" "dec_pty V" "img_pty V" valid_pty
  by unfold_locales (simp_all add: session_emits session_dec_img session_dec_valid session_dec_streaming)

sublocale varint_codec \<subseteq> window_change: wire_format "enc_window_change V" "dec_window_change V"
    "img_window_change V" valid_window_change
  by unfold_locales (simp_all add: session_emits session_dec_img session_dec_valid session_dec_streaming)

sublocale varint_codec \<subseteq> signal: wire_format "enc_signal V" "dec_signal V" "img_signal V" valid_signal
  by unfold_locales (simp_all add: session_emits session_dec_img session_dec_valid session_dec_streaming)

sublocale varint_codec \<subseteq> env: wire_format "enc_env V" "dec_env V" "img_env V" valid_env
  by unfold_locales (simp_all add: session_emits session_dec_img session_dec_valid session_dec_streaming)


context varint_codec
begin

lemmas session_survives = exec.survives subsystem.survives exit_status.survives exit_signal.survives
  pty.survives window_change.survives signal.survives env.survives

end

subsection \<open>Properties\<close>

text \<open>
  C28: session payloads survive the wire. Every payload of a session channel request or notice
  (exec, subsystem, exit-status, exit-signal, pty-req, window-change, signal, env) can be
  encoded, and what the encoder wrote decodes to the same record, consuming exactly those
  bytes, while a truncation of them never decodes.
\<close>

theorem session_payloads_roundtrip:
  assumes "varint_codec V"
  shows "(valid_exec a \<longrightarrow> survives (enc_exec V) (dec_exec V) a)
    \<and> (valid_subsystem b \<longrightarrow> survives (enc_subsystem V) (dec_subsystem V) b)
    \<and> (valid_exit_status c \<longrightarrow> survives (enc_exit_status V) (dec_exit_status V) c)
    \<and> (valid_exit_signal d \<longrightarrow> survives (enc_exit_signal V) (dec_exit_signal V) d)
    \<and> (valid_pty f \<longrightarrow> survives (enc_pty V) (dec_pty V) f)
    \<and> (valid_window_change g \<longrightarrow> survives (enc_window_change V) (dec_window_change V) g)
    \<and> (valid_signal h \<longrightarrow> survives (enc_signal V) (dec_signal V) h)
    \<and> (valid_env i \<longrightarrow> survives (enc_env V) (dec_env V) i)"
  using varint_codec.session_survives [OF assms] by blast

theorem session_payloads_roundtrip_witness:
  "survives (enc_window_change quic_varint) (dec_window_change quic_varint)
     \<lparr>width_cols = 80, height_rows = 24, width_px = 0, height_px = 0\<rparr>"
  using session_payloads_roundtrip [OF quic.varint_codec_axioms]
  by (simp add: valid_window_change_def VARINT_LIMIT_def)

text \<open>
  Error kinds cross the process boundary unchanged. Two I/O errors are reported as the
  same serialized kind only when they are the same error or neither has a kind of its own, and
  different kinds are displayed differently.
\<close>

theorem io_error_kind_faithful:
  "(io_error_kind_from a = io_error_kind_from b \<longleftrightarrow>
      a = b \<or> (\<exists>m n. a = OtherKind m \<and> b = OtherKind n))
   \<and> (io_error_kind_display k = io_error_kind_display l \<longleftrightarrow> k = l)"
proof
  show "io_error_kind_from a = io_error_kind_from b \<longleftrightarrow>
      a = b \<or> (\<exists>m n. a = OtherKind m \<and> b = OtherKind n)"
    by (cases a; cases b; simp)
  show "io_error_kind_display k = io_error_kind_display l \<longleftrightarrow> k = l"
    by (cases k; cases l; simp)
qed

end
