(* ===== verification/Signals.thy ===== *)
theory Signals
  imports Text_Util
begin

text \<open>
  Signal names (\<open>src/session/signal.rs\<close>). Signal numbers are libc's and stay a parameter
  \<open>signum\<close>.
\<close>

datatype signal =
    SIGABRT | SIGALRM | SIGFPE | SIGHUP | SIGILL | SIGINT | SIGKILL | SIGPIPE | SIGQUIT
  | SIGSEGV | SIGTERM | SIGUSR1 | SIGUSR2 | SIGCONT | SIGSTOP | SIGTSTP | SIGTTIN | SIGTTOU

definition ssh_names :: "(string \<times> signal) list" where
  "ssh_names =
     [(''ABRT'', SIGABRT), (''ALRM'', SIGALRM), (''FPE'', SIGFPE), (''HUP'', SIGHUP),
      (''ILL'', SIGILL), (''INT'', SIGINT), (''KILL'', SIGKILL), (''PIPE'', SIGPIPE),
      (''QUIT'', SIGQUIT), (''SEGV'', SIGSEGV), (''TERM'', SIGTERM), (''USR1'', SIGUSR1),
      (''USR2'', SIGUSR2), (''CONT'', SIGCONT), (''STOP'', SIGSTOP), (''TSTP'', SIGTSTP),
      (''TTIN'', SIGTTIN), (''TTOU'', SIGTTOU)]"

definition from_ssh_name :: "string \<Rightarrow> signal option" where
  "from_ssh_name name = map_of ssh_names name"

definition to_ssh_name :: "(signal \<Rightarrow> int) \<Rightarrow> int \<Rightarrow> string option" where
  "to_ssh_name signum signal_number =
     map_of (map (\<lambda>(name, s). (signum s, name)) ssh_names) signal_number"

text \<open>Signalling the group first, then the process; both system calls are parameters.\<close>

definition deliver :: "('p \<Rightarrow> signal \<Rightarrow> 'e + unit) \<Rightarrow> ('p \<Rightarrow> signal \<Rightarrow> 'e + unit) \<Rightarrow> 'p \<Rightarrow> signal \<Rightarrow> 'e + unit" where
  "deliver killpg kill pid signal = (case killpg pid signal of
       Inr _ \<Rightarrow> Inr ()
     | Inl _ \<Rightarrow> kill pid signal)"

lemma distinct_names: "distinct (map fst ssh_names)" "distinct (map snd ssh_names)"
  by (simp_all add: ssh_names_def)

lemma all_named: "s \<in> set (map snd ssh_names)"
  by (cases s) (simp_all add: ssh_names_def)

lemma from_ssh_name_iff: "from_ssh_name name = Some s \<longleftrightarrow> (name, s) \<in> set ssh_names"
  using distinct_names(1) by (simp add: from_ssh_name_def)

lemma to_ssh_name_iff:
  assumes "inj signum"
  shows "to_ssh_name signum n = Some name \<longleftrightarrow> (\<exists>s. n = signum s \<and> (name, s) \<in> set ssh_names)"
proof -
  have "map fst (map (\<lambda>(name, s). (signum s, name)) ssh_names) = map signum (map snd ssh_names)"
    by (simp add: case_prod_beta comp_def)
  then have "distinct (map fst (map (\<lambda>(name, s). (signum s, name)) ssh_names))"
    using distinct_names(2) assms by (metis distinct_map inj_on_subset subset_UNIV)
  then show ?thesis unfolding to_ssh_name_def by (auto simp del: list.map)
qed

lemma signal_names_inverse:
  assumes "inj signum"
  shows "to_ssh_name signum (signum s) = Some name \<longleftrightarrow> from_ssh_name name = Some s"
  using assms by (auto simp: to_ssh_name_iff from_ssh_name_iff inj_eq)

lemma every_signal_named:
  assumes "inj signum"
  shows "\<exists>name. to_ssh_name signum (signum s) = Some name \<and> from_ssh_name name = Some s"
proof -
  obtain name where "(name, s) \<in> set ssh_names" using all_named [of s] by auto
  then show ?thesis using assms by (auto simp: to_ssh_name_iff from_ssh_name_iff)
qed

lemma ssh_name_ascii:
  assumes "to_ssh_name signum n = Some name"
  shows "ascii name \<and> length name \<le> 4"
proof -
  have "(n, name) \<in> set (map (\<lambda>(name, s). (signum s, name)) ssh_names)"
    using assms unfolding to_ssh_name_def by (rule map_of_SomeD)
  then have "name \<in> fst ` set ssh_names" by (auto simp: image_iff case_prod_beta)
  then show ?thesis by (auto simp: ssh_names_def ascii_def byte_of_def)
qed

end
