(* ===== verification/Handshake.thy ===== *)
theory Handshake
  imports Config_Directives Conversation
begin

text \<open>
  Session establishment: HTTP Basic credentials (\<open>src/auth.rs\<close>, \<open>src/client.rs\<close>), version
  negotiation (\<open>src/version.rs\<close>) and the WebTransport extended CONNECT exchange
  (\<open>src/webtransport.rs\<close>). The base64 engine, the \<open>http\<close> types and the h3x connection are
  parameters.
\<close>

subsection \<open>Credentials\<close>

datatype auth_credential = Basic string string | Certificate

definition auth_credential_display :: "auth_credential \<Rightarrow> string" where
  "auth_credential_display c = (case c of
       Basic username _ \<Rightarrow> ''Basic(username='' @ username @ '', password=<redacted>)''
     | Certificate \<Rightarrow> ''Certificate'')"

datatype 'be parse_auth_error =
    MissingSchemeSeparator
  | UnsupportedAuthScheme string
  | EmptyCredentials
  | InvalidBase64Credentials 'be
  | CredentialsNotUtf8
  | MissingCredentialSeparator

text \<open>\<open>str::split_once\<close> at a one-byte separator.\<close>

fun split_once :: "char \<Rightarrow> string \<Rightarrow> (string \<times> string) option" where
  "split_once c [] = None"
| "split_once c (d # s) =
     (if d = c then Some ([], s)
      else case split_once c s of None \<Rightarrow> None | Some (a, b) \<Rightarrow> Some (d # a, b))"

definition eq_ignore_ascii_case :: "string \<Rightarrow> string \<Rightarrow> bool" where
  "eq_ignore_ascii_case s t \<longleftrightarrow> to_ascii_lowercase s = to_ascii_lowercase t"

definition parse_authorization_header ::
    "(string \<Rightarrow> 'be + bytes) \<Rightarrow> string \<Rightarrow> 'be parse_auth_error + auth_credential" where
  "parse_authorization_header b64_decode header_value =
     (case split_once (CHR '' '') header_value of
        None \<Rightarrow> Inl MissingSchemeSeparator
      | Some (scheme, credentials) \<Rightarrow>
          if \<not> eq_ignore_ascii_case scheme ''Basic'' then Inl (UnsupportedAuthScheme scheme)
          else if credentials = [] then Inl EmptyCredentials
          else (case b64_decode credentials of
            Inl e \<Rightarrow> Inl (InvalidBase64Credentials e)
          | Inr decoded_bytes \<Rightarrow>
              if \<not> utf8_valid decoded_bytes then Inl CredentialsNotUtf8
              else (case split_once (CHR '':'') (text_of decoded_bytes) of
                None \<Rightarrow> Inl MissingCredentialSeparator
              | Some (username, password) \<Rightarrow> Inr (Basic username password))))"

text \<open>
  \<open>encode_basic_auth\<close> up to \<open>HeaderValue::from_str\<close>, whose \<open>expect\<close> is the outer option: base64
  text is always a legal header value.
\<close>

definition encode_basic_auth ::
    "(bytes \<Rightarrow> string) \<Rightarrow> (string \<Rightarrow> 'hv option) \<Rightarrow> string \<Rightarrow> string \<Rightarrow> 'hv option" where
  "encode_basic_auth b64_encode from_str username password =
     from_str (''Basic '' @ b64_encode (lit (username @ '':'' @ password)))"

subsection \<open>Versions\<close>

definition DSHELL_VERSION :: string where
  "DSHELL_VERSION = ''dshell-00''"

definition SUPPORTED_DSHELL_VERSIONS :: "string list" where
  "SUPPORTED_DSHELL_VERSIONS = [DSHELL_VERSION]"

definition DSHELL_CONNECT_PATH :: string where
  "DSHELL_CONNECT_PATH = ''/.well-known/dshell/connect''"

record dshell_version =
  version_string :: string

datatype 'te negotiate_version_error =
    MissingDshellVersionHeader
  | InvalidDshellVersionHeaderValue 'te
  | EmptyDshellVersionHeader
  | UnsupportedDshellVersion string

text \<open>
  The operations of the \<open>http\<close> crate the code calls: header maps (\<open>get\<close>, \<open>append\<close> through the
  builder's \<open>header\<close>, \<open>insert\<close>), header values and URIs.
\<close>

record ('hm, 'hv, 'te, 'uri, 'ue) http_api =
  hm_new :: 'hm
  hm_get :: "'hm \<Rightarrow> string \<Rightarrow> 'hv option"
  hm_append :: "'hm \<Rightarrow> string \<Rightarrow> 'hv \<Rightarrow> 'hm"
  hm_insert :: "'hm \<Rightarrow> string \<Rightarrow> 'hv \<Rightarrow> 'hm"
  hv_to_str :: "'hv \<Rightarrow> 'te + string"
  hv_from_str :: "string \<Rightarrow> 'hv option"
  uri_parse :: "string \<Rightarrow> 'ue + 'uri"
  uri_path :: "'uri \<Rightarrow> string"

fun first_supported :: "string list \<Rightarrow> string option" where
  "first_supported [] = None"
| "first_supported (offered # rest) =
     (if trim offered \<in> set SUPPORTED_DSHELL_VERSIONS then Some (trim offered) else first_supported rest)"

definition negotiate_version ::
    "('hm, 'hv, 'te, 'uri, 'ue) http_api \<Rightarrow> 'hm \<Rightarrow> 'te negotiate_version_error + dshell_version" where
  "negotiate_version H headers = (case hm_get H headers ''ssh-version'' of
       None \<Rightarrow> Inl MissingDshellVersionHeader
     | Some v \<Rightarrow>
         (case hv_to_str H v of
            Inl e \<Rightarrow> Inl (InvalidDshellVersionHeaderValue e)
          | Inr header_value \<Rightarrow>
              if header_value = [] then Inl EmptyDshellVersionHeader
              else (case first_supported (split_on (CHR '','') header_value) of
                Some v \<Rightarrow> Inr \<lparr>version_string = v\<rparr>
              | None \<Rightarrow> Inl (UnsupportedDshellVersion header_value))))"

definition version_response_header ::
    "('hm, 'hv, 'te, 'uri, 'ue) http_api \<Rightarrow> dshell_version \<Rightarrow> 'hv option" where
  "version_response_header H version = hv_from_str H (version_string version)"

subsection \<open>The CONNECT exchange\<close>

datatype http_method = CONNECT

record ('hm, 'uri) http_request =
  rq_method :: http_method
  rq_uri :: 'uri
  rq_headers :: 'hm
  rq_protocol :: string

record 'hm http_response =
  rs_status :: nat
  rs_headers :: 'hm

datatype 'ue build_client_connect_request_error = BR_Uri 'ue | BR_Request

definition client_connect_request ::
    "('hm, 'hv, 'te, 'uri, 'ue) http_api \<Rightarrow> string \<Rightarrow> string \<Rightarrow> string \<Rightarrow> 'hv option
     \<Rightarrow> 'ue build_client_connect_request_error + ('hm, 'uri) http_request" where
  "client_connect_request H webtransport_h3 authority path authorization =
     (case uri_parse H (''https://'' @ authority @ path) of
        Inl e \<Rightarrow> Inl (BR_Uri e)
      | Inr uri \<Rightarrow>
          (case hv_from_str H DSHELL_VERSION of
             None \<Rightarrow> Inl BR_Request
           | Some v \<Rightarrow>
               (let headers = hm_append H (hm_new H) ''ssh-version'' v;
                    headers = (case authorization of
                        Some value \<Rightarrow> hm_append H headers ''authorization'' value
                      | None \<Rightarrow> headers)
                in Inr \<lparr>rq_method = CONNECT, rq_uri = uri, rq_headers = headers,
                        rq_protocol = webtransport_h3\<rparr>)))"

definition peer_version ::
    "('hm, 'hv, 'te, 'uri, 'ue) http_api \<Rightarrow> 'hm \<Rightarrow> 'te negotiate_version_error + dshell_version" where
  "peer_version H headers = negotiate_version H headers"

definition is_success :: "nat \<Rightarrow> bool" where
  "is_success status \<longleftrightarrow> 200 \<le> status \<and> status < 300"

datatype ('ue, 'xe, 'te, 'se, 'ge, 'me) client_connect_conversation_error =
    CC_BuildRequest "'ue build_client_connect_request_error"
  | CC_Execute 'xe
  | CC_PeerVersion "'te negotiate_version_error"
  | CC_Establish 'se
  | CC_MissingValidatedPeerVersion
  | CC_RegisterSession 'ge
  | CC_OpenConversation "'me web_transport_stream_error"

text \<open>
  The h3x side as a computation over the connection's state: sending the request, turning the
  response into an established CONNECT stream, registering the session, and opening the
  bidirectional stream \<open>Conversation::open\<close> asks for.
\<close>

record ('c, 'hm, 'uri, 'xe, 'cn, 'se, 'ss, 'ge, 'me) h3x_api =
  hx_execute :: "('hm, 'uri) http_request \<Rightarrow> ('c, 'xe, 'hm http_response) io"
  hx_establish :: "'hm http_response \<Rightarrow> ('c, 'se, 'cn) io"
  hx_register :: "'cn \<Rightarrow> ('c, 'ge, 'ss) io"
  hx_open_bi :: "'ss \<Rightarrow> 'me + reader \<times> writer"

definition open_client_conversation ::
    "varint_api \<Rightarrow> ('hm, 'hv, 'te, 'uri, 'ue) http_api
     \<Rightarrow> ('c, 'hm, 'uri, 'xe, 'cn, 'se, 'ss, 'ge, 'me) h3x_api
     \<Rightarrow> string \<Rightarrow> string \<Rightarrow> string \<Rightarrow> 'hv option
     \<Rightarrow> ('c, ('ue, 'xe, 'te, 'se, 'ge, 'me) client_connect_conversation_error,
         conversation_shared \<times> string) io" where
  "open_client_conversation V H X webtransport_h3 authority path authorization =
     bindS (ctx CC_BuildRequest
       (liftE (client_connect_request H webtransport_h3 authority path authorization))) (\<lambda>request.
     bindS (ctx CC_Execute (hx_execute X request)) (\<lambda>response.
     bindS (if is_success (rs_status response)
            then bindS (ctx CC_PeerVersion (liftE (peer_version H (rs_headers response)))) (\<lambda>v. okS (Some v))
            else okS None) (\<lambda>version.
     bindS (ctx CC_Establish (hx_establish X response)) (\<lambda>connect.
     bindS (case version of None \<Rightarrow> failS CC_MissingValidatedPeerVersion | Some v \<Rightarrow> okS v) (\<lambda>version.
     bindS (ctx CC_RegisterSession (hx_register X connect)) (\<lambda>session.
       case conversation_open V (hx_open_bi X session) of
         Inl e \<Rightarrow> failS (CC_OpenConversation e)
       | Inr shared \<Rightarrow> okS (shared, version_string version)))))))"

datatype ('te, 'ae, 'ge) accept_server_session_error =
    AS_UnexpectedPath string
  | AS_PeerVersion "'te negotiate_version_error"
  | AS_Accept 'ae
  | AS_RegisterSession 'ge

record ('hm, 'ss) accepted_web_transport_session =
  aw_response :: "'hm http_response"
  aw_session :: 'ss
  aw_peer_version :: string

text \<open>
  \<open>None\<close> is the panic of \<open>version_response_header\<close>, which the negotiated versions never cause
  when they are legal header values.
\<close>

definition accept_server_session ::
    "('hm, 'hv, 'te, 'uri, 'ue) http_api
     \<Rightarrow> (('hm, 'uri) http_request \<Rightarrow> ('c, 'ae, 'hm http_response \<times> 'cn) io)
     \<Rightarrow> ('cn \<Rightarrow> ('c, 'ge, 'ss) io)
     \<Rightarrow> ('hm, 'uri) http_request \<Rightarrow> string
     \<Rightarrow> ('c, ('te, 'ae, 'ge) accept_server_session_error,
         ('hm, 'ss) accepted_web_transport_session option) io" where
  "accept_server_session H accept register request path =
     (if uri_path H (rq_uri request) \<noteq> path
      then failS (AS_UnexpectedPath (uri_path H (rq_uri request)))
      else
        bindS (ctx AS_PeerVersion (liftE (peer_version H (rq_headers request)))) (\<lambda>version.
        bindS (ctx AS_Accept (accept request)) (\<lambda>(response, connect).
        bindS (ctx AS_RegisterSession (register connect)) (\<lambda>session.
          okS (case version_response_header H version of
              None \<Rightarrow> None
            | Some hv \<Rightarrow> Some
                \<lparr>aw_response = response\<lparr>rs_headers :=
                   hm_insert H (rs_headers response) ''ssh-version'' hv\<rparr>,
                 aw_session = session,
                 aw_peer_version = version_string version\<rparr>)))))"

subsection \<open>Properties\<close>

lemma split_once_here: "c \<notin> set a \<Longrightarrow> split_once c (a @ c # b) = Some (a, b)"
  by (induction a) auto

lemma split_once_sound: "split_once c s = Some (a, b) \<Longrightarrow> s = a @ c # b \<and> c \<notin> set a"
  by (induction s arbitrary: a) (auto split: if_splits option.splits)

lemma split_once_Some: "split_once c s = Some (a, b) \<longleftrightarrow> s = a @ c # b \<and> c \<notin> set a"
  using split_once_here split_once_sound by metis

lemma first_supported_eq:
  "first_supported vs = (if DSHELL_VERSION \<in> trim ` set vs then Some DSHELL_VERSION else None)"
  by (induction vs) (auto simp: SUPPORTED_DSHELL_VERSIONS_def)

lemma trim_Nil: "trim [] = []"
  by (simp add: trim_def trim_start.simps trim_end.simps ws_front_def ws_back_def)

lemma negotiate_version_iff:
  "negotiate_version H hm = Inr v \<longleftrightarrow> v = \<lparr>version_string = DSHELL_VERSION\<rparr> \<and>
     (\<exists>hv s. hm_get H hm ''ssh-version'' = Some hv \<and> hv_to_str H hv = Inr s
        \<and> DSHELL_VERSION \<in> trim ` set (split_on (CHR '','') s))"
proof -
  have "trim ` set (split_on (CHR '','') []) = {[]}" by (simp add: trim_Nil)
  then have "DSHELL_VERSION \<notin> trim ` set (split_on (CHR '','') [])" by (simp add: DSHELL_VERSION_def)
  then show ?thesis
    by (auto simp: negotiate_version_def first_supported_eq split: option.splits sum.splits)
qed

text \<open>
  Basic credentials are parsed exactly. A header value parses exactly when it is \<open>Basic\<close> in any
  ASCII case, a space, and non-empty text that base64-decodes to valid UTF-8 with a colon; the
  user name is what precedes the first colon and the password all that follows it, whatever it
  contains.
\<close>

theorem authorization_header_exact:
  "parse_authorization_header dec hv = Inr c \<longleftrightarrow>
     (\<exists>scheme cred u p. hv = scheme @ '' '' @ cred \<and> to_ascii_lowercase scheme = ''basic'' \<and> cred \<noteq> []
        \<and> dec cred = Inr (lit (u @ '':'' @ p)) \<and> utf8_valid (lit (u @ '':'' @ p))
        \<and> CHR '':'' \<notin> set u \<and> c = Basic u p)"
proof -
  have lower: "to_ascii_lowercase ''Basic'' = ''basic''" by code_simp
  have space: "CHR '' '' \<notin> set s" if "to_ascii_lowercase s = ''basic''" for s
  proof
    assume "CHR '' '' \<in> set s"
    then have "ascii_lower (CHR '' '') \<in> set (to_ascii_lowercase s)" by (auto simp: to_ascii_lowercase_def)
    then show False using that by (simp add: ascii_lower_def code_def)
  qed
  have body: "(case split_once (CHR '':'') (text_of d) of None \<Rightarrow> Inl MissingCredentialSeparator
      | Some (a, b) \<Rightarrow> Inr (Basic a b)) = Inr c
      \<longleftrightarrow> (\<exists>u p. d = lit (u @ '':'' @ p) \<and> CHR '':'' \<notin> set u \<and> c = Basic u p)" for d
  proof -
    have "text_of d = s \<longleftrightarrow> d = lit s" for s by (metis lit_text_of text_of_lit)
    then have "split_once (CHR '':'') (text_of d) = Some (u, p)
        \<longleftrightarrow> d = lit (u @ '':'' @ p) \<and> CHR '':'' \<notin> set u" for u p
      unfolding split_once_Some by simp
    then show ?thesis by (cases "split_once (CHR '':'') (text_of d)") (auto simp del: lit_append)
  qed
  show ?thesis (is "?l \<longleftrightarrow> ?r")
  proof
    assume ?l
    then obtain scheme cred d where "split_once (CHR '' '') hv = Some (scheme, cred)"
        "to_ascii_lowercase scheme = ''basic''" "cred \<noteq> []" "dec cred = Inr d" "utf8_valid d"
        "(case split_once (CHR '':'') (text_of d) of None \<Rightarrow> Inl MissingCredentialSeparator
          | Some (a, b) \<Rightarrow> Inr (Basic a b)) = Inr c"
      by (auto simp: parse_authorization_header_def eq_ignore_ascii_case_def lower
          split: option.splits sum.splits if_splits)
    then show ?r unfolding body by (auto simp: split_once_Some)
  next
    assume ?r
    then obtain scheme cred u p where r: "hv = scheme @ '' '' @ cred"
        "to_ascii_lowercase scheme = ''basic''" "cred \<noteq> []" "dec cred = Inr (lit (u @ '':'' @ p))"
        "utf8_valid (lit (u @ '':'' @ p))" "CHR '':'' \<notin> set u" "c = Basic u p" by blast
    have "split_once (CHR '' '') hv = Some (scheme, cred)"
      unfolding split_once_Some using r space by simp
    moreover have "split_once (CHR '':'') (u @ '':'' @ p) = Some (u, p)"
      unfolding split_once_Some using r by simp
    ultimately show ?l using r
      by (simp add: parse_authorization_header_def eq_ignore_ascii_case_def lower del: lit_append)
  qed
qed

text \<open>
  Basic credentials survive the trip. With a base64 engine that decodes what it encodes and
  header values that read back as written, the server parses the header the client built for a
  user name without a colon into that user name and password; the printed credential does not
  depend on the password.
\<close>

theorem basic_auth_roundtrip:
  assumes b64: "\<And>bs. b64_decode (b64_encode bs) = Inr bs"
    and b64_Nil: "b64_decode [] = Inr []"
    and header: "\<And>s hv. from_str s = Some hv \<Longrightarrow> to_str hv = Inr s"
    and sent: "encode_basic_auth b64_encode from_str u p = Some hv"
    and user: "CHR '':'' \<notin> set u" "utf8_valid (lit (u @ '':'' @ p))"
  shows "\<exists>s. to_str hv = Inr s \<and> parse_authorization_header b64_decode s = Inr (Basic u p)
     \<and> auth_credential_display (Basic u p) = auth_credential_display (Basic u q)"
proof -
  let ?c = "b64_encode (lit (u @ '':'' @ p))"
  have ne: "?c \<noteq> []"
  proof
    assume "?c = []"
    with b64 [of "lit (u @ '':'' @ p)"] b64_Nil show False by (simp add: lit_def)
  qed
  let ?s = "''Basic'' @ '' '' @ ?c"
  have s: "to_str hv = Inr ?s"
    using header [OF sent [unfolded encode_basic_auth_def]] by simp
  have "split_once (CHR '' '') ?s = Some (''Basic'', ?c)" unfolding split_once_Some by simp
  moreover have "split_once (CHR '':'') (u @ '':'' @ p) = Some (u, p)"
    unfolding split_once_Some using user by simp
  ultimately have "parse_authorization_header b64_decode ?s = Inr (Basic u p)"
    using ne user(2) b64
    by (simp add: parse_authorization_header_def eq_ignore_ascii_case_def del: lit_append)
  with s show ?thesis by (auto simp: auth_credential_display_def)
qed

theorem basic_auth_roundtrip_witness:
  "\<exists>s. (Inr ''Basic joe:a:b'' :: unit + string) = Inr s
     \<and> parse_authorization_header (\<lambda>s. Inr (lit s) :: unit + bytes) s = Inr (Basic ''joe'' ''a:b'')"
  using basic_auth_roundtrip [where b64_decode = "\<lambda>s. Inr (lit s) :: unit + bytes" and b64_encode = text_of
      and from_str = Some and to_str = "\<lambda>s. Inr s :: unit + string" and u = "''joe''" and p = "''a:b''"
      and hv = "''Basic joe:a:b''"]
  by (simp add: encode_basic_auth_def utf8_valid_lit ascii_def byte_of_def)

text \<open>
  Version negotiation. The negotiated version is always the one supported version, and
  negotiation succeeds exactly when the header is present, is text, and one of its comma-separated
  entries is that version up to surrounding white space.
\<close>

theorem negotiation_exact:
  "negotiate_version H hm = Inr v \<longleftrightarrow> v = \<lparr>version_string = ''dshell-00''\<rparr> \<and>
     (\<exists>hv s. hm_get H hm ''ssh-version'' = Some hv \<and> hv_to_str H hv = Inr s
        \<and> (\<exists>offer. offer \<in> set (split_on (CHR '','') s) \<and> trim offer = ''dshell-00''))"
  unfolding negotiate_version_iff DSHELL_VERSION_def [symmetric] image_iff by (metis (no_types, lifting))

definition http_laws :: "('hm, 'hv, 'te, 'uri, 'ue) http_api \<Rightarrow> bool" where
  "http_laws H \<longleftrightarrow>
     (\<forall>k. hm_get H (hm_new H) k = None)
     \<and> (\<forall>m k v k'. hm_get H (hm_append H m k v) k' =
          (case hm_get H m k' of Some x \<Rightarrow> Some x | None \<Rightarrow> if k = k' then Some v else None))
     \<and> (\<forall>m k v k'. hm_get H (hm_insert H m k v) k' = (if k = k' then Some v else hm_get H m k'))
     \<and> (\<forall>s v. hv_from_str H s = Some v \<longrightarrow> hv_to_str H v = Inr s)"

lemma version_header:
  assumes "http_laws H" "hv_from_str H DSHELL_VERSION = Some hv" "hm_get H hm ''ssh-version'' = Some hv"
  shows "negotiate_version H hm = Inr \<lparr>version_string = DSHELL_VERSION\<rparr>"
proof -
  have "trim ` set (split_on (CHR '','') DSHELL_VERSION) = {DSHELL_VERSION}"
    by code_simp
  moreover have "hv_to_str H hv = Inr DSHELL_VERSION" using assms(1,2) by (simp add: http_laws_def)
  ultimately show ?thesis unfolding negotiate_version_iff using assms(3) by simp
qed

lemma liftE_Inr [simp]: "liftE r s = (Inr x, t) \<longleftrightarrow> r = Inr x \<and> t = s"
  by (cases r) (auto simp: liftE_def okS_def failS_def)

text \<open>
  C34: the handshake. Over an \<open>http\<close> library whose header maps and values read back what was
  stored, and a URI that parses to the requested path, the client's CONNECT request is accepted
  by a server serving that path with version dshell-00, with or without an authorization header;
  the client that receives the server's response, with a success status, ends with a
  conversation of that version.
\<close>

theorem connect_handshake:
  assumes http: "http_laws H" "hv_from_str H DSHELL_VERSION = Some hv"
    and uri: "uri_parse H (''https://'' @ authority @ path) = Inr uri" "uri_path H uri = path"
    and server: "\<And>rq. accept rq k = (Inr (resp, cn), k1)" "register cn k1 = (Inr ss, k2)"
  shows "\<exists>rq acc. client_connect_request H wt authority path authz = Inr rq
     \<and> accept_server_session H accept register rq path k = (Inr (Some acc), k2)
     \<and> aw_peer_version acc = ''dshell-00''
     \<and> (is_success (rs_status resp) \<and> hx_execute X rq c = (Inr (aw_response acc), c1)
        \<and> hx_establish X (aw_response acc) c1 = (Inr cc, c2) \<and> hx_register X cc c2 = (Inr s, c3)
        \<and> conversation_open V (hx_open_bi X s) = Inr shared
        \<longrightarrow> open_client_conversation V H X wt authority path authz c = (Inr (shared, ''dshell-00''), c3))"
proof -
  define headers where "headers = (case authz of
      Some value \<Rightarrow> hm_append H (hm_append H (hm_new H) ''ssh-version'' hv) ''authorization'' value
    | None \<Rightarrow> hm_append H (hm_new H) ''ssh-version'' hv)"
  define rq where "rq = \<lparr>rq_method = CONNECT, rq_uri = uri, rq_headers = headers, rq_protocol = wt\<rparr>"
  define answer where "answer = resp\<lparr>rs_headers := hm_insert H (rs_headers resp) ''ssh-version'' hv\<rparr>"
  define acc where "acc = \<lparr>aw_response = answer, aw_session = ss, aw_peer_version = DSHELL_VERSION\<rparr>"
  have rq: "client_connect_request H wt authority path authz = Inr rq"
    unfolding client_connect_request_def uri http(2)
    by (cases authz) (simp_all add: rq_def headers_def Let_def)
  have "hm_get H headers ''ssh-version'' = Some hv" "hm_get H (rs_headers answer) ''ssh-version'' = Some hv"
    using http by (auto simp: headers_def answer_def http_laws_def split: option.splits)
  then have neg: "negotiate_version H headers = Inr \<lparr>version_string = DSHELL_VERSION\<rparr>"
      "negotiate_version H (rs_headers answer) = Inr \<lparr>version_string = DSHELL_VERSION\<rparr>"
    using version_header [OF http] by auto
  have "accept_server_session H accept register rq path k = (Inr (Some acc), k2)"
    by (simp add: accept_server_session_def rq_def uri bindS_def ctx_def liftE_def okS_def
        peer_version_def neg server version_response_header_def http acc_def answer_def)
  moreover have "open_client_conversation V H X wt authority path authz c = (Inr (shared, DSHELL_VERSION), c3)"
    if "is_success (rs_status resp)" "hx_execute X rq c = (Inr answer, c1)"
      "hx_establish X answer c1 = (Inr cc, c2)" "hx_register X cc c2 = (Inr s, c3)"
      "conversation_open V (hx_open_bi X s) = Inr shared"
  proof -
    have "rs_status answer = rs_status resp" by (simp add: answer_def)
    then show ?thesis using that
      by (simp add: open_client_conversation_def rq bindS_def ctx_def liftE_def okS_def
          peer_version_def neg)
  qed
  ultimately show ?thesis using rq by (intro exI [of _ rq] exI [of _ acc]) (simp add: acc_def DSHELL_VERSION_def)
qed

lemma open_result_iff:
  "(case r of Inl e \<Rightarrow> failS (f e) | Inr x \<Rightarrow> okS (g x)) s = (Inr y, t)
     \<longleftrightarrow> (\<exists>x. r = Inr x \<and> y = g x \<and> t = s)"
  by (cases r) (auto simp: io_simps)

text \<open>A small instance of the library parameters: association lists, text and one host.\<close>

definition list_http :: "((string \<times> string) list, string, unit, string, unit) http_api" where
  "list_http = \<lparr>hm_new = [], hm_get = map_of, hm_append = (\<lambda>m k v. m @ [(k, v)]),
     hm_insert = (\<lambda>m k v. (k, v) # m), hv_to_str = Inr, hv_from_str = Some,
     uri_parse = Inr, uri_path = drop 9\<rparr>"

definition loop_h3x ::
    "(unit, (string \<times> string) list, string, unit, unit, unit, unit, unit, unit) h3x_api" where
  "loop_h3x = \<lparr>hx_execute = (\<lambda>rq c. (Inr \<lparr>rs_status = 200, rs_headers = [(''ssh-version'', ''dshell-00'')]\<rparr>, c)),
     hx_establish = (\<lambda>r c. (Inr (), c)), hx_register = (\<lambda>r c. (Inr (), c)),
     hx_open_bi = (\<lambda>_. Inr (rd [] None, fresh_writer))\<rparr>"

lemma list_http_laws: "http_laws list_http"
  by (auto simp: http_laws_def list_http_def map_add_def split: option.splits)

theorem connect_handshake_witness:
  "\<exists>rq acc. client_connect_request list_http ''webtransport-h3'' ''h'' ''/p'' (Some ''Basic eA=='') = Inr rq
     \<and> accept_server_session list_http (\<lambda>rq k. (Inr (\<lparr>rs_status = 200, rs_headers = []\<rparr>, ()), k) :: (unit + _) \<times> unit)
         (\<lambda>cn k. (Inr (), k) :: (unit + unit) \<times> unit) rq ''/p'' () = (Inr (Some acc), ())
     \<and> aw_peer_version acc = ''dshell-00''"
  using connect_handshake [OF list_http_laws, where authority = "''h''" and path = "''/p''"
      and hv = DSHELL_VERSION and uri = "''https://h/p''" and authz = "Some ''Basic eA==''"
      and accept = "\<lambda>rq k. (Inr (\<lparr>rs_status = 200, rs_headers = []\<rparr>, ()), k) :: (unit + _) \<times> unit"
      and register = "\<lambda>cn k. (Inr (), k) :: (unit + unit) \<times> unit" and k = "()"
      and wt = "''webtransport-h3''" and X = loop_h3x]
  by (simp add: list_http_def) blast

text \<open>
  C35: no unvalidated peer. Whatever the server and the libraries do, a client conversation is only
  opened after a success response whose version header negotiates dshell-00, and its recorded
  peer version is that one.
\<close>

theorem no_unvalidated_conversation:
  assumes "open_client_conversation V H X wt authority path authz c = (Inr (shared, v), c')"
  shows "v = ''dshell-00'' \<and> (\<exists>rq resp c1. client_connect_request H wt authority path authz = Inr rq
     \<and> hx_execute X rq c = (Inr resp, c1) \<and> is_success (rs_status resp)
     \<and> negotiate_version H (rs_headers resp) = Inr \<lparr>version_string = v\<rparr>)"
proof -
  obtain rq resp c1 w where *: "client_connect_request H wt authority path authz = Inr rq"
      "hx_execute X rq c = (Inr resp, c1)" "is_success (rs_status resp)"
      "negotiate_version H (rs_headers resp) = Inr w" "v = version_string w"
    using assms
    by (auto simp: open_client_conversation_def io_Inr_iffs open_result_iff peer_version_def
        split: if_splits option.splits)
  moreover have "w = \<lparr>version_string = DSHELL_VERSION\<rparr>" using *(4) unfolding negotiate_version_iff by simp
  ultimately show ?thesis by (simp add: DSHELL_VERSION_def)
qed

theorem no_unvalidated_conversation_witness:
  "\<exists>shared. open_client_conversation quic_varint list_http loop_h3x ''webtransport-h3'' ''h'' ''/p'' None ()
       = (Inr (shared, ''dshell-00''), ())
     \<and> is_success 200"
proof -
  let ?o = "open_client_conversation quic_varint list_http loop_h3x ''webtransport-h3'' ''h'' ''/p'' None ()"
  have "is_ok (conversation_open quic_varint (Inr (rd [] None, fresh_writer) :: unit + _))"
    by code_simp
  then obtain shared where co:
      "conversation_open quic_varint (Inr (rd [] None, fresh_writer) :: unit + _) = Inr shared"
    by (auto simp: is_ok_iff)
  have rq: "\<exists>rq. client_connect_request list_http ''webtransport-h3'' ''h'' ''/p'' None = Inr rq"
    by (simp add: client_connect_request_def list_http_def)
  have neg: "negotiate_version list_http [(''ssh-version'', ''dshell-00'')] = Inr \<lparr>version_string = DSHELL_VERSION\<rparr>"
    by (rule version_header [OF list_http_laws, where hv = DSHELL_VERSION])
      (simp_all add: list_http_def DSHELL_VERSION_def)
  have o: "?o = (Inr (shared, DSHELL_VERSION), ())"
    using rq neg co
    by (auto simp: open_client_conversation_def bindS_def ctx_def liftE_def okS_def loop_h3x_def
        is_success_def peer_version_def)
  from no_unvalidated_conversation [OF o] o show ?thesis by (auto simp: is_success_def)
qed

end
