(* ===== verification/Process.thy ===== *)
theory Process
  imports Session_Messages Signals Handshake
begin

text \<open>
  Running a command for a session channel (\<open>src/session/process.rs\<close>): how the command is
  built, the child process and its termination, the relays between the child and the channel,
  and the exit notification. The operating system is a parameter: what \<open>try_wait\<close> and \<open>wait\<close>
  answer depends on the signals delivered so far and on the clock. What \<open>select!\<close> observes is
  an explicit sequence of events; an event whose branch is disabled changes nothing.
\<close>

datatype process_error =
    PE_Spawn io_error | PE_MissingPid | PE_DupFd nat | PE_AsyncPty io_error
  | PE_ReadStdout io_error | PE_ReadStderr io_error | PE_ReadPty io_error
  | PE_WriteData write_data_error | PE_WriteExtendedData write_extended_data_error
  | PE_SendExit "session_codec_error send_channel_notice_error"
  | PE_WriteEof write_channel_eof_error | PE_WriteClose write_channel_close_error
  | PE_Wait io_error | PE_Shutdown io_error

subsection \<open>The command\<close>

datatype command_mode = Exec string bytes | Shell string

definition cm_program :: "command_mode \<Rightarrow> string" where
  "cm_program m = (case m of Exec shell _ \<Rightarrow> shell | Shell shell \<Rightarrow> shell)"

definition cm_args :: "command_mode \<Rightarrow> string list" where
  "cm_args m = (case m of Exec _ command \<Rightarrow> [''-c'', text_of command] | Shell _ \<Rightarrow> [])"

definition argv0 :: "command_mode \<Rightarrow> string" where
  "argv0 m =
     (let basename = (case file_name (cm_program m) of Some n \<Rightarrow> n | None \<Rightarrow> cm_program m) in
      case m of Shell _ \<Rightarrow> CHR ''-'' # basename | Exec _ _ \<Rightarrow> basename)"

record user_info =
  ui_username :: string
  ui_uid :: nat
  ui_gid :: nat
  ui_home :: string
  ui_shell :: string
  ui_pam_env :: "(string \<times> string) list"

record session_config =
  sc_user :: user_info
  sc_max_message_size :: nat

definition session_config_default :: session_config where
  "session_config_default =
     \<lparr>sc_user = \<lparr>ui_username = ''nobody'', ui_uid = 65534, ui_gid = 65534, ui_home = ''/'',
        ui_shell = ''/bin/sh'', ui_pam_env = []\<rparr>,
      sc_max_message_size = DEFAULT_MAX_MESSAGE_SIZE\<rparr>"

text \<open>\<open>str::lines\<close>: a last line without content is no line, and a carriage return before the line
  feed is dropped.\<close>

definition strip_cr :: "string \<Rightarrow> string" where
  "strip_cr l = (if l \<noteq> [] \<and> last l = CR then butlast l else l)"

definition str_lines :: "string \<Rightarrow> string list" where
  "str_lines s =
     (let ls = split_on LF s in
      map strip_cr (butlast ls) @ (if last ls = [] then [] else [last ls]))"

definition strip_quotes :: "string \<Rightarrow> string" where
  "strip_quotes v =
     (if 2 \<le> length v \<and> (hd v = QUOTE \<and> last v = QUOTE \<or> hd v = CHR 0x27 \<and> last v = CHR 0x27)
      then butlast (tl v) else v)"

definition environment_line :: "string \<Rightarrow> (string \<times> string) option" where
  "environment_line raw =
     (let line = trim raw in
      if line = [] \<or> hd line = CHR ''#'' then None
      else case split_once (CHR ''='') line of
        None \<Rightarrow> None
      | Some (key, value) \<Rightarrow>
          if trim key \<noteq> [] then Some (trim key, strip_quotes (trim value)) else None)"

definition read_environment_file :: "string option \<Rightarrow> (string \<times> string) list" where
  "read_environment_file content = (case content of
       None \<Rightarrow> []
     | Some c \<Rightarrow> List.map_filter environment_line (str_lines c))"

definition build_env ::
    "string option \<Rightarrow> string option \<Rightarrow> string option \<Rightarrow> session_config \<Rightarrow> string option
     \<Rightarrow> (string \<times> string) list \<Rightarrow> (string \<times> string) list" where
  "build_env tz lang etc_environment config term client_env =
     (let user = sc_user config in
      [(''USER'', ui_username user), (''LOGNAME'', ui_username user), (''HOME'', ui_home user),
       (''SHELL'', ui_shell user),
       (''PATH'', if ui_uid user = 0
                 then ''/usr/local/sbin:/usr/local/bin:/usr/sbin:/usr/bin:/sbin:/bin''
                 else ''/usr/local/bin:/usr/bin:/bin''),
       (''MAIL'', ''/var/mail/'' @ ui_username user)]
      @ (case term of Some t \<Rightarrow> [(''TERM'', t)] | None \<Rightarrow> [])
      @ (case tz of Some t \<Rightarrow> [(''TZ'', t)] | None \<Rightarrow> [])
      @ (case lang of Some l \<Rightarrow> [(''LANG'', l)] | None \<Rightarrow> [])
      @ read_environment_file etc_environment
      @ ui_pam_env user
      @ client_env)"

record command =
  cmd_program :: string
  cmd_arg0 :: string
  cmd_args :: "string list"
  cmd_env :: "(string \<times> string) list"
  cmd_cwd :: string

definition session_command ::
    "bool \<Rightarrow> string option \<Rightarrow> string option \<Rightarrow> string option \<Rightarrow> command_mode \<Rightarrow> session_config
     \<Rightarrow> string option \<Rightarrow> (string \<times> string) list \<Rightarrow> command" where
  "session_command home_is_dir tz lang etc_environment mode config term client_env =
     \<lparr>cmd_program = cm_program mode, cmd_arg0 = argv0 mode, cmd_args = cm_args mode,
      cmd_env = build_env tz lang etc_environment config term client_env,
      cmd_cwd = (if home_is_dir then ui_home (sc_user config) else ''/'')\<rparr>"

subsection \<open>The child process\<close>

text \<open>\<open>std::process::ExitStatus\<close>: an exit code, a terminating signal, or neither.\<close>

datatype wait_status = Exited u8 | Signaled int bool | OtherStatus nat

record child_api =
  ca_try_wait :: "(nat \<times> signal) list \<Rightarrow> nat \<Rightarrow> io_error + wait_status option"
  ca_wait :: "(nat \<times> signal) list \<Rightarrow> nat \<Rightarrow> ((io_error + wait_status) \<times> nat) option"
  ca_late :: "nat \<Rightarrow> nat"

text \<open>
  \<open>sp_signals\<close> is the history of signals sent to the group with the time of each, in
  milliseconds; \<open>ca_late\<close> is how much later than asked a timer fires.
\<close>

record session_process =
  sp_group :: nat
  sp_reaped :: bool
  sp_clock :: nat
  sp_signals :: "(nat \<times> signal) list"

definition session_process_new :: "nat \<Rightarrow> nat option \<Rightarrow> process_error + session_process" where
  "session_process_new start child_id = (case child_id of
       None \<Rightarrow> Inl PE_MissingPid
     | Some pid \<Rightarrow> Inr \<lparr>sp_group = pid, sp_reaped = False, sp_clock = start, sp_signals = []\<rparr>)"

definition send_signal :: "signal \<Rightarrow> session_process \<Rightarrow> session_process" where
  "send_signal sg p = p\<lparr>sp_signals := sp_signals p @ [(sp_clock p, sg)]\<rparr>"

definition try_wait :: "child_api \<Rightarrow> (session_process, process_error, wait_status option) io" where
  "try_wait A = (\<lambda>p. case ca_try_wait A (sp_signals p) (sp_clock p) of
       Inl e \<Rightarrow> (Inl (PE_Wait e), p)
     | Inr None \<Rightarrow> (Inr None, p)
     | Inr (Some st) \<Rightarrow> (Inr (Some st), p\<lparr>sp_reaped := True\<rparr>))"

function wait_until :: "child_api \<Rightarrow> nat \<Rightarrow> (session_process, process_error, bool) io" where
  "wait_until A deadline p = (case try_wait A p of
       (Inl e, p') \<Rightarrow> (Inl e, p')
     | (Inr (Some st), p') \<Rightarrow> (Inr True, p')
     | (Inr None, _) \<Rightarrow>
         if deadline \<le> sp_clock p then (Inr False, p)
         else wait_until A deadline (p\<lparr>sp_clock := sp_clock p + 25 + ca_late A (sp_clock p)\<rparr>))"
  by pat_completeness auto
termination by (relation "measure (\<lambda>(_, deadline, p). deadline - sp_clock p)") auto

declare wait_until.simps [simp del]

definition wait_for :: "child_api \<Rightarrow> nat \<Rightarrow> (session_process, process_error, bool) io" where
  "wait_for A timeout = (\<lambda>p. wait_until A (sp_clock p + timeout) p)"

text \<open>\<open>None\<close> is a wait that never returns.\<close>

definition process_wait ::
    "child_api \<Rightarrow> session_process \<Rightarrow> (process_error + wait_status) option \<times> session_process" where
  "process_wait A p = (case ca_wait A (sp_signals p) (sp_clock p) of
       None \<Rightarrow> (None, p)
     | Some (Inl e, t) \<Rightarrow> (Some (Inl (PE_Wait e)), p\<lparr>sp_clock := t\<rparr>)
     | Some (Inr st, t) \<Rightarrow> (Some (Inr st), p\<lparr>sp_clock := t, sp_reaped := True\<rparr>))"

definition SIGNAL_GRACE :: nat where "SIGNAL_GRACE = 1000"

primrec try_signals :: "child_api \<Rightarrow> signal list \<Rightarrow> (session_process, process_error, bool) io" where
  "try_signals A [] p = (Inr False, p)"
| "try_signals A (sg # sgs) p = (case wait_for A SIGNAL_GRACE (send_signal sg p) of
       (Inl e, p') \<Rightarrow> (Inl e, p')
     | (Inr True, p') \<Rightarrow> (Inr True, p')
     | (Inr False, p') \<Rightarrow> try_signals A sgs p')"

definition terminate ::
    "child_api \<Rightarrow> session_process \<Rightarrow> (process_error + unit) option \<times> session_process" where
  "terminate A p =
     (if sp_reaped p then (Some (Inr ()), p)
      else case try_wait A p of
        (Inl e, p') \<Rightarrow> (Some (Inl e), p')
      | (Inr (Some st), p') \<Rightarrow> (Some (Inr ()), p')
      | (Inr None, p') \<Rightarrow>
          (case try_signals A [SIGHUP, SIGTERM] p' of
             (Inl e, q) \<Rightarrow> (Some (Inl e), q)
           | (Inr True, q) \<Rightarrow> (Some (Inr ()), q)
           | (Inr False, q) \<Rightarrow>
               (case process_wait A (send_signal SIGKILL q) of
                  (None, q') \<Rightarrow> (None, q')
                | (Some (Inl e), q') \<Rightarrow> (Some (Inl e), q')
                | (Some (Inr st), q') \<Rightarrow> (Some (Inr ()), q'))))"

definition process_drop :: "session_process \<Rightarrow> session_process" where
  "process_drop p = (if sp_reaped p then p else send_signal SIGKILL p)"

subsection \<open>Output relays\<close>

definition exit_notice :: "(signal \<Rightarrow> int) \<Rightarrow> wait_status \<Rightarrow> session_notice" where
  "exit_notice signum status = (case status of
       Signaled n core \<Rightarrow> ExitSignalChannelNotice
         \<lparr>exit_signal_name = ssh_string_from (case to_ssh_name signum n of
              Some name \<Rightarrow> name
            | None \<Rightarrow> ''signal-'' @ show_int n @ ''@dshell''),
          core_dumped = core, error_message = ssh_string_from [], language_tag = ssh_string_from []\<rparr>
     | Exited c \<Rightarrow> ExitStatusChannelNotice \<lparr>exit_status = unat c\<rparr>
     | OtherStatus _ \<Rightarrow> ExitStatusChannelNotice \<lparr>exit_status = 255\<rparr>)"

definition send_exit_notification ::
    "varint_api \<Rightarrow> (signal \<Rightarrow> int) \<Rightarrow> wait_status \<Rightarrow> (writer, process_error, unit) io" where
  "send_exit_notification V signum status =
     ctx PE_SendExit (send_session_notice V (exit_notice signum status))"

record output_relay =
  or_writer :: writer
  or_stdout_done :: bool
  or_stderr_done :: bool
  or_exit :: "wait_status option"
  or_input_stopped :: bool

definition on_out :: "(writer, 'e, 'a) io \<Rightarrow> (output_relay, 'e, 'a) io" where
  "on_out m = (\<lambda>s. case m (or_writer s) of (v, w) \<Rightarrow> (v, s\<lparr>or_writer := w\<rparr>))"

definition modify :: "('s \<Rightarrow> 's) \<Rightarrow> ('s, 'e, unit) io" where
  "modify f = (\<lambda>s. (Inr (), f s))"

datatype out_event =
    OutRead "io_error + bytes" | ErrRead "io_error + bytes" | ChildExit "io_error + wait_status"

definition on_child_exit ::
    "varint_api \<Rightarrow> (signal \<Rightarrow> int) \<Rightarrow> io_error + wait_status \<Rightarrow> (output_relay, process_error, unit) io" where
  "on_child_exit V signum r = (case r of
       Inl e \<Rightarrow> failS (PE_Wait e)
     | Inr status \<Rightarrow> seqS
         [modify (\<lambda>s. s\<lparr>or_input_stopped := True\<rparr>),
          on_out (send_exit_notification V signum status),
          modify (\<lambda>s. s\<lparr>or_exit := Some status\<rparr>)])"

definition piped_step ::
    "varint_api \<Rightarrow> (signal \<Rightarrow> int) \<Rightarrow> out_event \<Rightarrow> (output_relay, process_error, unit) io" where
  "piped_step V signum ev = (\<lambda>s. case ev of
       OutRead r \<Rightarrow>
         (if or_stdout_done s then (Inr (), s)
          else case r of
            Inl e \<Rightarrow> (Inl (PE_ReadStdout e), s)
          | Inr bs \<Rightarrow> if bs = [] then (Inr (), s\<lparr>or_stdout_done := True\<rparr>)
                      else on_out (ctx PE_WriteData (writer_data V bs)) s)
     | ErrRead r \<Rightarrow>
         (if or_stderr_done s then (Inr (), s)
          else case r of
            Inl e \<Rightarrow> (Inl (PE_ReadStderr e), s)
          | Inr bs \<Rightarrow> if bs = [] then (Inr (), s\<lparr>or_stderr_done := True\<rparr>)
                      else on_out (ctx PE_WriteExtendedData
                        (writer_extended_data V SSH_EXTENDED_DATA_STDERR bs)) s)
     | ChildExit r \<Rightarrow>
         (if or_exit s \<noteq> None then (Inr (), s) else on_child_exit V signum r s))"

definition relay_finished :: "output_relay \<Rightarrow> bool" where
  "relay_finished s \<longleftrightarrow> or_stdout_done s \<and> or_stderr_done s \<and> or_exit s \<noteq> None"

text \<open>
  The loop and the final wait: with both pipes closed only the child's exit is still enabled.
  \<open>None\<close> means that the relay is still waiting when the sequence of events ends.
\<close>

fun relay_output_piped ::
    "varint_api \<Rightarrow> (signal \<Rightarrow> int) \<Rightarrow> out_event list \<Rightarrow> output_relay
     \<Rightarrow> (process_error + unit) option \<times> output_relay" where
  "relay_output_piped V signum [] s =
     (if relay_finished s then (Some (Inr ()), s) else (None, s))"
| "relay_output_piped V signum (ev # evs) s =
     (if relay_finished s then (Some (Inr ()), s)
      else case piped_step V signum ev s of
        (Inl e, s') \<Rightarrow> (Some (Inl e), s')
      | (Inr _, s') \<Rightarrow> relay_output_piped V signum evs s')"

text \<open>
  With a terminal there is one source; \<open>PtyEio\<close> is the error a closed slave gives. The closed
  master is recorded as both pipes closed.
\<close>

datatype pty_event = PtyRead "io_error + bytes" | PtyEio | PtyChildExit "io_error + wait_status"

definition master_closed :: "output_relay \<Rightarrow> output_relay" where
  "master_closed s = s\<lparr>or_stdout_done := True, or_stderr_done := True\<rparr>"

definition pty_step ::
    "varint_api \<Rightarrow> (signal \<Rightarrow> int) \<Rightarrow> pty_event \<Rightarrow> (output_relay, process_error, unit) io" where
  "pty_step V signum ev = (\<lambda>s. case ev of
       PtyEio \<Rightarrow> if or_stdout_done s then (Inr (), s) else (Inr (), master_closed s)
     | PtyRead r \<Rightarrow>
         (if or_stdout_done s then (Inr (), s)
          else case r of
            Inl e \<Rightarrow> (Inl (PE_ReadPty e), s)
          | Inr bs \<Rightarrow> if bs = [] then (Inr (), master_closed s)
                      else on_out (ctx PE_WriteData (writer_data V bs)) s)
     | PtyChildExit r \<Rightarrow>
         (if or_exit s \<noteq> None then (Inr (), s) else on_child_exit V signum r s))"

fun relay_output_pty ::
    "varint_api \<Rightarrow> (signal \<Rightarrow> int) \<Rightarrow> pty_event list \<Rightarrow> output_relay
     \<Rightarrow> (process_error + unit) option \<times> output_relay" where
  "relay_output_pty V signum [] s =
     (if relay_finished s then (Some (Inr ()), s) else (None, s))"
| "relay_output_pty V signum (ev # evs) s =
     (if relay_finished s then (Some (Inr ()), s)
      else case pty_step V signum ev s of
        (Inl e, s') \<Rightarrow> (Some (Inl e), s')
      | (Inr _, s') \<Rightarrow> relay_output_pty V signum evs s')"

definition close_output :: "varint_api \<Rightarrow> (writer, process_error, unit) io" where
  "close_output V = seqS
     [ctx PE_WriteEof (writer_eof V), ctx PE_WriteClose (writer_close V), ctx PE_Shutdown shutdown]"

definition relay_then_close ::
    "varint_api \<Rightarrow> (process_error + unit) option \<times> output_relay
     \<Rightarrow> (process_error + unit) option \<times> output_relay" where
  "relay_then_close V r = (case r of
       (Some (Inr _), s) \<Rightarrow> (case on_out (close_output V) s of (v, s') \<Rightarrow> (Some v, s'))
     | other \<Rightarrow> other)"

definition relay_start :: "writer \<Rightarrow> output_relay" where
  "relay_start w = \<lparr>or_writer = w, or_stdout_done = False, or_stderr_done = False,
     or_exit = None, or_input_stopped = False\<rparr>"

text \<open>
  The end of \<open>run_piped\<close> and \<open>run_pty\<close>: \<open>output\<close> is what the output side returned, \<open>None\<close> when
  \<open>select!\<close> saw the shutdown first. The child counts as reaped once its exit was observed.
\<close>

definition observe_exit :: "output_relay \<Rightarrow> session_process \<Rightarrow> session_process" where
  "observe_exit s p = (if or_exit s \<noteq> None \<or> or_input_stopped s then p\<lparr>sp_reaped := True\<rparr> else p)"

definition end_session ::
    "child_api \<Rightarrow> (process_error + unit) option \<Rightarrow> session_process
     \<Rightarrow> (process_error + unit) option \<times> session_process" where
  "end_session A output p = (case output of
       Some (Inr _) \<Rightarrow> (Some (Inr ()), p)
     | Some (Inl error) \<Rightarrow>
         (case terminate A p of
            (None, q) \<Rightarrow> (None, q)
          | (Some _, q) \<Rightarrow> (Some (Inl error), q))
     | None \<Rightarrow> terminate A p)"

text \<open>
  Before the process is cleaned up, the input relay is told to stop and awaited. It looks at the
  stop signal only between two events, so it ends only if the event it is working on ends:
  \<open>input_ends\<close>. Otherwise the call waits for ever.
\<close>

definition finish_session ::
    "child_api \<Rightarrow> bool \<Rightarrow> (process_error + unit) option \<Rightarrow> output_relay \<Rightarrow> session_process
     \<Rightarrow> (process_error + unit) option \<times> (output_relay \<times> session_process) option" where
  "finish_session A input_ends output s p =
     (if \<not> input_ends then (None, Some (s\<lparr>or_input_stopped := True\<rparr>, p))
      else case end_session A output p of (r, q) \<Rightarrow> (r, Some (s\<lparr>or_input_stopped := True\<rparr>, q)))"

definition run_piped ::
    "varint_api \<Rightarrow> (signal \<Rightarrow> int) \<Rightarrow> child_api \<Rightarrow> (command \<Rightarrow> io_error + nat option) \<Rightarrow> nat
     \<Rightarrow> command \<Rightarrow> writer \<Rightarrow> out_event list \<Rightarrow> bool \<Rightarrow> bool
     \<Rightarrow> (process_error + unit) option \<times> (output_relay \<times> session_process) option" where
  "run_piped V signum A spawn start cmd w events shutdown_requested input_ends =
     (case spawn cmd of
        Inl e \<Rightarrow> (Some (Inl (PE_Spawn e)), None)
      | Inr child_id \<Rightarrow>
          (case session_process_new start child_id of
             Inl e \<Rightarrow> (Some (Inl e), None)
           | Inr p \<Rightarrow>
               (case relay_then_close V (relay_output_piped V signum events (relay_start w)) of
                  (output, s) \<Rightarrow>
                    if output = None \<and> \<not> shutdown_requested then (None, Some (s, observe_exit s p))
                    else finish_session A input_ends output s (observe_exit s p))))"

text \<open>
  \<open>run_pty\<close> first duplicates the slave twice and, once the child runs, the master, and wraps
  both ends; an error after the spawn drops the process, which kills its group.
\<close>

record pty_setup =
  ps_dup_stdout :: "nat + unit"
  ps_dup_stderr :: "nat + unit"
  ps_dup_master :: "nat + unit"
  ps_async_reader :: "io_error + unit"
  ps_async_writer :: "io_error + unit"

definition pty_endpoints :: "pty_setup \<Rightarrow> process_error + unit" where
  "pty_endpoints P = (case ps_dup_master P of
       Inl e \<Rightarrow> Inl (PE_DupFd e)
     | Inr _ \<Rightarrow> (case ps_async_reader P of
          Inl e \<Rightarrow> Inl (PE_AsyncPty e)
        | Inr _ \<Rightarrow> (case ps_async_writer P of
             Inl e \<Rightarrow> Inl (PE_AsyncPty e)
           | Inr _ \<Rightarrow> Inr ())))"

definition run_pty ::
    "varint_api \<Rightarrow> (signal \<Rightarrow> int) \<Rightarrow> child_api \<Rightarrow> pty_setup \<Rightarrow> (command \<Rightarrow> io_error + nat option) \<Rightarrow> nat
     \<Rightarrow> command \<Rightarrow> writer \<Rightarrow> pty_event list \<Rightarrow> bool \<Rightarrow> bool
     \<Rightarrow> (process_error + unit) option \<times> (output_relay \<times> session_process) option" where
  "run_pty V signum A P spawn start cmd w events shutdown_requested input_ends =
     (case ps_dup_stdout P of
        Inl e \<Rightarrow> (Some (Inl (PE_DupFd e)), None)
      | Inr _ \<Rightarrow> (case ps_dup_stderr P of
        Inl e \<Rightarrow> (Some (Inl (PE_DupFd e)), None)
      | Inr _ \<Rightarrow> (case spawn cmd of
        Inl e \<Rightarrow> (Some (Inl (PE_Spawn e)), None)
      | Inr child_id \<Rightarrow>
          (case session_process_new start child_id of
             Inl e \<Rightarrow> (Some (Inl e), None)
           | Inr p \<Rightarrow>
               (case pty_endpoints P of
                  Inl e \<Rightarrow> (Some (Inl e), Some (relay_start w, process_drop p))
                | Inr _ \<Rightarrow>
                    (case relay_then_close V (relay_output_pty V signum events (relay_start w)) of
                       (output, s) \<Rightarrow>
                         if output = None \<and> \<not> shutdown_requested then (None, Some (s, observe_exit s p))
                         else finish_session A input_ends output s (observe_exit s p)))))))"

subsection \<open>Input relays\<close>

record input_relay =
  in_reader :: reader
  in_sink :: writer
  in_signals :: "signal list"
  in_resizes :: "window_change_request list"

definition on_in :: "(reader, 'e, 'a) io \<Rightarrow> (input_relay, 'e, 'a) io" where
  "on_in m = (\<lambda>s. case m (in_reader s) of (v, r) \<Rightarrow> (v, s\<lparr>in_reader := r\<rparr>))"

definition deliver_to_pid :: "ssh_string \<Rightarrow> input_relay \<Rightarrow> input_relay" where
  "deliver_to_pid name s = (case from_ssh_name (text_of name) of
       None \<Rightarrow> s
     | Some sg \<Rightarrow> s\<lparr>in_signals := in_signals s @ [sg]\<rparr>)"

definition handle_piped_notice :: "varint_api \<Rightarrow> ssh_string \<Rightarrow> input_relay \<Rightarrow> bool \<times> input_relay" where
  "handle_piped_notice V request_type s =
     (if request_type = lit ''signal'' then
        (case on_in (dec_signal V) s of
           (Inl _, s') \<Rightarrow> (False, s')
         | (Inr req, s') \<Rightarrow> (True, deliver_to_pid (signal_name req) s'))
      else (False, s))"

text \<open>\<open>in_resizes\<close> records the window sizes handed to \<open>set_window_size_raw\<close>, whose failure is only
  logged.\<close>

definition handle_pty_notice :: "varint_api \<Rightarrow> ssh_string \<Rightarrow> input_relay \<Rightarrow> bool \<times> input_relay" where
  "handle_pty_notice V request_type s =
     (if request_type = lit ''signal'' then
        (case on_in (dec_signal V) s of
           (Inl _, s') \<Rightarrow> (False, s')
         | (Inr req, s') \<Rightarrow> (True, deliver_to_pid (signal_name req) s'))
      else if request_type = lit ''window-change'' then
        (case on_in (dec_window_change V) s of
           (Inl _, s') \<Rightarrow> (False, s')
         | (Inr req, s') \<Rightarrow> (True, s'\<lparr>in_resizes := in_resizes s' @ [req]\<rparr>))
      else (False, s))"

definition copy_to_sink :: "nat \<Rightarrow> nat \<Rightarrow> input_relay \<Rightarrow> bool \<times> input_relay" where
  "copy_to_sink lag n s = (case copy_limited lag n (in_reader s, in_sink s) of
       (v, (r, w)) \<Rightarrow> (is_ok v, s\<lparr>in_reader := r, in_sink := w\<rparr>))"

definition input_step ::
    "(varint_api \<Rightarrow> ssh_string \<Rightarrow> input_relay \<Rightarrow> bool \<times> input_relay) \<Rightarrow> varint_api \<Rightarrow> nat
     \<Rightarrow> input_relay \<Rightarrow> bool \<times> input_relay" where
  "input_step handle_notice V lag s = (case on_in (reader_next_event V) s of
       (Inl _, s') \<Rightarrow> (False, s')
     | (Inr (RE_Data n), s') \<Rightarrow> copy_to_sink lag n s'
     | (Inr (RE_Notice rt), s') \<Rightarrow> handle_notice V rt s'
     | (Inr RE_Eof, s') \<Rightarrow> (False, s')
     | (Inr RE_Close, s') \<Rightarrow> (False, s')
     | (Inr _, s') \<Rightarrow> (True, s'))"

text \<open>
  The loop looks at the stop signal before every event: \<open>stop\<close> is how many events are handled
  before the signal is there.
\<close>

primrec relay_input ::
    "(varint_api \<Rightarrow> ssh_string \<Rightarrow> input_relay \<Rightarrow> bool \<times> input_relay) \<Rightarrow> varint_api \<Rightarrow> nat \<Rightarrow> nat
     \<Rightarrow> input_relay \<Rightarrow> input_relay" where
  "relay_input handle_notice V lag 0 s = s"
| "relay_input handle_notice V lag (Suc stop) s = (case input_step handle_notice V lag s of
       (True, s') \<Rightarrow> relay_input handle_notice V lag stop s'
     | (False, s') \<Rightarrow> s')"

definition relay_input_piped :: "varint_api \<Rightarrow> nat \<Rightarrow> nat \<Rightarrow> input_relay \<Rightarrow> input_relay" where
  "relay_input_piped = relay_input handle_piped_notice"

definition relay_input_pty :: "varint_api \<Rightarrow> nat \<Rightarrow> nat \<Rightarrow> input_relay \<Rightarrow> input_relay" where
  "relay_input_pty = relay_input handle_pty_notice"

end
