(* ===== verification/Session_Client.thy ===== *)
theory Session_Client
  imports Process
begin

text \<open>
  The client's side of a session channel (\<open>src/session/client.rs\<close>): setup requests, the relay of
  standard input with terminal resizes, and the relay of channel events to standard output and
  standard error, which ends with the exit result.
\<close>

datatype setup_error =
    SU_SendExec "(session_codec_error, unit) send_channel_request_error"
  | SU_SendShell "(session_codec_error, unit) send_channel_request_error"
  | SU_SendPty "(session_codec_error, unit) send_channel_request_error"

datatype run_error =
    RU_ReadEvent read_channel_event_error
  | RU_DecodeExitStatus session_codec_error
  | RU_DecodeExitSignal session_codec_error
  | RU_WriteStdout io_error
  | RU_WriteStderr io_error

datatype exit_result = ExitStatus "32 word" | ExitSignal ssh_string bool

definition request_pty :: "varint_api \<Rightarrow> pty_request \<Rightarrow> (ssh_channel, setup_error, unit) io" where
  "request_pty V request = ctx SU_SendPty (send_session_request V (PtyChannelRequest request))"

definition client_exec :: "varint_api \<Rightarrow> bytes \<Rightarrow> (ssh_channel, setup_error, unit) io" where
  "client_exec V command =
     ctx SU_SendExec (send_session_request V (ExecChannelRequest \<lparr>exec_command = command\<rparr>))"

definition client_shell :: "varint_api \<Rightarrow> (ssh_channel, setup_error, unit) io" where
  "client_shell V = ctx SU_SendShell (send_session_request V ShellChannelRequest)"

subsection \<open>Standard input\<close>

text \<open>
  What the biased \<open>select!\<close> observes: the done signal, a read of standard input, a terminal size
  or the end of the size stream.
\<close>

datatype stdin_event =
    Done | StdinRead "io_error + bytes" | Resize "(16 word \<times> 16 word) option"

definition close_input :: "varint_api \<Rightarrow> writer \<Rightarrow> writer" where
  "close_input V w = snd (shutdown (snd (writer_close V (snd (writer_eof V w)))))"

text \<open>\<open>(True, w)\<close>: the relay ended with the writer \<open>w\<close>; \<open>(False, w)\<close>: it is still waiting.\<close>

fun relay_stdin :: "varint_api \<Rightarrow> stdin_event list \<Rightarrow> writer \<Rightarrow> bool \<times> writer" where
  "relay_stdin V [] w = (False, w)"
| "relay_stdin V (Done # evs) w = (True, close_input V w)"
| "relay_stdin V (Resize r # evs) w = relay_stdin V evs w"
| "relay_stdin V (StdinRead r # evs) w = (case r of
       Inl _ \<Rightarrow> (True, close_input V w)
     | Inr bs \<Rightarrow>
         if bs = [] then (True, close_input V w)
         else (case writer_data V bs w of
            (Inl _, w') \<Rightarrow> (True, close_input V w')
          | (Inr _, w') \<Rightarrow> relay_stdin V evs w'))"

definition resize_notice :: "16 word \<Rightarrow> 16 word \<Rightarrow> session_notice" where
  "resize_notice cols rows = WindowChangeChannelNotice
     \<lparr>width_cols = unat cols, height_rows = unat rows, width_px = 0, height_px = 0\<rparr>"

fun relay_stdin_interactive :: "varint_api \<Rightarrow> stdin_event list \<Rightarrow> writer \<Rightarrow> bool \<times> writer" where
  "relay_stdin_interactive V [] w = (False, w)"
| "relay_stdin_interactive V (Done # evs) w = (True, close_input V w)"
| "relay_stdin_interactive V (Resize r # evs) w = (case r of
       None \<Rightarrow> relay_stdin_interactive V evs w
     | Some (cols, rows) \<Rightarrow>
         relay_stdin_interactive V evs (snd (send_session_notice V (resize_notice cols rows) w)))"
| "relay_stdin_interactive V (StdinRead r # evs) w = (case r of
       Inl _ \<Rightarrow> (True, close_input V w)
     | Inr bs \<Rightarrow>
         if bs = [] then (True, close_input V w)
         else (case writer_data V bs w of
            (Inl _, w') \<Rightarrow> (True, close_input V w')
          | (Inr _, w') \<Rightarrow> relay_stdin_interactive V evs w'))"

subsection \<open>Output\<close>

record client_io =
  ci_reader :: reader
  ci_stdout :: writer
  ci_stderr :: writer

definition on_ci :: "(reader, 'e, 'a) io \<Rightarrow> (client_io, 'e, 'a) io" where
  "on_ci m = (\<lambda>s. case m (ci_reader s) of (v, r) \<Rightarrow> (v, s\<lparr>ci_reader := r\<rparr>))"

definition copy_stdout :: "nat \<Rightarrow> nat \<Rightarrow> (client_io, io_error, unit) io" where
  "copy_stdout lag n = (\<lambda>s.
     case bindS (copy_limited lag n) (\<lambda>_. on_dest flush) (ci_reader s, ci_stdout s) of
       (v, (r, w)) \<Rightarrow> (v, s\<lparr>ci_reader := r, ci_stdout := w\<rparr>))"

definition copy_stderr :: "nat \<Rightarrow> nat \<Rightarrow> (client_io, io_error, unit) io" where
  "copy_stderr lag n = (\<lambda>s.
     case bindS (copy_limited lag n) (\<lambda>_. on_dest flush) (ci_reader s, ci_stderr s) of
       (v, (r, w)) \<Rightarrow> (v, s\<lparr>ci_reader := r, ci_stderr := w\<rparr>))"

text \<open>
  One iteration of the loop: \<open>Inl\<close> ends it with the relay's result, \<open>Inr\<close> continues with the
  exit result seen so far.
\<close>

definition output_event ::
    "varint_api \<Rightarrow> nat \<Rightarrow> exit_result option \<Rightarrow> reader_event
     \<Rightarrow> (client_io, run_error + exit_result option, exit_result option) io" where
  "output_event V lag exit ev = (case ev of
       RE_Data n \<Rightarrow> bindS (ctx (Inl \<circ> RU_WriteStdout) (copy_stdout lag n)) (\<lambda>_. okS exit)
     | RE_ExtendedData t n \<Rightarrow> bindS (ctx (Inl \<circ> RU_WriteStderr) (copy_stderr lag n)) (\<lambda>_. okS exit)
     | RE_Notice rt \<Rightarrow>
         if rt = lit ''exit-status'' then
           bindS (ctx (Inl \<circ> RU_DecodeExitStatus) (on_ci (dec_exit_status V))) (\<lambda>req.
             okS (Some (ExitStatus (word_of_nat (exit_status req)))))
         else if rt = lit ''exit-signal'' then
           bindS (ctx (Inl \<circ> RU_DecodeExitSignal) (on_ci (dec_exit_signal V))) (\<lambda>req.
             okS (Some (ExitSignal (exit_signal_name req) (core_dumped req))))
         else failS (Inr exit)
     | RE_Close \<Rightarrow> failS (Inr exit)
     | RE_Eof \<Rightarrow> okS exit
     | RE_Success \<Rightarrow> okS exit
     | RE_Failure \<Rightarrow> okS exit)"

definition output_step ::
    "varint_api \<Rightarrow> nat \<Rightarrow> exit_result option
     \<Rightarrow> (client_io, run_error + exit_result option, exit_result option) io" where
  "output_step V lag exit = (\<lambda>s. case on_ci (reader_next_event V) s of
       (Inl e, s') \<Rightarrow>
         (if e = RCE_DecodeMessageType UnexpectedEof then (Inl (Inr exit), s')
          else if exit \<noteq> None then (Inl (Inr exit), s')
          else (Inl (Inl (RU_ReadEvent e)), s'))
     | (Inr ev, s') \<Rightarrow> output_event V lag exit ev s')"

text \<open>The loop with fuel: \<open>None\<close> is a relay that has not ended after \<open>fuel\<close> events.\<close>

fun relay_output ::
    "varint_api \<Rightarrow> nat \<Rightarrow> nat \<Rightarrow> exit_result option \<Rightarrow> client_io
     \<Rightarrow> (run_error + exit_result option) option \<times> client_io" where
  "relay_output V lag 0 exit s = (None, s)"
| "relay_output V lag (Suc fuel) exit s = (case output_step V lag exit s of
       (Inl result, s') \<Rightarrow> (Some result, s')
     | (Inr exit', s') \<Rightarrow> relay_output V lag fuel exit' s')"

text \<open>
  \<open>run\<close> and \<open>run_interactive\<close>: the two relays work on the two halves of the channel, and the
  call returns with the output relay; \<open>stdin_events\<close> is what the input relay observed until then.
\<close>

definition client_run ::
    "varint_api \<Rightarrow> nat \<Rightarrow> nat \<Rightarrow> stdin_event list \<Rightarrow> writer \<Rightarrow> writer \<Rightarrow> ssh_channel
     \<Rightarrow> (run_error + exit_result option) option \<times> client_io \<times> writer" where
  "client_run V lag fuel stdin_events stdout stderr c =
     (case relay_output V lag fuel None \<lparr>ci_reader = ch_reader c, ci_stdout = stdout, ci_stderr = stderr\<rparr> of
        (result, s) \<Rightarrow> (result, s, snd (relay_stdin V stdin_events (ch_writer c))))"

definition client_run_interactive ::
    "varint_api \<Rightarrow> nat \<Rightarrow> nat \<Rightarrow> stdin_event list \<Rightarrow> writer \<Rightarrow> writer \<Rightarrow> ssh_channel
     \<Rightarrow> (run_error + exit_result option) option \<times> client_io \<times> writer" where
  "client_run_interactive V lag fuel stdin_events stdout stderr c =
     (case relay_output V lag fuel None \<lparr>ci_reader = ch_reader c, ci_stdout = stdout, ci_stderr = stderr\<rparr> of
        (result, s) \<Rightarrow> (result, s, snd (relay_stdin_interactive V stdin_events (ch_writer c))))"

end
