(* ===== verification/Pty.thy ===== *)
theory Pty
  imports Session_Messages Text_Util
begin

text \<open>
  Pseudo terminals (\<open>src/session/pty.rs\<close>): checked conversion of terminal sizes, allocation and
  resizing, and the encoded terminal modes of RFC 4254. The system calls and the bits and
  indices the C library gives to flags and control characters are parameters.
\<close>

unbundle bit_operations_syntax

subsection \<open>Sizes\<close>

record dimension_overflow =
  do_field :: string
  do_value :: "32 word"

datatype pty_error = PTY_Dimension dimension_overflow | PTY_Os nat

definition try_u16 :: "nat \<Rightarrow> string \<Rightarrow> dimension_overflow + 16 word" where
  "try_u16 value field =
     (if value < 65536 then Inr (word_of_nat value) else Inl \<lparr>do_field = field, do_value = word_of_nat value\<rparr>)"

record winsize =
  ws_row :: "16 word"
  ws_col :: "16 word"
  ws_xpixel :: "16 word"
  ws_ypixel :: "16 word"

definition winsize_of :: "nat \<Rightarrow> nat \<Rightarrow> nat \<Rightarrow> nat \<Rightarrow> dimension_overflow + winsize" where
  "winsize_of cols rows xpixel ypixel = (case try_u16 cols ''width_cols'' of
       Inl e \<Rightarrow> Inl e
     | Inr c \<Rightarrow> (case try_u16 rows ''height_rows'' of
       Inl e \<Rightarrow> Inl e
     | Inr r \<Rightarrow> (case try_u16 xpixel ''width_px'' of
       Inl e \<Rightarrow> Inl e
     | Inr x \<Rightarrow> (case try_u16 ypixel ''height_px'' of
       Inl e \<Rightarrow> Inl e
     | Inr y \<Rightarrow> Inr \<lparr>ws_row = r, ws_col = c, ws_xpixel = x, ws_ypixel = y\<rparr>))))"

definition winsize_from_pty :: "pty_request \<Rightarrow> dimension_overflow + winsize" where
  "winsize_from_pty r = winsize_of (pty_width_cols r) (pty_height_rows r) (pty_width_px r) (pty_height_px r)"

definition winsize_from_resize :: "window_change_request \<Rightarrow> dimension_overflow + winsize" where
  "winsize_from_resize r = winsize_of (width_cols r) (height_rows r) (width_px r) (height_px r)"

definition allocate_pty :: "(winsize \<Rightarrow> nat + 'pty) \<Rightarrow> pty_request \<Rightarrow> pty_error + 'pty" where
  "allocate_pty openpty request = (case winsize_from_pty request of
       Inl e \<Rightarrow> Inl (PTY_Dimension e)
     | Inr ws \<Rightarrow> (case openpty ws of Inl e \<Rightarrow> Inl (PTY_Os e) | Inr pair \<Rightarrow> Inr pair))"

definition set_window_size_raw :: "(winsize \<Rightarrow> nat + unit) \<Rightarrow> window_change_request \<Rightarrow> pty_error + unit" where
  "set_window_size_raw tiocswinsz request = (case winsize_from_resize request of
       Inl e \<Rightarrow> Inl (PTY_Dimension e)
     | Inr ws \<Rightarrow> (case tiocswinsz ws of Inl e \<Rightarrow> Inl (PTY_Os e) | Inr _ \<Rightarrow> Inr ()))"

subsection \<open>Terminal modes\<close>

definition TTY_OP_END :: u8 where "TTY_OP_END = 0"
definition TTY_OP_ISPEED :: u8 where "TTY_OP_ISPEED = 128"
definition TTY_OP_OSPEED :: u8 where "TTY_OP_OSPEED = 129"

datatype baud_rate =
    B0 | B50 | B75 | B110 | B134 | B150 | B200 | B300 | B600 | B1200 | B1800 | B2400 | B4800
  | B9600 | B19200 | B38400 | B57600 | B115200 | B230400

datatype control_char =
    VINTR | VQUIT | VERASE | VKILL | VEOF | VEOL | VEOL2 | VSTART | VSTOP | VSUSP | VREPRINT | VWERASE
  | VLNEXT | VDISCARD

datatype input_flag =
    IGNPAR | PARMRK | INPCK | ISTRIP | INLCR | IGNCR | ICRNL | IUCLC | IXON | IXANY | IXOFF | IMAXBEL | IUTF8

datatype local_flag =
    ISIG | ICANON | ECHO | ECHOE | ECHOK | ECHONL | NOFLSH | TOSTOP | IEXTEN | ECHOCTL | ECHOKE | PENDIN

datatype output_flag = OPOST | OLCUC | ONLCR | OCRNL | ONOCR | ONLRET

datatype control_flag = CS7 | CS8 | PARENB | PARODD

definition baud_to_speed :: "32 word \<Rightarrow> baud_rate option" where
  "baud_to_speed baud = map_of
     [(0, B0), (50, B50), (75, B75), (110, B110), (134, B134), (150, B150), (200, B200), (300, B300),
      (600, B600), (1200, B1200), (1800, B1800), (2400, B2400), (4800, B4800), (9600, B9600),
      (19200, B19200), (38400, B38400), (57600, B57600), (115200, B115200), (230400, B230400)] baud"

definition cc_index :: "u8 \<Rightarrow> control_char option" where
  "cc_index opcode = map_of
     [(1, VINTR), (2, VQUIT), (3, VERASE), (4, VKILL), (5, VEOF), (6, VEOL), (7, VEOL2), (8, VSTART),
      (9, VSTOP), (10, VSUSP), (12, VREPRINT), (13, VWERASE), (14, VLNEXT), (18, VDISCARD)] opcode"

definition iflag_bit :: "u8 \<Rightarrow> input_flag option" where
  "iflag_bit opcode = map_of
     [(30, IGNPAR), (31, PARMRK), (32, INPCK), (33, ISTRIP), (34, INLCR), (35, IGNCR), (36, ICRNL),
      (37, IUCLC), (38, IXON), (39, IXANY), (40, IXOFF), (41, IMAXBEL), (42, IUTF8)] opcode"

definition lflag_bit :: "u8 \<Rightarrow> local_flag option" where
  "lflag_bit opcode = map_of
     [(50, ISIG), (51, ICANON), (53, ECHO), (54, ECHOE), (55, ECHOK), (56, ECHONL), (57, NOFLSH),
      (58, TOSTOP), (59, IEXTEN), (60, ECHOCTL), (61, ECHOKE), (62, PENDIN)] opcode"

definition oflag_bit :: "u8 \<Rightarrow> output_flag option" where
  "oflag_bit opcode = map_of
     [(70, OPOST), (71, OLCUC), (72, ONLCR), (73, OCRNL), (74, ONOCR), (75, ONLRET)] opcode"

definition cflag_bit :: "u8 \<Rightarrow> control_flag option" where
  "cflag_bit opcode = map_of [(90, CS7), (91, CS8), (92, PARENB), (93, PARODD)] opcode"

record termios_api =
  ta_cc :: "control_char \<Rightarrow> nat"
  ta_iflag :: "input_flag \<Rightarrow> 32 word"
  ta_lflag :: "local_flag \<Rightarrow> 32 word"
  ta_oflag :: "output_flag \<Rightarrow> 32 word"
  ta_cflag :: "control_flag \<Rightarrow> 32 word"

record termios =
  t_ispeed :: "baud_rate option"
  t_ospeed :: "baud_rate option"
  t_cc :: "u8 list"
  t_iflag :: "32 word"
  t_lflag :: "32 word"
  t_oflag :: "32 word"
  t_cflag :: "32 word"

definition set_flag :: "32 word \<Rightarrow> 32 word \<Rightarrow> 32 word \<Rightarrow> 32 word" where
  "set_flag value flag flags = (if value \<noteq> 0 then flags OR flag else flags AND NOT flag)"

text \<open>One entry: a known opcode changes one setting, any other leaves the settings alone.\<close>

definition apply_mode :: "termios_api \<Rightarrow> u8 \<Rightarrow> 32 word \<Rightarrow> termios \<Rightarrow> termios" where
  "apply_mode T opcode value tio =
     (if opcode = TTY_OP_ISPEED then
        (case baud_to_speed value of Some sp \<Rightarrow> tio\<lparr>t_ispeed := Some sp\<rparr> | None \<Rightarrow> tio)
      else if opcode = TTY_OP_OSPEED then
        (case baud_to_speed value of Some sp \<Rightarrow> tio\<lparr>t_ospeed := Some sp\<rparr> | None \<Rightarrow> tio)
      else if 1 \<le> opcode \<and> opcode \<le> 18 then
        (case cc_index opcode of
           Some idx \<Rightarrow> tio\<lparr>t_cc := (t_cc tio)[ta_cc T idx := if value = 255 then 0 else ucast value]\<rparr>
         | None \<Rightarrow> tio)
      else if 30 \<le> opcode \<and> opcode \<le> 42 then
        (case iflag_bit opcode of Some f \<Rightarrow> tio\<lparr>t_iflag := set_flag value (ta_iflag T f) (t_iflag tio)\<rparr> | None \<Rightarrow> tio)
      else if 50 \<le> opcode \<and> opcode \<le> 62 then
        (case lflag_bit opcode of Some f \<Rightarrow> tio\<lparr>t_lflag := set_flag value (ta_lflag T f) (t_lflag tio)\<rparr> | None \<Rightarrow> tio)
      else if 70 \<le> opcode \<and> opcode \<le> 75 then
        (case oflag_bit opcode of Some f \<Rightarrow> tio\<lparr>t_oflag := set_flag value (ta_oflag T f) (t_oflag tio)\<rparr> | None \<Rightarrow> tio)
      else if 90 \<le> opcode \<and> opcode \<le> 93 then
        (case cflag_bit opcode of Some f \<Rightarrow> tio\<lparr>t_cflag := set_flag value (ta_cflag T f) (t_cflag tio)\<rparr> | None \<Rightarrow> tio)
      else tio)"

definition be32 :: "32 word \<Rightarrow> bytes" where
  "be32 v = [ucast (drop_bit 24 v), ucast (drop_bit 16 v), ucast (drop_bit 8 v), ucast v]"

definition from_be32 :: "u8 \<Rightarrow> u8 \<Rightarrow> u8 \<Rightarrow> u8 \<Rightarrow> 32 word" where
  "from_be32 a b c d = push_bit 24 (ucast a) OR push_bit 16 (ucast b) OR push_bit 8 (ucast c) OR ucast d"

text \<open>The loop over the encoded entries.\<close>

fun modes_loop :: "termios_api \<Rightarrow> bytes \<Rightarrow> termios \<Rightarrow> termios" where
  "modes_loop T [] tio = tio"
| "modes_loop T (opcode # rest) tio =
     (if opcode = TTY_OP_END then tio
      else if 160 \<le> opcode then tio
      else case rest of
        a # b # c # d # rest' \<Rightarrow> modes_loop T rest' (apply_mode T opcode (from_be32 a b c d) tio)
      | _ \<Rightarrow> tio)"

text \<open>\<open>tcgetattr\<close> and \<open>tcsetattr\<close> are parameters; the terminal's settings are the state.\<close>

definition apply_terminal_modes ::
    "termios_api \<Rightarrow> (termios \<Rightarrow> nat + termios) \<Rightarrow> (termios \<Rightarrow> nat + unit) \<Rightarrow> bytes \<Rightarrow> (termios, pty_error, unit) io" where
  "apply_terminal_modes T tcgetattr tcsetattr modes = (\<lambda>tty.
     if modes = [] then (Inr (), tty)
     else case tcgetattr tty of
       Inl e \<Rightarrow> (Inl (PTY_Os e), tty)
     | Inr tio \<Rightarrow>
         (let tio' = modes_loop T modes tio in
          case tcsetattr tio' of Inl e \<Rightarrow> (Inl (PTY_Os e), tty) | Inr _ \<Rightarrow> (Inr (), tio')))"

subsection \<open>Reads and writes of the master\<close>

text \<open>
  \<open>AsyncPtyFd\<close>: what happens while one call is polled. Readiness may be missing or fail, the
  system call may answer or report that it would block, in which case the loop goes on.
  \<open>None\<close> is \<open>Poll::Pending\<close>.
\<close>

datatype 'a attempt = NotReady | ReadyError io_error | Answered "io_error + 'a" | WouldBlockAgain

fun pty_poll :: "'a attempt list \<Rightarrow> (io_error + 'a) option" where
  "pty_poll [] = None"
| "pty_poll (NotReady # _) = None"
| "pty_poll (ReadyError e # _) = Some (Inl e)"
| "pty_poll (Answered r # _) = Some r"
| "pty_poll (WouldBlockAgain # later) = pty_poll later"

subsection \<open>What is read is what was asked for\<close>

lemma try_u16_Inr: "try_u16 n f = Inr w \<longleftrightarrow> n < 65536 \<and> unat w = n"
  by (auto simp: try_u16_def unat_of_nat take_bit_nat_eq_self word_unat_eq_iff)

lemma winsize_of_Inr:
  "winsize_of c r x y = Inr ws \<longleftrightarrow> c < 65536 \<and> r < 65536 \<and> x < 65536 \<and> y < 65536
     \<and> unat (ws_col ws) = c \<and> unat (ws_row ws) = r \<and> unat (ws_xpixel ws) = x \<and> unat (ws_ypixel ws) = y"
proof -
  have "winsize_of c r x y = Inr ws \<longleftrightarrow> (\<exists>a b d e. try_u16 c ''width_cols'' = Inr a \<and> try_u16 r ''height_rows'' = Inr b
      \<and> try_u16 x ''width_px'' = Inr d \<and> try_u16 y ''height_px'' = Inr e
      \<and> ws = \<lparr>ws_row = b, ws_col = a, ws_xpixel = d, ws_ypixel = e\<rparr>)"
    by (auto simp: winsize_of_def split: sum.splits)
  then show ?thesis by (cases ws) (auto simp: try_u16_Inr)
qed

lemma be32_inverse: "from_be32 (ucast (drop_bit 24 v)) (ucast (drop_bit 16 v)) (ucast (drop_bit 8 v)) (ucast v) = v"
proof (rule bit_eqI)
  fix n
  assume "possible_bit TYPE(32 word) n"
  then consider "n < 8" | "8 \<le> n" "n < 16" | "16 \<le> n" "n < 24" | "24 \<le> n" "n < 32" by force
  then show "bit (from_be32 (ucast (drop_bit 24 v)) (ucast (drop_bit 16 v)) (ucast (drop_bit 8 v)) (ucast v)) n = bit v n"
    unfolding from_be32_def by cases (simp_all add: bit_simps less_diff_conv2)
qed

definition img_modes :: "(u8 \<times> 32 word) list \<Rightarrow> bytes" where
  "img_modes entries = concat (map (\<lambda>(opcode, value). opcode # be32 value) entries)"

text \<open>
  The settings that RFC 4254 (section 8, with IUTF8 of RFC 8160) gives to the opcodes; the others are
  not supported and skipped.
\<close>

datatype tty_setting =
    TS_ISpeed | TS_OSpeed | TS_Char control_char | TS_Input input_flag | TS_Local local_flag
  | TS_Output output_flag | TS_Control control_flag

definition rfc4254_opcodes :: "(u8 \<times> tty_setting) list" where
  "rfc4254_opcodes =
     [(1, TS_Char VINTR), (2, TS_Char VQUIT), (3, TS_Char VERASE), (4, TS_Char VKILL), (5, TS_Char VEOF),
      (6, TS_Char VEOL), (7, TS_Char VEOL2), (8, TS_Char VSTART), (9, TS_Char VSTOP), (10, TS_Char VSUSP),
      (12, TS_Char VREPRINT), (13, TS_Char VWERASE), (14, TS_Char VLNEXT), (18, TS_Char VDISCARD),
      (30, TS_Input IGNPAR), (31, TS_Input PARMRK), (32, TS_Input INPCK), (33, TS_Input ISTRIP),
      (34, TS_Input INLCR), (35, TS_Input IGNCR), (36, TS_Input ICRNL), (37, TS_Input IUCLC),
      (38, TS_Input IXON), (39, TS_Input IXANY), (40, TS_Input IXOFF), (41, TS_Input IMAXBEL),
      (42, TS_Input IUTF8),
      (50, TS_Local ISIG), (51, TS_Local ICANON), (53, TS_Local ECHO), (54, TS_Local ECHOE),
      (55, TS_Local ECHOK), (56, TS_Local ECHONL), (57, TS_Local NOFLSH), (58, TS_Local TOSTOP),
      (59, TS_Local IEXTEN), (60, TS_Local ECHOCTL), (61, TS_Local ECHOKE), (62, TS_Local PENDIN),
      (70, TS_Output OPOST), (71, TS_Output OLCUC), (72, TS_Output ONLCR), (73, TS_Output OCRNL),
      (74, TS_Output ONOCR), (75, TS_Output ONLRET),
      (90, TS_Control CS7), (91, TS_Control CS8), (92, TS_Control PARENB), (93, TS_Control PARODD),
      (128, TS_ISpeed), (129, TS_OSpeed)]"

primrec baud_value :: "baud_rate \<Rightarrow> nat" where
  "baud_value B0 = 0" | "baud_value B50 = 50" | "baud_value B75 = 75" | "baud_value B110 = 110"
| "baud_value B134 = 134" | "baud_value B150 = 150" | "baud_value B200 = 200" | "baud_value B300 = 300"
| "baud_value B600 = 600" | "baud_value B1200 = 1200" | "baud_value B1800 = 1800" | "baud_value B2400 = 2400"
| "baud_value B4800 = 4800" | "baud_value B9600 = 9600" | "baud_value B19200 = 19200"
| "baud_value B38400 = 38400" | "baud_value B57600 = 57600" | "baud_value B115200 = 115200"
| "baud_value B230400 = 230400"

text \<open>
  What one entry asks for: a speed the system has, a control character (255 for none), or a flag
  turned on by any value but zero. Everything else stays as it was.
\<close>

definition speed_becomes :: "32 word \<Rightarrow> baud_rate option \<Rightarrow> baud_rate option \<Rightarrow> bool" where
  "speed_becomes value old new \<longleftrightarrow>
     (\<exists>b. baud_value b = unat value \<and> new = Some b) \<or> (\<forall>b. baud_value b \<noteq> unat value) \<and> new = old"

definition flag_becomes :: "32 word \<Rightarrow> 32 word \<Rightarrow> 32 word \<Rightarrow> 32 word \<Rightarrow> bool" where
  "flag_becomes value flag old new \<longleftrightarrow>
     (\<forall>n < 32. bit new n = (if bit flag n then value \<noteq> 0 else bit old n))"

primrec takes_effect :: "termios_api \<Rightarrow> tty_setting \<Rightarrow> 32 word \<Rightarrow> termios \<Rightarrow> termios \<Rightarrow> bool" where
  "takes_effect T TS_ISpeed v old new \<longleftrightarrow>
     speed_becomes v (t_ispeed old) (t_ispeed new) \<and> new = old\<lparr>t_ispeed := t_ispeed new\<rparr>"
| "takes_effect T TS_OSpeed v old new \<longleftrightarrow>
     speed_becomes v (t_ospeed old) (t_ospeed new) \<and> new = old\<lparr>t_ospeed := t_ospeed new\<rparr>"
| "takes_effect T (TS_Char c) v old new \<longleftrightarrow>
     new = old\<lparr>t_cc := (t_cc old)[ta_cc T c := if v = 255 then 0 else word_of_nat (unat v)]\<rparr>"
| "takes_effect T (TS_Input f) v old new \<longleftrightarrow>
     flag_becomes v (ta_iflag T f) (t_iflag old) (t_iflag new) \<and> new = old\<lparr>t_iflag := t_iflag new\<rparr>"
| "takes_effect T (TS_Local f) v old new \<longleftrightarrow>
     flag_becomes v (ta_lflag T f) (t_lflag old) (t_lflag new) \<and> new = old\<lparr>t_lflag := t_lflag new\<rparr>"
| "takes_effect T (TS_Output f) v old new \<longleftrightarrow>
     flag_becomes v (ta_oflag T f) (t_oflag old) (t_oflag new) \<and> new = old\<lparr>t_oflag := t_oflag new\<rparr>"
| "takes_effect T (TS_Control f) v old new \<longleftrightarrow>
     flag_becomes v (ta_cflag T f) (t_cflag old) (t_cflag new) \<and> new = old\<lparr>t_cflag := t_cflag new\<rparr>"

inductive modes_applied :: "termios_api \<Rightarrow> (u8 \<times> 32 word) list \<Rightarrow> termios \<Rightarrow> termios \<Rightarrow> bool" for T where
  ma_none: "modes_applied T [] t t"
| ma_known: "map_of rfc4254_opcodes opcode = Some setting \<Longrightarrow> takes_effect T setting value t u
    \<Longrightarrow> modes_applied T entries u w \<Longrightarrow> modes_applied T ((opcode, value) # entries) t w"
| ma_other: "map_of rfc4254_opcodes opcode = None \<Longrightarrow> modes_applied T entries t w
    \<Longrightarrow> modes_applied T ((opcode, value) # entries) t w"

lemma baud_to_speed_Some: "baud_to_speed v = Some b \<longleftrightarrow> baud_value b = unat v"
proof
  assume "baud_to_speed v = Some b"
  then show "baud_value b = unat v" by (auto simp: baud_to_speed_def split: if_splits)
next
  assume b: "baud_value b = unat v"
  then have "v = word_of_nat (baud_value b)" by simp
  then show "baud_to_speed v = Some b" by (cases b) (simp_all add: baud_to_speed_def)
qed

lemma speed_applied:
  "speed_becomes v old (case baud_to_speed v of Some b \<Rightarrow> Some b | None \<Rightarrow> old)"
  by (auto simp: speed_becomes_def baud_to_speed_Some [symmetric] split: option.splits)

lemma flag_applied [simp]: "flag_becomes v flag old (set_flag v flag old)"
  by (auto simp: flag_becomes_def set_flag_def bit_simps)

lemma apply_mode_known:
  assumes "map_of rfc4254_opcodes opcode = Some setting"
  shows "takes_effect T setting v t (apply_mode T opcode v t)"
proof -
  have "(opcode, setting) \<in> set rfc4254_opcodes" using assms by (rule map_of_SomeD)
  then show ?thesis
    using speed_applied [of v "t_ispeed t"] speed_applied [of v "t_ospeed t"]
    unfolding rfc4254_opcodes_def list.set
    by (elim insertE emptyE; clarsimp simp: apply_mode_def TTY_OP_ISPEED_def TTY_OP_OSPEED_def cc_index_def
        iflag_bit_def lflag_bit_def oflag_bit_def cflag_bit_def split: option.splits)
qed

lemma apply_mode_other:
  assumes "map_of rfc4254_opcodes opcode = None"
  shows "apply_mode T opcode v t = t"
proof -
  have "opcode \<notin> fst ` set rfc4254_opcodes" using assms by (simp add: map_of_eq_None_iff)
  then show ?thesis
    by (simp add: rfc4254_opcodes_def apply_mode_def TTY_OP_ISPEED_def TTY_OP_OSPEED_def cc_index_def
        iflag_bit_def lflag_bit_def oflag_bit_def cflag_bit_def)
qed

text \<open>Where parsing stops: the end marker, an undefined opcode, an entry cut short, or no more bytes.\<close>

definition modes_end :: "bytes \<Rightarrow> bool" where
  "modes_end rest \<longleftrightarrow> rest = [] \<or> hd rest = 0 \<or> 160 \<le> hd rest \<or> length rest < 5"

lemma modes_loop_end: "modes_end rest \<Longrightarrow> modes_loop T rest tio = tio"
  by (cases rest) (auto simp: modes_end_def TTY_OP_END_def split: list.splits)

lemma modes_loop_img:
  assumes "\<forall>(opcode, value) \<in> set entries. opcode \<noteq> 0 \<and> opcode < 160" "modes_end rest"
  shows "modes_applied T entries tio (modes_loop T (img_modes entries @ rest) tio)"
  using assms
proof (induction entries arbitrary: tio)
  case Nil
  then show ?case by (simp add: img_modes_def modes_loop_end ma_none)
next
  case (Cons e entries)
  obtain op v where e: "e = (op, v)" by force
  let ?u = "apply_mode T op v tio"
  have "op \<noteq> TTY_OP_END" "\<not> 160 \<le> op" using Cons.prems(1) by (auto simp: e TTY_OP_END_def)
  then have run: "modes_loop T (img_modes (e # entries) @ rest) tio = modes_loop T (img_modes entries @ rest) ?u"
    by (simp add: img_modes_def e be32_def be32_inverse)
  have "modes_applied T entries ?u (modes_loop T (img_modes entries @ rest) ?u)"
    using Cons.IH [of ?u] Cons.prems by simp
  then show ?case unfolding run
    using apply_mode_known [of op _ T v tio] apply_mode_other [of op T v tio]
    by (cases "map_of rfc4254_opcodes op") (auto simp: e intro: ma_known ma_other)
qed

lemma working_terminal: "apply_terminal_modes T Inr (\<lambda>_. Inr ()) m tty = (Inr (), modes_loop T m tty)"
  by (simp add: apply_terminal_modes_def Let_def)

text \<open>The size that has exactly these numbers: there is one exactly when each of them fits 16 bits.\<close>

definition size_is :: "nat \<Rightarrow> nat \<Rightarrow> nat \<Rightarrow> nat \<Rightarrow> winsize \<Rightarrow> bool" where
  "size_is cols rows xpixel ypixel ws \<longleftrightarrow> unat (ws_col ws) = cols \<and> unat (ws_row ws) = rows
     \<and> unat (ws_xpixel ws) = xpixel \<and> unat (ws_ypixel ws) = ypixel"

definition pty_size :: "pty_request \<Rightarrow> winsize \<Rightarrow> bool" where
  "pty_size p = size_is (pty_width_cols p) (pty_height_rows p) (pty_width_px p) (pty_height_px p)"

definition resize_size :: "window_change_request \<Rightarrow> winsize \<Rightarrow> bool" where
  "resize_size c = size_is (width_cols c) (height_rows c) (width_px c) (height_px c)"

lemma winsize_of_size: "winsize_of c r x y = Inr ws \<longleftrightarrow> size_is c r x y ws"
proof -
  have "unat w < 65536" for w :: "16 word" using unsigned_less [of w] by simp
  then show ?thesis by (auto simp: winsize_of_Inr size_is_def)
qed

lemma winsize_of_Inl: "(\<exists>e. winsize_of c r x y = Inl e) \<longleftrightarrow> \<not> (c < 65536 \<and> r < 65536 \<and> x < 65536 \<and> y < 65536)"
  by (auto simp: winsize_of_def try_u16_def)

lemma allocate_pty_run:
  "allocate_pty openpty p = Inr pair \<longleftrightarrow> (\<exists>ws. pty_size p ws \<and> openpty ws = Inr pair)"
  "allocate_pty openpty p = Inl (PTY_Os e) \<longleftrightarrow> (\<exists>ws. pty_size p ws \<and> openpty ws = Inl e)"
  "(\<exists>d. allocate_pty openpty p = Inl (PTY_Dimension d)) \<longleftrightarrow>
     \<not> (pty_width_cols p < 65536 \<and> pty_height_rows p < 65536 \<and> pty_width_px p < 65536 \<and> pty_height_px p < 65536)"
  unfolding pty_size_def winsize_of_size [symmetric] winsize_of_Inl [symmetric]
  by (auto simp: allocate_pty_def winsize_from_pty_def split: sum.splits)

lemma set_window_size_run:
  "set_window_size_raw tiocswinsz c = Inr () \<longleftrightarrow> (\<exists>ws. resize_size c ws \<and> tiocswinsz ws = Inr ())"
  unfolding resize_size_def winsize_of_size [symmetric]
  by (auto simp: set_window_size_raw_def winsize_from_resize_def split: sum.splits)

text \<open>
  C14: the terminal the client asked for. A terminal is opened with exactly the size of the request,
  and refused without a system call when a dimension does not fit 16 bits; a resize sets exactly its
  size; and the encoded terminal modes are applied in their order, each opcode changing the one
  setting RFC 4254 gives it to the value asked for and nothing else, unsupported opcodes changing
  nothing, and whatever follows the end marker, an undefined opcode or a truncated entry ignored.
\<close>

theorem terminal_as_requested:
  "(allocate_pty openpty p = Inr pair \<longleftrightarrow> (\<exists>ws. pty_size p ws \<and> openpty ws = Inr pair))
   \<and> (allocate_pty openpty p = Inl (PTY_Os e) \<longleftrightarrow> (\<exists>ws. pty_size p ws \<and> openpty ws = Inl e))
   \<and> ((\<exists>d. allocate_pty openpty p = Inl (PTY_Dimension d)) \<longleftrightarrow>
      \<not> (pty_width_cols p < 65536 \<and> pty_height_rows p < 65536 \<and> pty_width_px p < 65536 \<and> pty_height_px p < 65536))
   \<and> (set_window_size_raw tiocswinsz c = Inr () \<longleftrightarrow> (\<exists>ws. resize_size c ws \<and> tiocswinsz ws = Inr ()))
   \<and> ((\<forall>(opcode, value) \<in> set entries. opcode \<noteq> 0 \<and> opcode < 160) \<and> modes_end rest \<longrightarrow>
      (\<exists>tty'. apply_terminal_modes T Inr (\<lambda>_. Inr ()) (img_modes entries @ rest) tty = (Inr (), tty')
        \<and> modes_applied T entries tty tty'))"
  using modes_loop_img [of entries rest T tty]
  by (simp add: allocate_pty_run set_window_size_run working_terminal)

inductive_cases modes_applied_NilE: "modes_applied T [] t u"
inductive_cases modes_applied_ConsE: "modes_applied T ((opcode, value) # entries) t u"

theorem terminal_as_requested_witness:
  "\<exists>tty'. apply_terminal_modes
     \<lparr>ta_cc = \<lambda>_. 0, ta_iflag = \<lambda>_. 1, ta_lflag = \<lambda>_. 2, ta_oflag = \<lambda>_. 4, ta_cflag = \<lambda>_. 8\<rparr>
     Inr (\<lambda>_. Inr ()) (img_modes [(36, 1), (53, 0)] @ [0, 99])
     \<lparr>t_ispeed = None, t_ospeed = None, t_cc = [0], t_iflag = 0, t_lflag = 3, t_oflag = 0, t_cflag = 0\<rparr>
   = (Inr (), tty') \<and> bit (t_iflag tty') 0 \<and> \<not> bit (t_lflag tty') 1 \<and> bit (t_lflag tty') 0 \<and> t_cc tty' = [0]"
proof -
  let ?T = "\<lparr>ta_cc = \<lambda>_. 0, ta_iflag = \<lambda>_. 1, ta_lflag = \<lambda>_. 2, ta_oflag = \<lambda>_. 4, ta_cflag = \<lambda>_. 8\<rparr>"
  let ?tty = "\<lparr>t_ispeed = None, t_ospeed = None, t_cc = [0], t_iflag = 0, t_lflag = 3, t_oflag = 0, t_cflag = 0\<rparr>"
  have "\<forall>(opcode, value) \<in> set [(36 :: u8, 1 :: 32 word), (53, 0)]. opcode \<noteq> 0 \<and> opcode < 160" by simp
  moreover have "modes_end [0, 99]" by (simp add: modes_end_def)
  ultimately obtain tty' where r: "apply_terminal_modes ?T Inr (\<lambda>_. Inr ()) (img_modes [(36, 1), (53, 0)] @ [0, 99]) ?tty
      = (Inr (), tty')" "modes_applied ?T [(36, 1), (53, 0)] ?tty tty'"
    using terminal_as_requested [of "\<lambda>_. Inr ()" undefined "()" 0 "\<lambda>_. Inr ()" undefined "[(36, 1), (53, 0)]"
        "[0, 99]" ?T ?tty] by blast
  have op: "map_of rfc4254_opcodes 36 = Some (TS_Input ICRNL)" "map_of rfc4254_opcodes 53 = Some (TS_Local ECHO)"
    by (simp_all add: rfc4254_opcodes_def)
  obtain u where u: "takes_effect ?T (TS_Input ICRNL) 1 ?tty u" "modes_applied ?T [(53, 0)] u tty'"
    using r(2) by (rule modes_applied_ConsE) (auto simp: op simp del: takes_effect.simps)
  then have "takes_effect ?T (TS_Local ECHO) 0 u tty'"
    by (elim modes_applied_ConsE) (auto simp: op simp del: takes_effect.simps elim: modes_applied_NilE)
  then have "bit (t_iflag u) 0" "t_cc u = [0]" "t_lflag u = 3" "t_iflag tty' = t_iflag u" "t_cc tty' = t_cc u"
      "\<forall>n < 32. bit (t_lflag tty') n = (if bit (2 :: 32 word) n then False else bit (t_lflag u) n)"
    using u(1) by (auto simp: flag_becomes_def dest: spec [of _ 0] arg_cong [of _ _ t_iflag] arg_cong [of _ _ t_cc]
        arg_cong [of _ _ t_lflag])
  then have "bit (t_iflag tty') 0 \<and> \<not> bit (t_lflag tty') 1 \<and> bit (t_lflag tty') 0 \<and> t_cc tty' = [0]"
    by (simp add: bit_numeral_rec)
  with r(1) show ?thesis by blast
qed

text \<open>The error of a dimension beyond 32 bits names a different number.\<close>

theorem overflow_value_truncated:
  "try_u16 4294967376 ''width_cols'' = Inl \<lparr>do_field = ''width_cols'', do_value = 80\<rparr>"
  by (simp add: try_u16_def)

end
