(* ===== verification/Session_Setup.thy ===== *)
theory Session_Setup
  imports Session_Client Pty
begin

text \<open>
  The setup of a session channel on the server (\<open>session_setup\<close>, \<open>send_motd\<close> and the session
  task of \<open>run_session\<close> in \<open>src/session/dispatcher.rs\<close>): reading the requests that come before the
  command, answering them, allocating the terminal, and starting the process.
\<close>

datatype session_setup_error =
    SSE_ReadEvent read_channel_event_error | SSE_DecodePayload string session_codec_error
  | SSE_ChannelClosed | SSE_AllocPty pty_error

record setup_state =
  st_pty :: "pty_request option"
  st_command :: "bytes option"
  st_is_shell :: bool
  st_term_type :: "string option"
  st_client_env :: "(string \<times> string) list"

definition setup_start :: setup_state where
  "setup_start = \<lparr>st_pty = None, st_command = None, st_is_shell = False, st_term_type = None, st_client_env = []\<rparr>"

text \<open>Responses are sent when wanted; their errors are dropped.\<close>

definition answer_success :: "varint_api \<Rightarrow> bool \<Rightarrow> (ssh_channel, 'e, unit) io" where
  "answer_success V want = (\<lambda>c.
     (Inr (), if want then snd (on_writer (respond_success V (enc_empty :: (writer, unit, unit) io)) c) else c))"

definition answer_failure :: "varint_api \<Rightarrow> bool \<Rightarrow> (ssh_channel, 'e, unit) io" where
  "answer_failure V want = (\<lambda>c. (Inr (), if want then snd (on_writer (respond_failure V) c) else c))"

text \<open>One request; the flag says that the setup is complete.\<close>

definition setup_request ::
    "varint_api \<Rightarrow> ssh_string \<Rightarrow> bool \<Rightarrow> setup_state \<Rightarrow> (ssh_channel, session_setup_error, setup_state \<times> bool) io" where
  "setup_request V request_type want st =
     (if request_type = lit ''pty-req'' then
        bindS (ctx (SSE_DecodePayload ''pty-req'') (decode_request_payload (dec_pty V) want)) (\<lambda>(payload, responder).
        bindS (answer_success V responder) (\<lambda>_.
          okS (st\<lparr>st_term_type := Some (text_of (term_type payload)), st_pty := Some payload\<rparr>, False)))
      else if request_type = lit ''env'' then
        bindS (ctx (SSE_DecodePayload ''env'') (decode_request_payload (dec_env V) want)) (\<lambda>(payload, responder).
        bindS (answer_success V responder) (\<lambda>_.
          okS (st\<lparr>st_client_env := st_client_env st @ [(text_of (env_name payload), text_of (env_value payload))]\<rparr>, False)))
      else if request_type = lit ''exec'' then
        bindS (ctx (SSE_DecodePayload ''exec'') (decode_request_payload (dec_exec V) want)) (\<lambda>(payload, responder).
        bindS (answer_success V responder) (\<lambda>_.
          okS (st\<lparr>st_command := Some (exec_command payload)\<rparr>, True)))
      else if request_type = lit ''shell'' then
        bindS (decode_request_payload dec_empty want) (\<lambda>(_, responder).
        bindS (answer_success V responder) (\<lambda>_. okS (st\<lparr>st_is_shell := True\<rparr>, True)))
      else bindS (answer_failure V want) (\<lambda>_. okS (st, False)))"

definition setup_event ::
    "varint_api \<Rightarrow> channel_event \<Rightarrow> setup_state \<Rightarrow> (ssh_channel, session_setup_error, setup_state \<times> bool) io" where
  "setup_event V event st = (case event of
       CE_Request request_type want \<Rightarrow> setup_request V request_type want st
     | CE_Eof \<Rightarrow> failS SSE_ChannelClosed
     | CE_Close \<Rightarrow> failS SSE_ChannelClosed
     | _ \<Rightarrow> okS (st, False))"

text \<open>The loop with fuel: \<open>None\<close> when it has not ended after \<open>fuel\<close> events.\<close>

primrec setup_loop ::
    "varint_api \<Rightarrow> nat \<Rightarrow> setup_state \<Rightarrow> ssh_channel
     \<Rightarrow> (session_setup_error + setup_state) option \<times> ssh_channel" where
  "setup_loop V 0 st c = (None, c)"
| "setup_loop V (Suc fuel) st c =
     (case bindS (ctx SSE_ReadEvent (channel_next_event V)) (\<lambda>event. setup_event V event st) c of
        (Inl e, c') \<Rightarrow> (Some (Inl e), c')
      | (Inr (st', True), c') \<Rightarrow> (Some (Inr st'), c')
      | (Inr (st', False), c') \<Rightarrow> setup_loop V fuel st' c')"

record 'pty session_setup_result =
  se_command :: bytes
  se_is_shell :: bool
  se_pty :: "'pty option"
  se_term_type :: "string option"
  se_client_env :: "(string \<times> string) list"

text \<open>
  The terminal: \<open>openpty\<close> gives a pair for a size, and \<open>set_modes\<close> stands for
  \<open>apply_terminal_modes\<close> on its slave, whose failure is only logged.
\<close>

definition finish_setup ::
    "(winsize \<Rightarrow> nat + 'pty) \<Rightarrow> (bytes \<Rightarrow> 'pty \<Rightarrow> 'pty) \<Rightarrow> setup_state
     \<Rightarrow> session_setup_error + 'pty session_setup_result" where
  "finish_setup openpty set_modes st =
     (let result = (\<lambda>pty. \<lparr>se_command = (case st_command st of Some c \<Rightarrow> c | None \<Rightarrow> []),
            se_is_shell = st_is_shell st, se_pty = pty, se_term_type = st_term_type st,
            se_client_env = st_client_env st\<rparr>)
      in case st_pty st of
           None \<Rightarrow> Inr (result None)
         | Some req \<Rightarrow> (case allocate_pty openpty req of
             Inl e \<Rightarrow> Inl (SSE_AllocPty e)
           | Inr pair \<Rightarrow>
               Inr (result (Some (if terminal_modes req = [] then pair else set_modes (terminal_modes req) pair)))))"

definition session_setup ::
    "varint_api \<Rightarrow> (winsize \<Rightarrow> nat + 'pty) \<Rightarrow> (bytes \<Rightarrow> 'pty \<Rightarrow> 'pty) \<Rightarrow> nat \<Rightarrow> ssh_channel
     \<Rightarrow> (session_setup_error + 'pty session_setup_result) option \<times> ssh_channel" where
  "session_setup V openpty set_modes fuel c = (case setup_loop V fuel setup_start c of
       (None, c') \<Rightarrow> (None, c')
     | (Some (Inl e), c') \<Rightarrow> (Some (Inl e), c')
     | (Some (Inr st), c') \<Rightarrow> (Some (finish_setup openpty set_modes st), c'))"

definition send_motd :: "varint_api \<Rightarrow> bool \<Rightarrow> io_error + bytes \<Rightarrow> ssh_channel \<Rightarrow> ssh_channel" where
  "send_motd V hushlogin motd c =
     (if hushlogin then c
      else case motd of
        Inl _ \<Rightarrow> c
      | Inr data \<Rightarrow> if data = [] then c else snd (on_writer (writer_data V data) c))"

definition setup_mode :: "string \<Rightarrow> 'pty session_setup_result \<Rightarrow> command_mode" where
  "setup_mode shell setup = (if se_is_shell setup then Shell shell else Exec shell (se_command setup))"

text \<open>
  The task of a session channel up to the start of the process: \<open>None\<close> when the channel was not
  accepted or the setup failed, otherwise the command to run, on the terminal if one was
  allocated.
\<close>

definition session_task_start ::
    "varint_api \<Rightarrow> (winsize \<Rightarrow> nat + 'pty) \<Rightarrow> (bytes \<Rightarrow> 'pty \<Rightarrow> 'pty) \<Rightarrow> nat
     \<Rightarrow> bool \<Rightarrow> string option \<Rightarrow> string option \<Rightarrow> string option \<Rightarrow> bool \<Rightarrow> io_error + bytes \<Rightarrow> session_config
     \<Rightarrow> ssh_channel \<Rightarrow> (command \<times> 'pty option) option \<times> ssh_channel" where
  "session_task_start V openpty set_modes fuel home_is_dir tz lang etc_environment hushlogin motd config c =
     (case pending_accept V (sc_max_message_size config) c of
        (Inl _, c1) \<Rightarrow> (None, c1)
      | (Inr _, c1) \<Rightarrow>
          (case session_setup V openpty set_modes fuel c1 of
             (Some (Inr setup), c2) \<Rightarrow>
               (let c3 = (if se_is_shell setup \<and> se_pty setup \<noteq> None then send_motd V hushlogin motd c2 else c2) in
                (Some (session_command home_is_dir tz lang etc_environment
                         (setup_mode (ui_shell (sc_user config)) setup) config (se_term_type setup) (se_client_env setup),
                       se_pty setup), c3))
           | (_, c2) \<Rightarrow> (None, c2)))"

subsection \<open>Requests on the wire\<close>

datatype setup_msg = SetPty pty_request | SetEnv env_request
datatype setup_end = RunExec exec_request | RunShell

definition img_setup_request :: "varint_api \<Rightarrow> ssh_string \<Rightarrow> bool \<Rightarrow> bytes \<Rightarrow> bytes" where
  "img_setup_request V rt want p = vi_enc V SSH_MSG_CHANNEL_REQUEST @ img_ssh_string V rt @ img_ssh_bool want @ p"

primrec img_setup :: "varint_api \<Rightarrow> bool \<Rightarrow> setup_msg \<Rightarrow> bytes" where
  "img_setup V want (SetPty p) = img_setup_request V (lit ''pty-req'') want (img_pty V p)"
| "img_setup V want (SetEnv p) = img_setup_request V (lit ''env'') want (img_env V p)"

primrec img_end :: "varint_api \<Rightarrow> bool \<Rightarrow> setup_end \<Rightarrow> bytes" where
  "img_end V want (RunExec p) = img_setup_request V (lit ''exec'') want (img_exec V p)"
| "img_end V want RunShell = img_setup_request V (lit ''shell'') want []"

primrec valid_setup :: "setup_msg \<Rightarrow> bool" where
  "valid_setup (SetPty p) \<longleftrightarrow> valid_pty p"
| "valid_setup (SetEnv p) \<longleftrightarrow> valid_env p"

primrec valid_end :: "setup_end \<Rightarrow> bool" where
  "valid_end (RunExec p) \<longleftrightarrow> valid_exec p"
| "valid_end RunShell \<longleftrightarrow> True"

primrec take_setup :: "setup_msg \<Rightarrow> setup_state \<Rightarrow> setup_state" where
  "take_setup (SetPty p) st = st\<lparr>st_term_type := Some (text_of (term_type p)), st_pty := Some p\<rparr>"
| "take_setup (SetEnv p) st =
     st\<lparr>st_client_env := st_client_env st @ [(text_of (env_name p), text_of (env_value p))]\<rparr>"

primrec take_end :: "setup_end \<Rightarrow> setup_state \<Rightarrow> setup_state" where
  "take_end (RunExec p) st = st\<lparr>st_command := Some (exec_command p)\<rparr>"
| "take_end RunShell st = st\<lparr>st_is_shell := True\<rparr>"

definition replies :: "varint_api \<Rightarrow> bool list \<Rightarrow> bytes" where
  "replies V wants = concat (map (\<lambda>want. if want then img_msg V (M_Success []) else []) wants)"

lemma setup_names:
  "valid_ssh_string (lit ''pty-req'')" "valid_ssh_string (lit ''env'')" "valid_ssh_string (lit ''exec'')"
  "valid_ssh_string (lit ''shell'')"
  by (simp_all add: valid_ssh_string_def utf8_valid_lit ascii_def byte_of_def MAX_REMOTE_FIELD_SIZE_def)

lemma answer_success_endless:
  assumes "endless (ch_writer c)"
  shows "\<exists>w. answer_success V want c = (Inr (), c\<lparr>ch_writer := w\<rparr>) \<and> endless w
    \<and> w_out w = w_out (ch_writer c) @ replies V [want]"
proof (cases want)
  case True
  have "emits (enc_empty :: (writer, unit, unit) io) []" unfolding enc_empty_def by (rule emits_ok)
  from sends_endless [OF sends_respond_success [OF this] assms, of V] True show ?thesis
    by (auto simp: answer_success_def on_writer_def replies_def)
next
  case False
  then show ?thesis using assms by (auto simp: answer_success_def replies_def intro: exI [of _ "ch_writer c"])
qed

context varint_codec
begin

lemma next_event_any:
  assumes "valid_ssh_string rt" "ch_reader c = rd (img_setup_request V rt want p @ rest) e"
  shows "channel_next_event V c = (Inr (CE_Request rt want), c\<lparr>ch_reader := rd (p @ rest) e\<rparr>)"
  using assms
  by (simp add: channel_next_event_def img_setup_request_def io_simps wire on_reader_run)
    (simp add: msg_nums)

lemma ctx_id: "ctx (\<lambda>e. e) m = m"
  by (rule ext) (simp add: ctx_def split: prod.splits sum.splits)

lemma request_step:
  fixes g :: "'d \<Rightarrow> session_setup_error"
  assumes "pdec (rd (p @ rest) e) = (Inr x, rd rest e)" "ch_reader c = rd (p @ rest) e" "endless (ch_writer c)"
  shows "\<exists>w. bindS (ctx g (decode_request_payload pdec want)) (\<lambda>(payload, responder).
        bindS (answer_success V responder) (\<lambda>_. okS (f payload, flag))) c =
      (Inr (f x, flag), \<lparr>ch_reader = rd rest e, ch_writer = w\<rparr>)
    \<and> endless w \<and> w_out w = w_out (ch_writer c) @ replies V [want]"
proof -
  let ?c = "c\<lparr>ch_reader := rd rest e\<rparr>"
  have d: "ctx g (decode_request_payload pdec want) c = (Inr (x, want), ?c)"
    using assms(1,2) by (simp add: decode_request_payload_def on_reader_def bindS_def ctx_def okS_def)
  from answer_success_endless [of ?c V want] assms(3) obtain w where
      "(answer_success V want ?c :: (session_setup_error + unit) \<times> ssh_channel) = (Inr (), ?c\<lparr>ch_writer := w\<rparr>)" "endless w"
      "w_out w = w_out (ch_writer c) @ replies V [want]" by auto
  with d show ?thesis by (cases c) (auto simp: bindS_def okS_def)
qed

lemmas request_step_plain = request_step [where g = "\<lambda>e. e", unfolded ctx_id]

lemma setup_msg_run:
  assumes "valid_setup m" "ch_reader c = rd (img_setup V want m @ rest) e" "endless (ch_writer c)"
  shows "\<exists>w. bindS (ctx SSE_ReadEvent (channel_next_event V)) (\<lambda>event. setup_event V event st) c =
      (Inr (take_setup m st, False), \<lparr>ch_reader = rd rest e, ch_writer = w\<rparr>)
    \<and> endless w \<and> w_out w = w_out (ch_writer c) @ replies V [want]"
proof (cases m)
  case (SetPty p)
  let ?c = "c\<lparr>ch_reader := rd (img_pty V p @ rest) e\<rparr>"
  have "channel_next_event V c = (Inr (CE_Request (lit ''pty-req'') want), ?c)"
    using assms(2) SetPty by (intro next_event_any) (simp_all add: setup_names)
  moreover have "dec_pty V (rd (img_pty V p @ rest) e) = (Inr p, rd rest e)"
    using assms(1) SetPty by (simp add: session_dec_img)
  from request_step [where pdec = "dec_pty V", OF this, of ?c "SSE_DecodePayload ''pty-req''" want
      "\<lambda>payload. st\<lparr>st_term_type := Some (text_of (term_type payload)), st_pty := Some payload\<rparr>" False] assms(3)
  have "\<exists>w. setup_request V (lit ''pty-req'') want st ?c =
      (Inr (take_setup m st, False), \<lparr>ch_reader = rd rest e, ch_writer = w\<rparr>)
    \<and> endless w \<and> w_out w = w_out (ch_writer c) @ replies V [want]"
    by (simp add: setup_request_def SetPty)
  ultimately show ?thesis by (simp add: bindS_def ctx_def setup_event_def)
next
  case (SetEnv p)
  let ?c = "c\<lparr>ch_reader := rd (img_env V p @ rest) e\<rparr>"
  have "channel_next_event V c = (Inr (CE_Request (lit ''env'') want), ?c)"
    using assms(2) SetEnv by (intro next_event_any) (simp_all add: setup_names)
  moreover have "dec_env V (rd (img_env V p @ rest) e) = (Inr p, rd rest e)"
    using assms(1) SetEnv by (simp add: session_dec_img)
  from request_step [where pdec = "dec_env V", OF this, of ?c "SSE_DecodePayload ''env''" want
      "\<lambda>payload. st\<lparr>st_client_env := st_client_env st @ [(text_of (env_name payload), text_of (env_value payload))]\<rparr>"
      False] assms(3)
  have "\<exists>w. setup_request V (lit ''env'') want st ?c =
      (Inr (take_setup m st, False), \<lparr>ch_reader = rd rest e, ch_writer = w\<rparr>)
    \<and> endless w \<and> w_out w = w_out (ch_writer c) @ replies V [want]"
    by (simp add: setup_request_def SetEnv)
  ultimately show ?thesis by (simp add: bindS_def ctx_def setup_event_def)
qed

lemma setup_end_run:
  assumes "valid_end m" "ch_reader c = rd (img_end V want m @ rest) e" "endless (ch_writer c)"
  shows "\<exists>w. bindS (ctx SSE_ReadEvent (channel_next_event V)) (\<lambda>event. setup_event V event st) c =
      (Inr (take_end m st, True), \<lparr>ch_reader = rd rest e, ch_writer = w\<rparr>)
    \<and> endless w \<and> w_out w = w_out (ch_writer c) @ replies V [want]"
proof (cases m)
  case (RunExec p)
  let ?c = "c\<lparr>ch_reader := rd (img_exec V p @ rest) e\<rparr>"
  have "channel_next_event V c = (Inr (CE_Request (lit ''exec'') want), ?c)"
    using assms(2) RunExec by (intro next_event_any) (simp_all add: setup_names)
  moreover have "dec_exec V (rd (img_exec V p @ rest) e) = (Inr p, rd rest e)"
    using assms(1) RunExec by (simp add: session_dec_img)
  from request_step [where pdec = "dec_exec V", OF this, of ?c "SSE_DecodePayload ''exec''" want
      "\<lambda>payload. st\<lparr>st_command := Some (exec_command payload)\<rparr>" True] assms(3)
  have "\<exists>w. setup_request V (lit ''exec'') want st ?c =
      (Inr (take_end m st, True), \<lparr>ch_reader = rd rest e, ch_writer = w\<rparr>)
    \<and> endless w \<and> w_out w = w_out (ch_writer c) @ replies V [want]"
    by (simp add: setup_request_def RunExec)
  ultimately show ?thesis by (simp add: bindS_def ctx_def setup_event_def)
next
  case RunShell
  let ?c = "c\<lparr>ch_reader := rd ([] @ rest) e\<rparr>"
  have "channel_next_event V c = (Inr (CE_Request (lit ''shell'') want), ?c)"
    using assms(2) RunShell by (intro next_event_any) (simp_all add: setup_names)
  moreover have "dec_empty (rd ([] @ rest) e) = (Inr (), rd rest e)" by (simp add: dec_empty_def okS_def)
  from request_step_plain [where pdec = dec_empty, OF this, of ?c want "\<lambda>_. st\<lparr>st_is_shell := True\<rparr>" True] assms(3)
  have "\<exists>w. setup_request V (lit ''shell'') want st ?c =
      (Inr (take_end m st, True), \<lparr>ch_reader = rd rest e, ch_writer = w\<rparr>)
    \<and> endless w \<and> w_out w = w_out (ch_writer c) @ replies V [want]"
    by (simp add: setup_request_def RunShell)
  ultimately show ?thesis by (simp add: bindS_def ctx_def setup_event_def)
qed

lemma setup_loop_run:
  assumes "\<forall>(m, want) \<in> set msgs. valid_setup m" "valid_end final"
    and "ch_reader c = rd (concat (map (\<lambda>(m, want). img_setup V want m) msgs) @ img_end V want final @ rest) e"
    and "endless (ch_writer c)" "length msgs < fuel"
  shows "\<exists>w. setup_loop V fuel st c =
      (Some (Inr (take_end final (fold (\<lambda>(m, _). take_setup m) msgs st))), \<lparr>ch_reader = rd rest e, ch_writer = w\<rparr>)
    \<and> endless w \<and> w_out w = w_out (ch_writer c) @ replies V (map snd msgs @ [want])"
  using assms
proof (induction msgs arbitrary: c st fuel)
  case Nil
  then obtain k where "fuel = Suc k" by (cases fuel) auto
  with setup_end_run [of final c want rest e st] Nil show ?case by auto
next
  case (Cons mw msgs)
  obtain m wa where mw: "mw = (m, wa)" by force
  obtain k where k: "fuel = Suc k" "length msgs < k" using Cons.prems(5) by (cases fuel) auto
  let ?tail = "concat (map (\<lambda>(m, want). img_setup V want m) msgs) @ img_end V want final @ rest"
  from setup_msg_run [of m c wa ?tail e st] Cons.prems mw obtain w where w:
      "bindS (ctx SSE_ReadEvent (channel_next_event V)) (\<lambda>event. setup_event V event st) c =
        (Inr (take_setup m st, False), \<lparr>ch_reader = rd ?tail e, ch_writer = w\<rparr>)"
      "endless w" "w_out w = w_out (ch_writer c) @ replies V [wa]" by auto
  from Cons.IH [of "\<lparr>ch_reader = rd ?tail e, ch_writer = w\<rparr>" k "take_setup m st"] Cons.prems w(2) k(2)
  obtain w' where "setup_loop V k (take_setup m st) \<lparr>ch_reader = rd ?tail e, ch_writer = w\<rparr> =
      (Some (Inr (take_end final (fold (\<lambda>(m, _). take_setup m) msgs (take_setup m st)))), \<lparr>ch_reader = rd rest e, ch_writer = w'\<rparr>)"
      "endless w'" "w_out w' = w_out w @ replies V (map snd msgs @ [want])" by auto
  then show ?case using w(1,3) by (simp add: k(1) mw replies_def)
qed

end

text \<open>What a sequence of such requests asks for.\<close>

definition ptys_of :: "setup_msg list \<Rightarrow> pty_request list" where
  "ptys_of ms = concat (map (\<lambda>m. case m of SetPty p \<Rightarrow> [p] | SetEnv _ \<Rightarrow> []) ms)"

definition envs_of :: "setup_msg list \<Rightarrow> (string \<times> string) list" where
  "envs_of ms = concat (map (\<lambda>m. case m of SetPty _ \<Rightarrow> []
     | SetEnv v \<Rightarrow> [(text_of (env_name v), text_of (env_value v))]) ms)"

lemma take_setups:
  "fold take_setup ms st = st\<lparr>
     st_pty := (if ptys_of ms = [] then st_pty st else Some (last (ptys_of ms))),
     st_term_type := (if ptys_of ms = [] then st_term_type st else Some (text_of (term_type (last (ptys_of ms))))),
     st_client_env := st_client_env st @ envs_of ms\<rparr>"
  by (induction ms arbitrary: st) (auto simp: ptys_of_def envs_of_def split: setup_msg.splits)

text \<open>The result a client asked for, with the terminal it got.\<close>

definition asked_setup :: "setup_msg list \<Rightarrow> setup_end \<Rightarrow> 'pty option \<Rightarrow> 'pty session_setup_result" where
  "asked_setup ms final pty = \<lparr>
     se_command = (case final of RunExec p \<Rightarrow> exec_command p | RunShell \<Rightarrow> []),
     se_is_shell = (final = RunShell),
     se_pty = pty,
     se_term_type = (if ptys_of ms = [] then None else Some (text_of (term_type (last (ptys_of ms))))),
     se_client_env = envs_of ms\<rparr>"

definition setup_outcome ::
    "(winsize \<Rightarrow> nat + 'pty) \<Rightarrow> (bytes \<Rightarrow> 'pty \<Rightarrow> 'pty) \<Rightarrow> setup_msg list \<Rightarrow> setup_end
     \<Rightarrow> session_setup_error + 'pty session_setup_result \<Rightarrow> bool" where
  "setup_outcome openpty set_modes ms final r \<longleftrightarrow>
     (if ptys_of ms = [] then r = Inr (asked_setup ms final None)
      else let p = last (ptys_of ms) in
        (\<exists>ws pair. pty_size p ws \<and> openpty ws = Inr pair \<and>
           r = Inr (asked_setup ms final (Some (if terminal_modes p = [] then pair else set_modes (terminal_modes p) pair))))
        \<or> (\<exists>ws e. pty_size p ws \<and> openpty ws = Inl e \<and> r = Inl (SSE_AllocPty (PTY_Os e)))
        \<or> (\<nexists>ws. pty_size p ws) \<and> (\<exists>d. r = Inl (SSE_AllocPty (PTY_Dimension d))))"

lemma allocate_pty_cases:
  obtains (opened) ws pair where "pty_size p ws" "openpty ws = Inr pair" "allocate_pty openpty p = Inr pair"
    | (os) ws e where "pty_size p ws" "openpty ws = Inl e" "allocate_pty openpty p = Inl (PTY_Os e)"
    | (dim) d where "\<nexists>ws. pty_size p ws" "allocate_pty openpty p = Inl (PTY_Dimension d)"
proof (cases "winsize_from_pty p")
  case (Inl d)
  then have "\<nexists>ws. pty_size p ws" by (simp add: pty_size_def winsize_of_size [symmetric] winsize_from_pty_def)
  with Inl dim show ?thesis by (simp add: allocate_pty_def)
next
  case (Inr ws)
  then have "pty_size p ws" by (simp add: pty_size_def winsize_of_size [symmetric] winsize_from_pty_def)
  with Inr opened os show ?thesis by (cases "openpty ws") (simp_all add: allocate_pty_def)
qed

lemma finish_setup_outcome:
  "setup_outcome openpty set_modes ms final
     (finish_setup openpty set_modes (take_end final (fold take_setup ms setup_start)))"
proof (cases "ptys_of ms = []")
  case True
  then show ?thesis
    by (cases final) (simp_all add: setup_outcome_def finish_setup_def take_setups setup_start_def asked_setup_def)
next
  case False
  let ?p = "last (ptys_of ms)"
  show ?thesis
    by (cases rule: allocate_pty_cases [of ?p openpty]; cases final)
      (use False in \<open>auto simp: setup_outcome_def finish_setup_def take_setups setup_start_def asked_setup_def Let_def\<close>)
qed

text \<open>
  C13: the session the client asked for. When a client sends well-formed terminal and environment
  requests and then a command or shell request, the server ends the setup with exactly that command
  or the shell, all variables in their order, the type of the last terminal requested, and a
  terminal opened with exactly its size and set to its modes, or with the error of opening it; it
  has answered each request that wanted a reply with a success, in order, and has read nothing
  beyond the last request. Other requests are left out: their payload is read as the next message.
\<close>

theorem session_setup_as_requested:
  assumes "varint_codec V" "\<forall>(m, want) \<in> set msgs. valid_setup m" "valid_end final"
    and "ch_reader c = rd (concat (map (\<lambda>(m, want). img_setup V want m) msgs) @ img_end V want final @ rest) e"
    and "endless (ch_writer c)" "length msgs < fuel"
  shows "\<exists>r w. session_setup V openpty set_modes fuel c = (Some r, \<lparr>ch_reader = rd rest e, ch_writer = w\<rparr>)
    \<and> setup_outcome openpty set_modes (map fst msgs) final r
    \<and> w_out w = w_out (ch_writer c) @ replies V (map snd msgs @ [want])"
proof -
  have f: "fold (\<lambda>(m, _). take_setup m) msgs st = fold take_setup (map fst msgs) st" for st
    by (induction msgs arbitrary: st) auto
  from varint_codec.setup_loop_run [OF assms, of setup_start] finish_setup_outcome [of openpty set_modes "map fst msgs" final]
  show ?thesis by (auto simp: session_setup_def f)
qed

theorem session_setup_as_requested_witness:
  "\<exists>w. session_setup quic_varint (\<lambda>_. Inr ()) (\<lambda>_. id) 2
     \<lparr>ch_reader = rd (img_setup quic_varint False (SetEnv \<lparr>env_name = [65], env_value = [66]\<rparr>)
         @ img_end quic_varint True (RunExec \<lparr>exec_command = [108, 115]\<rparr>)) None, ch_writer = fresh_writer\<rparr>
   = (Some (Inr \<lparr>se_command = [108, 115], se_is_shell = False, se_pty = None, se_term_type = None,
        se_client_env = [(''A'', ''B'')]\<rparr>), \<lparr>ch_reader = rd [] None, ch_writer = w\<rparr>)
   \<and> w_out w = img_msg quic_varint (M_Success [])"
proof -
  let ?msgs = "[(SetEnv \<lparr>env_name = [65], env_value = [66]\<rparr>, False)]"
  let ?final = "RunExec \<lparr>exec_command = [108, 115]\<rparr>"
  let ?c = "\<lparr>ch_reader = rd (img_setup quic_varint False (SetEnv \<lparr>env_name = [65], env_value = [66]\<rparr>)
         @ img_end quic_varint True ?final) None, ch_writer = fresh_writer\<rparr>"
  have v: "\<forall>(m, want) \<in> set ?msgs. valid_setup m" "valid_end ?final"
    by (simp_all add: valid_env_def valid_exec_def valid_ssh_string_def valid_ssh_bytes_def MAX_REMOTE_FIELD_SIZE_def)
  have t: "text_of [65] = ''A''" "text_of [66] = ''B''"
    by (simp_all add: text_of_def char_at_def char_of_def bit_0)
  from session_setup_as_requested [OF quic.varint_codec_axioms v, of ?c True "[]" None 2 "\<lambda>_. Inr ()" "\<lambda>_. id"] t
  show ?thesis by (auto simp: endless_fresh setup_outcome_def asked_setup_def ptys_of_def envs_of_def replies_def)
qed

text \<open>
  A request the setup does not know is answered with a failure, but its payload stays on the
  stream and is read as the next message: a subsystem request ends the whole session.
\<close>

theorem unknown_request_desynchronises:
  "\<exists>c'. session_setup quic_varint (\<lambda>_. Inr ()) (\<lambda>_. id) 2
     \<lparr>ch_reader = rd (img_setup_request quic_varint (lit ''subsystem'') True
         (img_subsystem quic_varint \<lparr>subsystem_name = lit ''sftp''\<rparr>)) None, ch_writer = fresh_writer\<rparr>
   = (Some (Inl (SSE_ReadEvent (RCE_UnexpectedMessageType 4))), c')"
proof -
  have v: "valid_ssh_string (lit ''subsystem'')"
    by (simp add: valid_ssh_string_def utf8_valid_lit ascii_def byte_of_def MAX_REMOTE_FIELD_SIZE_def)
  let ?p = "img_subsystem quic_varint \<lparr>subsystem_name = lit ''sftp''\<rparr>"
  let ?c = "\<lparr>ch_reader = rd (img_setup_request quic_varint (lit ''subsystem'') True ?p) None, ch_writer = fresh_writer\<rparr>"
  have e1: "channel_next_event quic_varint ?c = (Inr (CE_Request (lit ''subsystem'') True), ?c\<lparr>ch_reader := rd (?p @ []) None\<rparr>)"
    by (rule quic.next_event_any [OF v]) simp
  obtain w where "(answer_failure quic_varint True (?c\<lparr>ch_reader := rd (?p @ []) None\<rparr>)
      :: (session_setup_error + unit) \<times> ssh_channel) = (Inr (), \<lparr>ch_reader = rd ?p None, ch_writer = w\<rparr>)"
    by (cases "respond_failure quic_varint fresh_writer") (auto simp: answer_failure_def on_writer_def)
  moreover have p: "?p = vi_enc quic_varint 4 @ lit ''sftp''"
  proof -
    have "length (lit ''sftp'') = 4" by simp
    then show ?thesis unfolding img_subsystem_def img_ssh_string_def by (simp only: subsystem_request.simps)
  qed
  have d: "decode_varint quic_varint (rd ?p None) = (Inr 4, rd (lit ''sftp'') None)"
    unfolding p by (rule quic.dec_varint_append) (simp add: VARINT_LIMIT_def)
  have "channel_next_event quic_varint \<lparr>ch_reader = rd ?p None, ch_writer = w\<rparr>
      = (Inl (RCE_UnexpectedMessageType 4), \<lparr>ch_reader = rd (lit ''sftp'') None, ch_writer = w\<rparr>)"
    by (simp add: channel_next_event_def bindS_def on_reader_def ctx_def d) (simp add: msg_nums failS_def)
  ultimately show ?thesis using e1
    by (simp add: session_setup_def numeral_2_eq_2 bindS_def ctx_def setup_event_def setup_request_def okS_def)
qed

end
