(* ===== verification/Dispatcher.thy ===== *)
theory Dispatcher
  imports Reverse Session_Setup
begin

text \<open>
  The session dispatcher of the server (\<open>src/session/dispatcher.rs\<close>): which task a channel
  starts, how global requests start and stop forwarding listeners, and the loop of
  \<open>run_session\<close> with its cleanup. Tasks are numbered in the order they are spawned; an aborted
  task is recorded and ends some time later, which closes what it listens on.
\<close>

subsection \<open>Listeners\<close>

datatype forward_task = TcpTask tcp_forward_listener | UnixTask string

record dispatcher =
  dp_server :: server
  dp_tcp :: "(string \<times> 16 word) \<rightharpoonup> nat"
  dp_unix :: "string \<rightharpoonup> nat"
  dp_tasks :: "(nat \<times> forward_task) list"
  dp_aborted :: "nat list"
  dp_next :: nat

definition on_server :: "(server, 'e, 'a) aio \<Rightarrow> (dispatcher, 'e, 'a) aio" where
  "on_server m = (\<lambda>d. case m (dp_server d) of (v, s) \<Rightarrow> (v, d\<lparr>dp_server := s\<rparr>))"

definition on_shared :: "(conversation_shared, 'e, 'a) aio \<Rightarrow> (dispatcher, 'e, 'a) aio" where
  "on_shared m = on_server (on_conv m)"

definition spawn_tcp :: "string \<times> 16 word \<Rightarrow> tcp_forward_listener \<Rightarrow> dispatcher \<Rightarrow> dispatcher" where
  "spawn_tcp key l d = d\<lparr>dp_tasks := dp_tasks d @ [(dp_next d, TcpTask l)],
     dp_tcp := (dp_tcp d)(key \<mapsto> dp_next d), dp_next := dp_next d + 1\<rparr>"

definition spawn_unix :: "string \<Rightarrow> dispatcher \<Rightarrow> dispatcher" where
  "spawn_unix path d = d\<lparr>dp_tasks := dp_tasks d @ [(dp_next d, UnixTask path)],
     dp_unix := (dp_unix d)(path \<mapsto> dp_next d), dp_next := dp_next d + 1\<rparr>"

text \<open>Removal from the registry aborts the task; the flag says whether there was one.\<close>

definition stop_tcp :: "string \<times> 16 word \<Rightarrow> dispatcher \<Rightarrow> bool \<times> dispatcher" where
  "stop_tcp key d = (case dp_tcp d key of
       None \<Rightarrow> (False, d)
     | Some task \<Rightarrow> (True, d\<lparr>dp_tcp := (dp_tcp d)(key := None), dp_aborted := dp_aborted d @ [task]\<rparr>))"

definition stop_unix :: "string \<Rightarrow> dispatcher \<Rightarrow> bool \<times> dispatcher" where
  "stop_unix path d = (case dp_unix d path of
       None \<Rightarrow> (False, d)
     | Some task \<Rightarrow> (True, d\<lparr>dp_unix := (dp_unix d)(path := None), dp_aborted := dp_aborted d @ [task]\<rparr>))"

subsection \<open>Global requests\<close>

text \<open>The result is \<open>None\<close> while the handler waits for its turn on the control stream.\<close>

definition reply :: "varint_api \<Rightarrow> ticket \<Rightarrow> bool \<Rightarrow> dispatcher \<Rightarrow> unit option \<times> dispatcher" where
  "reply V ticket ok d =
     (case (if ok then anyway (on_shared (global_respond_success V ticket (enc_empty :: (writer, unit, unit) io))) (Inr ()) d
            else anyway (on_shared (global_respond_failure V ticket)) (Inr ()) d) of
        (None, d') \<Rightarrow> (None, d')
      | (Some (r :: unit + unit), d') \<Rightarrow> (Some (), d'))"

definition decode_request :: "(reader, 'de, 'a) io \<Rightarrow> dispatcher \<Rightarrow> ('de + 'a) \<times> dispatcher" where
  "decode_request pdec d = (case incoming_decode_payload pdec (sv_conv (dp_server d)) of
       (v, c) \<Rightarrow> (v, d\<lparr>dp_server := (dp_server d)\<lparr>sv_conv := c\<rparr>\<rparr>))"

definition poison_conversation :: "dispatcher \<Rightarrow> dispatcher" where
  "poison_conversation d = d\<lparr>dp_server := (dp_server d)\<lparr>sv_conv := incoming_drop (sv_conv (dp_server d))\<rparr>\<rparr>"

definition dispatch_tcpip_forward ::
    "varint_api \<Rightarrow> socket_api \<Rightarrow> ticket \<Rightarrow> dispatcher \<Rightarrow> unit option \<times> dispatcher" where
  "dispatch_tcpip_forward V A ticket d = (case decode_request (dec_tcpip_forward V) d of
       (Inl _, d1) \<Rightarrow> (Some (), d1)
     | (Inr req, d1) \<Rightarrow>
         (let bind_addr = canonicalize_remote_bind_host (text_of (tf_bind_address req)) in
          case on_server (accept_tcp_forward V A ticket req) d1 of
            (None, d2) \<Rightarrow> (None, d2)
          | (Some (Inl _), d2) \<Rightarrow> (Some (), d2)
          | (Some (Inr listener), d2) \<Rightarrow> (Some (), spawn_tcp (bind_addr, tl_bound_port listener) listener d2)))"

definition dispatch_cancel_tcpip_forward ::
    "varint_api \<Rightarrow> ticket \<Rightarrow> dispatcher \<Rightarrow> unit option \<times> dispatcher" where
  "dispatch_cancel_tcpip_forward V ticket d = (case decode_request (dec_cancel_tcpip_forward V) d of
       (Inl _, d1) \<Rightarrow> (Some (), d1)
     | (Inr req, d1) \<Rightarrow>
         if U16_LIMIT \<le> ct_bind_port req then reply V ticket False d1
         else case stop_tcp (canonicalize_remote_bind_host (text_of (ct_bind_address req)),
                             word_of_nat (ct_bind_port req)) d1 of
           (found, d2) \<Rightarrow> reply V ticket found d2)"

definition dispatch_streamlocal_forward ::
    "varint_api \<Rightarrow> socket_api \<Rightarrow> ticket \<Rightarrow> dispatcher \<Rightarrow> unit option \<times> dispatcher" where
  "dispatch_streamlocal_forward V A ticket d = (case decode_request (dec_streamlocal_forward V) d of
       (Inl _, d1) \<Rightarrow> (Some (), d1)
     | (Inr req, d1) \<Rightarrow>
         (case on_server (accept_unix_forward V A ticket req) d1 of
            (None, d2) \<Rightarrow> (None, d2)
          | (Some (Inl _), d2) \<Rightarrow> (Some (), d2)
          | (Some (Inr _), d2) \<Rightarrow> (Some (), spawn_unix (text_of (sf_socket_path req)) d2)))"

definition dispatch_cancel_streamlocal_forward ::
    "varint_api \<Rightarrow> ticket \<Rightarrow> dispatcher \<Rightarrow> unit option \<times> dispatcher" where
  "dispatch_cancel_streamlocal_forward V ticket d = (case decode_request (dec_cancel_streamlocal_forward V) d of
       (Inl _, d1) \<Rightarrow> (Some (), d1)
     | (Inr req, d1) \<Rightarrow>
         (case stop_unix (text_of (cs_socket_path req)) d1 of (found, d2) \<Rightarrow> reply V ticket found d2))"

definition dispatch_global ::
    "varint_api \<Rightarrow> socket_api \<Rightarrow> incoming_global \<Rightarrow> dispatcher \<Rightarrow> unit option \<times> dispatcher" where
  "dispatch_global V A incoming d = (case incoming of
       IG_Notify _ \<Rightarrow> (Some (), poison_conversation d)
     | IG_Request request_type ticket \<Rightarrow>
         if request_type = lit ''tcpip-forward'' then dispatch_tcpip_forward V A ticket d
         else if request_type = lit ''cancel-tcpip-forward'' then dispatch_cancel_tcpip_forward V ticket d
         else if request_type = lit ''streamlocal-forward@openssh.com'' then dispatch_streamlocal_forward V A ticket d
         else if request_type = lit ''cancel-streamlocal-forward@openssh.com'' then
           dispatch_cancel_streamlocal_forward V ticket d
         else (Some (), poison_conversation d))"

subsection \<open>Channels\<close>

datatype channel_task =
    SessionTask ssh_channel | DirectTcpipTask ssh_channel | DirectStreamlocalTask ssh_channel
  | Socks5Task ssh_channel

text \<open>
  What an incoming channel becomes: a task, nothing because accepting a \<open>socks5\<close> channel failed, or
  a rejection.
\<close>

datatype channel_action = Spawn channel_task | AcceptFailed ssh_channel | Rejected ssh_channel

definition dispatch_channel :: "varint_api \<Rightarrow> session_config \<Rightarrow> incoming_channel \<Rightarrow> channel_action" where
  "dispatch_channel V config incoming =
     (let ty = ic_channel_type incoming; c = skip_payload incoming in
      if ty = lit ''session'' then Spawn (SessionTask c)
      else if ty = lit ''direct-tcpip'' then Spawn (DirectTcpipTask (ic_streams incoming))
      else if ty = lit ''direct-streamlocal@openssh.com'' then Spawn (DirectStreamlocalTask (ic_streams incoming))
      else if ty = lit ''socks5'' then
        (case pending_accept V (sc_max_message_size config) c of
           (Inl _, c') \<Rightarrow> AcceptFailed c' | (Inr _, c') \<Rightarrow> Spawn (Socks5Task c'))
      else Rejected (snd (pending_reject V UNKNOWN_CHANNEL_TYPE (ssh_string_from ''unsupported channel type'') c)))"

subsection \<open>The loop\<close>

datatype run_session_outcome = ConversationClosed | SessionFinished | Shutdown

record run_state =
  rs_disp :: dispatcher
  rs_channels :: "(nat \<times> channel_task) list"
  rs_next :: nat
  rs_had_session :: bool
  rs_accept_spent :: bool

text \<open>
  What the \<open>select!\<close> of the loop observes. \<open>ChannelPoll\<close>: the pending accept was polled and is not
  ready. A join reports the result of the task, \<open>None\<close> if it panicked.
\<close>

datatype 'me run_event =
    ChannelPoll
  | ChannelResult "'me accept_channel_error + incoming_channel"
  | GlobalResult "accept_error + incoming_global"
  | ChannelJoin nat "(process_error + unit) option"
  | ForwardJoin nat
  | ShutdownToken

datatype loop_result =
    Continue run_state | Break run_session_outcome run_state | Return process_error | Panic

definition is_session :: "channel_task \<Rightarrow> bool" where
  "is_session t = (case t of SessionTask _ \<Rightarrow> True | _ \<Rightarrow> False)"

text \<open>
  The accept future that was polled to completion is replaced at the end of the branch; the
  \<open>continue\<close> after a failed \<open>socks5\<close> accept skips that. Polling a completed future panics.
\<close>

definition on_channel :: "varint_api \<Rightarrow> session_config \<Rightarrow> incoming_channel \<Rightarrow> run_state \<Rightarrow> run_state" where
  "on_channel V config incoming s = (case dispatch_channel V config incoming of
       Spawn t \<Rightarrow> s\<lparr>rs_channels := rs_channels s @ [(rs_next s, t)], rs_next := rs_next s + 1,
                    rs_had_session := rs_had_session s \<or> is_session t\<rparr>
     | AcceptFailed _ \<Rightarrow> s\<lparr>rs_accept_spent := True\<rparr>
     | Rejected _ \<Rightarrow> s)"

text \<open>A forward task that ended no longer listens.\<close>

definition task_closed :: "forward_task \<Rightarrow> server \<Rightarrow> server" where
  "task_closed t s = (case t of
       TcpTask l \<Rightarrow> s\<lparr>sv_tcp := filter (\<lambda>a. a \<notin> set (tl_listeners l)) (sv_tcp s)\<rparr>
     | UnixTask path \<Rightarrow> unix_guard_drop path s)"

definition reap_forward :: "nat \<Rightarrow> dispatcher \<Rightarrow> dispatcher" where
  "reap_forward task d = (case map_of (dp_tasks d) task of
       None \<Rightarrow> d
     | Some t \<Rightarrow> d\<lparr>dp_tasks := filter (\<lambda>(i, _). i \<noteq> task) (dp_tasks d), dp_server := task_closed t (dp_server d)\<rparr>)"

definition run_step ::
    "varint_api \<Rightarrow> socket_api \<Rightarrow> session_config \<Rightarrow> 'me run_event \<Rightarrow> run_state \<Rightarrow> loop_result option" where
  "run_step V A config ev s = (case ev of
       ChannelPoll \<Rightarrow> if rs_accept_spent s then Some Panic else Some (Continue s)
     | ChannelResult r \<Rightarrow>
         if rs_accept_spent s then Some Panic
         else (case r of
             Inl _ \<Rightarrow> Some (Break ConversationClosed s)
           | Inr incoming \<Rightarrow> Some (Continue (on_channel V config incoming s)))
     | GlobalResult r \<Rightarrow>
         (case r of
            Inl _ \<Rightarrow> Some (Break ConversationClosed s)
          | Inr incoming \<Rightarrow>
              (case dispatch_global V A incoming (rs_disp s) of
                 (None, _) \<Rightarrow> None
               | (Some _, d) \<Rightarrow> Some (Continue (s\<lparr>rs_disp := d\<rparr>))))
     | ChannelJoin task r \<Rightarrow>
         if task \<notin> fst ` set (rs_channels s) then None
         else (let s' = s\<lparr>rs_channels := filter (\<lambda>(i, _). i \<noteq> task) (rs_channels s)\<rparr> in
           case r of
             Some (Inl error) \<Rightarrow> Some (Return error)
           | _ \<Rightarrow> if rs_had_session s' \<and> rs_channels s' = [] then Some (Break SessionFinished s')
                  else Some (Continue s'))
     | ForwardJoin task \<Rightarrow>
         if task \<notin> fst ` set (dp_tasks (rs_disp s)) then None
         else Some (Continue (s\<lparr>rs_disp := reap_forward task (rs_disp s)\<rparr>))
     | ShutdownToken \<Rightarrow> Some (Break Shutdown s))"

text \<open>
  The loop over a sequence of observations: \<open>None\<close> when the next observation cannot happen, or
  when the loop is waiting inside a handler.
\<close>

fun run_loop ::
    "varint_api \<Rightarrow> socket_api \<Rightarrow> session_config \<Rightarrow> 'me run_event list \<Rightarrow> run_state \<Rightarrow> loop_result option" where
  "run_loop V A config [] s = Some (Continue s)"
| "run_loop V A config (ev # evs) s = (case run_step V A config ev s of
       Some (Continue s') \<Rightarrow> run_loop V A config evs s'
     | other \<Rightarrow> other)"

subsection \<open>The end of the loop\<close>

text \<open>
  First all channel tasks are joined, the first error being returned; then every registered
  listener is aborted and every forward task joined. That wait ends only when all forward tasks
  have ended, which an aborted task does, and any other only by itself. At last the connections
  that were accepted by listeners are awaited. Their token was cancelled before, but
  \<open>open_channel_and_relay\<close> looks at it only once the peer has answered its channel: the flag of
  \<open>RelayOpening\<close> says whether it ever does.
\<close>

datatype relay_stage = RelayOpening bool | RelayMoving

primrec join_channels :: "(process_error + unit) option list \<Rightarrow> process_error + unit" where
  "join_channels [] = Inr ()"
| "join_channels (r # rs) = (case r of Some (Inl e) \<Rightarrow> Inl e | _ \<Rightarrow> join_channels rs)"

definition abort_registered :: "dispatcher \<Rightarrow> dispatcher" where
  "abort_registered d = d\<lparr>dp_aborted := dp_aborted d
       @ filter (\<lambda>i. i \<in> ran (dp_tcp d) \<or> i \<in> ran (dp_unix d)) (map fst (dp_tasks d)),
     dp_tcp := Map.empty, dp_unix := Map.empty\<rparr>"

definition joins_forwards :: "nat set \<Rightarrow> dispatcher \<Rightarrow> bool" where
  "joins_forwards self_ended d \<longleftrightarrow> (\<forall>(i, _) \<in> set (dp_tasks d). i \<in> set (dp_aborted d) \<or> i \<in> self_ended)"

definition joins_relays :: "relay_stage list \<Rightarrow> bool" where
  "joins_relays relays \<longleftrightarrow> list_all (\<lambda>r. r \<noteq> RelayOpening False) relays"

definition finish_run ::
    "(process_error + unit) option list \<Rightarrow> nat set \<Rightarrow> relay_stage list \<Rightarrow> run_session_outcome \<Rightarrow> run_state
     \<Rightarrow> (process_error + run_session_outcome) option \<times> dispatcher" where
  "finish_run results self_ended relays outcome s = (case join_channels results of
       Inl e \<Rightarrow> (Some (Inl e), rs_disp s)
     | Inr _ \<Rightarrow>
         (let d = abort_registered (rs_disp s) in
          if joins_forwards self_ended d
          then (if joins_relays relays then Some (Inr outcome) else None,
                fold (\<lambda>(i, _). reap_forward i) (dp_tasks d) d)
          else (None, d)))"

text \<open>
  The whole session, from a token that may be cancelled already: \<open>None\<close> while it has not
  returned, which a panic never does.
\<close>

definition run_start :: "server \<Rightarrow> run_state" where
  "run_start srv = \<lparr>rs_disp = \<lparr>dp_server = srv, dp_tcp = Map.empty, dp_unix = Map.empty, dp_tasks = [],
     dp_aborted = [], dp_next = 0\<rparr>, rs_channels = [], rs_next = 0, rs_had_session = False, rs_accept_spent = False\<rparr>"

definition run_session ::
    "varint_api \<Rightarrow> socket_api \<Rightarrow> session_config \<Rightarrow> bool \<Rightarrow> 'me run_event list
     \<Rightarrow> (process_error + unit) option list \<Rightarrow> nat set \<Rightarrow> relay_stage list \<Rightarrow> server
     \<Rightarrow> (process_error + run_session_outcome) option" where
  "run_session V A config cancelled evs results self_ended relays srv =
     (if cancelled then Some (Inr Shutdown)
      else case run_loop V A config evs (run_start srv) of
        Some (Break outcome s) \<Rightarrow> fst (finish_run results self_ended relays outcome s)
      | Some (Return e) \<Rightarrow> Some (Inl e)
      | _ \<Rightarrow> None)"

end
