(* ===== verification/Forward_Registry.thy ===== *)
theory Forward_Registry
  imports Dispatcher
begin

text \<open>
  The registry of forwarding listeners: the contract that starting and stopping a listener keep,
  for TCP, for Unix sockets and for both together, the abstract registry it implements, and
  what the four forwarding requests do to it.
\<close>

subsection \<open>The contract\<close>

locale registry =
  fixes register :: "'k \<Rightarrow> 'l \<Rightarrow> 'd \<Rightarrow> 'd"
    and stop :: "'k \<Rightarrow> 'd \<Rightarrow> bool \<times> 'd"
    and active :: "'d \<Rightarrow> 'k \<rightharpoonup> nat"
    and aborted :: "'d \<Rightarrow> nat list"
    and fresh :: "'d \<Rightarrow> nat"
  assumes register_active: "active (register k l d) = (active d)(k \<mapsto> fresh d)"
    and register_aborted: "aborted (register k l d) = aborted d"
    and register_fresh: "fresh (register k l d) = Suc (fresh d)"
    and stop_found: "fst (stop k d) \<longleftrightarrow> active d k \<noteq> None"
    and stop_active: "active (snd (stop k d)) = (active d)(k := None)"
    and stop_aborted: "aborted (snd (stop k d)) = aborted d @ (case active d k of None \<Rightarrow> [] | Some i \<Rightarrow> [i])"
    and stop_fresh: "fresh (snd (stop k d)) = fresh d"
begin

lemmas registry_simps = register_active register_aborted register_fresh stop_found stop_active stop_aborted stop_fresh

text \<open>Stopping what was just started aborts exactly its task and restores the rest.\<close>

lemma start_stop:
  assumes "active d k = None"
  shows "fst (stop k (register k l d))" "active (snd (stop k (register k l d))) = active d"
    "aborted (snd (stop k (register k l d))) = aborted d @ [fresh d]"
  using assms by (auto simp: registry_simps)

lemma stop_twice: "\<not> fst (stop k (snd (stop k d)))"
  by (simp add: registry_simps)

text \<open>Task numbers are fresh, no two keys share a task, and no aborted task is registered.\<close>

lemma register_consistent:
  assumes "inj_on (active d) (dom (active d))" "\<forall>i \<in> ran (active d) \<union> set (aborted d). i < fresh d"
    and "ran (active d) \<inter> set (aborted d) = {}" "distinct (aborted d)"
  shows "inj_on (active (register k l d)) (dom (active (register k l d)))"
    "\<forall>i \<in> ran (active (register k l d)) \<union> set (aborted (register k l d)). i < fresh (register k l d)"
    "ran (active (register k l d)) \<inter> set (aborted (register k l d)) = {}"
    "distinct (aborted (register k l d))"
proof -
  have new: "fresh d \<notin> ran (active d)" "fresh d \<notin> set (aborted d)" using assms(2) by auto
  show "inj_on (active (register k l d)) (dom (active (register k l d)))"
    using assms(1) new(1) by (auto simp: register_active inj_on_def ran_def)
  have r: "ran (active (register k l d)) \<subseteq> insert (fresh d) (ran (active d))"
    by (auto simp: register_active ran_def)
  show "\<forall>i \<in> ran (active (register k l d)) \<union> set (aborted (register k l d)). i < fresh (register k l d)"
    using r assms(2) by (auto simp: register_aborted register_fresh less_Suc_eq)
  show "ran (active (register k l d)) \<inter> set (aborted (register k l d)) = {}"
    using r assms(3) new(2) by (auto simp: register_aborted)
  show "distinct (aborted (register k l d))" using assms(4) by (simp add: register_aborted)
qed

lemma stop_consistent:
  assumes "inj_on (active d) (dom (active d))" "\<forall>i \<in> ran (active d) \<union> set (aborted d). i < fresh d"
    and "ran (active d) \<inter> set (aborted d) = {}" "distinct (aborted d)"
  shows "inj_on (active (snd (stop k d))) (dom (active (snd (stop k d))))"
    "\<forall>i \<in> ran (active (snd (stop k d))) \<union> set (aborted (snd (stop k d))). i < fresh (snd (stop k d))"
    "ran (active (snd (stop k d))) \<inter> set (aborted (snd (stop k d))) = {}"
    "distinct (aborted (snd (stop k d)))"
proof -
  show "inj_on (active (snd (stop k d))) (dom (active (snd (stop k d))))"
    using assms(1) by (auto simp: stop_active inj_on_def)
  have a: "set (aborted (snd (stop k d))) = set (aborted d) \<union> set_option (active d k)"
    by (auto simp: stop_aborted split: option.splits)
  have r: "ran (active (snd (stop k d))) = ran (active d) - set_option (active d k)"
    using assms(1) by (auto simp: stop_active ran_def inj_on_def dom_def split: option.splits if_splits)
  have k: "set_option (active d k) \<subseteq> ran (active d)" by (auto simp: ran_def)
  show "\<forall>i \<in> ran (active (snd (stop k d))) \<union> set (aborted (snd (stop k d))). i < fresh (snd (stop k d))"
    using a r k assms(2) by (auto simp: stop_fresh)
  show "ran (active (snd (stop k d))) \<inter> set (aborted (snd (stop k d))) = {}"
    using a r assms(3) by auto
  show "distinct (aborted (snd (stop k d)))"
    using assms(3,4) k by (auto simp: stop_aborted split: option.splits)
qed

end

interpretation tcp: registry spawn_tcp stop_tcp dp_tcp dp_aborted dp_next
  by unfold_locales (auto simp: spawn_tcp_def stop_tcp_def split: option.splits)

interpretation unx: registry "\<lambda>path (_ :: unit). spawn_unix path" stop_unix dp_unix dp_aborted dp_next
  by unfold_locales (auto simp: spawn_unix_def stop_unix_def split: option.splits)

text \<open>Both kinds of listener together.\<close>

type_synonym forward_key = "(string \<times> 16 word) + string"

definition active_forwards :: "dispatcher \<Rightarrow> forward_key \<rightharpoonup> nat" where
  "active_forwards d key = (case key of Inl k \<Rightarrow> dp_tcp d k | Inr p \<Rightarrow> dp_unix d p)"

definition start_forward :: "forward_key \<Rightarrow> tcp_forward_listener \<Rightarrow> dispatcher \<Rightarrow> dispatcher" where
  "start_forward key l = (case key of Inl k \<Rightarrow> spawn_tcp k l | Inr p \<Rightarrow> spawn_unix p)"

definition stop_forward :: "forward_key \<Rightarrow> dispatcher \<Rightarrow> bool \<times> dispatcher" where
  "stop_forward key = (case key of Inl k \<Rightarrow> stop_tcp k | Inr p \<Rightarrow> stop_unix p)"

interpretation fw: registry start_forward stop_forward active_forwards dp_aborted dp_next
  by unfold_locales
    (auto simp: start_forward_def stop_forward_def active_forwards_def spawn_tcp_def spawn_unix_def
      stop_tcp_def stop_unix_def fun_eq_iff split: sum.splits option.splits)

subsection \<open>The four requests\<close>

abbreviation dp_conv :: "dispatcher \<Rightarrow> conversation_shared" where
  "dp_conv d \<equiv> sv_conv (dp_server d)"

primrec img_forward_request :: "varint_api \<Rightarrow> forward_global_request \<Rightarrow> bytes" where
  "img_forward_request V (TcpipForwardGlobalRequest p) = img_tcpip_forward V p"
| "img_forward_request V (CancelTcpipForwardGlobalRequest p) = img_cancel_tcpip_forward V p"
| "img_forward_request V (StreamlocalForwardGlobalRequest p) = img_streamlocal_forward V p"
| "img_forward_request V (CancelStreamlocalForwardGlobalRequest p) = img_cancel_streamlocal_forward V p"

primrec valid_forward_request :: "forward_global_request \<Rightarrow> bool" where
  "valid_forward_request (TcpipForwardGlobalRequest p) = valid_tcpip_forward p"
| "valid_forward_request (CancelTcpipForwardGlobalRequest p) = valid_cancel_tcpip_forward p"
| "valid_forward_request (StreamlocalForwardGlobalRequest p) = valid_streamlocal_forward p"
| "valid_forward_request (CancelStreamlocalForwardGlobalRequest p) = valid_cancel_streamlocal_forward p"

text \<open>\<open>same_registry\<close>: nothing was started or stopped.\<close>

definition same_registry :: "dispatcher \<Rightarrow> dispatcher \<Rightarrow> bool" where
  "same_registry d d' \<longleftrightarrow> active_forwards d' = active_forwards d \<and> dp_aborted d' = dp_aborted d
     \<and> dp_tasks d' = dp_tasks d \<and> dp_next d' = dp_next d"

text \<open>\<open>started key task\<close>: one new task, registered under \<open>key\<close>.\<close>

definition started :: "forward_key \<Rightarrow> forward_task \<Rightarrow> dispatcher \<Rightarrow> dispatcher \<Rightarrow> bool" where
  "started key task d d' \<longleftrightarrow> active_forwards d' = (active_forwards d)(key \<mapsto> dp_next d)
     \<and> dp_aborted d' = dp_aborted d \<and> dp_tasks d' = dp_tasks d @ [(dp_next d, task)] \<and> dp_next d' = dp_next d + 1"

text \<open>\<open>stopped key i\<close>: task \<open>i\<close> was registered under \<open>key\<close> and is aborted.\<close>

definition stopped :: "forward_key \<Rightarrow> nat \<Rightarrow> dispatcher \<Rightarrow> dispatcher \<Rightarrow> bool" where
  "stopped key i d d' \<longleftrightarrow> active_forwards d key = Some i \<and> active_forwards d' = (active_forwards d)(key := None)
     \<and> dp_aborted d' = dp_aborted d @ [i] \<and> dp_tasks d' = dp_tasks d \<and> dp_next d' = dp_next d"

text \<open>The abstract registry: what a request may do and answer.\<close>

definition registry_start ::
    "varint_api \<Rightarrow> forward_key set \<Rightarrow> (forward_key \<Rightarrow> bytes) \<Rightarrow> (forward_key \<Rightarrow> forward_task \<Rightarrow> bool)
     \<Rightarrow> bytes \<Rightarrow> dispatcher \<Rightarrow> dispatcher \<Rightarrow> bool" where
  "registry_start V keys payload fits_key answer d d' \<longleftrightarrow>
     (\<exists>key \<in> keys. \<exists>task. fits_key key task \<and> answer = img_success V (payload key) \<and> started key task d d')
     \<or> answer = img_failure V \<and> same_registry d d'"

definition registry_stop :: "varint_api \<Rightarrow> forward_key option \<Rightarrow> bytes \<Rightarrow> dispatcher \<Rightarrow> dispatcher \<Rightarrow> bool" where
  "registry_stop V key answer d d' \<longleftrightarrow> (case Option.bind key (active_forwards d) of
       Some i \<Rightarrow> answer = img_success V [] \<and> stopped (the key) i d d'
     | None \<Rightarrow> answer = img_failure V \<and> same_registry d d')"

definition registry_spec ::
    "varint_api \<Rightarrow> socket_api \<Rightarrow> forward_global_request \<Rightarrow> bytes \<Rightarrow> dispatcher \<Rightarrow> dispatcher \<Rightarrow> bool" where
  "registry_spec V A r answer d d' = (case r of
       TcpipForwardGlobalRequest p \<Rightarrow>
         (let host = canonicalize_remote_bind_host (text_of (tf_bind_address p)) in
          registry_start V {Inl (host, port) | port. True} (\<lambda>key. case key of Inl (_, port) \<Rightarrow> vi_enc V (unat port) | _ \<Rightarrow> [])
            (\<lambda>key task. \<exists>l. task = TcpTask l \<and> key = Inl (host, tl_bound_port l) \<and> serves A host (tf_bind_port p) l)
            answer d d')
     | StreamlocalForwardGlobalRequest p \<Rightarrow>
         registry_start V {Inr (text_of (sf_socket_path p))} (\<lambda>_. []) (\<lambda>_ task. task = UnixTask (text_of (sf_socket_path p)))
           answer d d'
     | CancelTcpipForwardGlobalRequest p \<Rightarrow>
         registry_stop V (if ct_bind_port p < 65536
           then Some (Inl (canonicalize_remote_bind_host (text_of (ct_bind_address p)), word_of_nat (ct_bind_port p)))
           else None) answer d d'
     | CancelStreamlocalForwardGlobalRequest p \<Rightarrow>
         registry_stop V (Some (Inr (text_of (cs_socket_path p)))) answer d d')"

lemma same_registry_server [simp]: "same_registry d (d\<lparr>dp_server := s\<rparr>)"
  by (simp add: same_registry_def active_forwards_def fun_eq_iff split: sum.splits)

lemma started_spawn:
  "started (Inl k) (TcpTask l) d (spawn_tcp k l (d\<lparr>dp_server := s\<rparr>))"
  "started (Inr p) (UnixTask p) d (spawn_unix p (d\<lparr>dp_server := s\<rparr>))"
  by (auto simp: started_def spawn_tcp_def spawn_unix_def active_forwards_def fun_eq_iff split: sum.splits)

lemma decode_request_run:
  assumes "pdec (in_stream (dp_conv d)) = (Inr x, r)"
  shows "\<exists>c. decode_request pdec d = (Inr x, d\<lparr>dp_server := (dp_server d)\<lparr>sv_conv := c\<rparr>\<rparr>)
    \<and> in_stream c = r \<and> sh_writer c = sh_writer (dp_conv d) \<and> poisoned c = poisoned (dp_conv d)
    \<and> auto_failures c = auto_failures (dp_conv d)"
  using assms
  by (auto simp: decode_request_def incoming_decode_payload_def with_reader_def in_stream_def release_reader_def
      guard_drop_def)

lemma our_turn_writer:
  "sh_writer c = sh_writer c' \<Longrightarrow> poisoned c = poisoned c' \<Longrightarrow> auto_failures c = auto_failures c' \<Longrightarrow>
   our_turn t c = our_turn t c' \<and> out_stream c = out_stream c'"
  by (simp add: our_turn_def out_stream_def)

lemma reply_run:
  assumes "our_turn t (dp_conv d)"
  shows "\<exists>c'. reply V t ok d = (Some (), d\<lparr>dp_server := (dp_server d)\<lparr>sv_conv := c'\<rparr>\<rparr>)
    \<and> wrote (if ok then img_success V [] else img_failure V) (dp_conv d) c'"
proof -
  have "emits (enc_empty :: (writer, unit, unit) io) []" unfolding enc_empty_def by (rule emits_ok)
  from success_turn [OF assms this, of V] failure_turn [OF assms, of V] show ?thesis
    by (auto simp: reply_def anyway_def on_shared_def on_server_def on_conv_def)
qed

definition answered :: "bytes \<Rightarrow> reader \<Rightarrow> dispatcher \<Rightarrow> dispatcher \<Rightarrow> bool" where
  "answered answer r d d' \<longleftrightarrow> w_out (out_stream (dp_conv d')) = w_out (out_stream (dp_conv d)) @ answer
     \<and> in_stream (dp_conv d') = r"

lemma wrote_answered:
  assumes "wrote answer c c'" "out_stream c = out_stream (dp_conv d)" "in_stream c = r" "dp_conv d' = c'"
  shows "answered answer r d d'"
  using assms by (simp add: wrote_def answered_def in_stream_def)

lemma stop_forward_cases:
  fixes d s key
  defines "r \<equiv> stop_forward key (d\<lparr>dp_server := s\<rparr>)"
  shows "dp_server (snd r) = s"
    and "active_forwards d key = Some i \<Longrightarrow> fst r \<and> stopped key i d (snd r\<lparr>dp_server := u\<rparr>)"
    and "active_forwards d key = None \<Longrightarrow> \<not> fst r \<and> same_registry d (snd r\<lparr>dp_server := u\<rparr>)"
  unfolding r_def
  by (auto simp: stop_forward_def stop_tcp_def stop_unix_def active_forwards_def stopped_def same_registry_def
      fun_eq_iff split: sum.splits option.splits)

text \<open>A cancellation, once decoded.\<close>

lemma stop_and_reply:
  assumes c: "our_turn t c" "out_stream c = out_stream (dp_conv d)" "in_stream c = r"
  shows "\<exists>d' answer. (case stop_forward key (d\<lparr>dp_server := (dp_server d)\<lparr>sv_conv := c\<rparr>\<rparr>) of
        (found, d2) \<Rightarrow> reply V t found d2) = (Some (), d')
    \<and> answered answer r d d' \<and> registry_stop V (Some key) answer d d'"
proof -
  let ?s = "(dp_server d)\<lparr>sv_conv := c\<rparr>"
  define found d2 where "found = fst (stop_forward key (d\<lparr>dp_server := ?s\<rparr>))"
    and "d2 = snd (stop_forward key (d\<lparr>dp_server := ?s\<rparr>))"
  note cases = stop_forward_cases [where key = key and d = d and s = ?s, folded found_def d2_def]
  have "our_turn t (dp_conv d2)" using c(1) cases(1) by simp
  from reply_run [OF this, of V found] obtain c' where c':
      "reply V t found d2 = (Some (), d2\<lparr>dp_server := (dp_server d2)\<lparr>sv_conv := c'\<rparr>\<rparr>)"
      "wrote (if found then img_success V [] else img_failure V) c c'" using cases(1) by auto
  let ?d' = "d2\<lparr>dp_server := (dp_server d2)\<lparr>sv_conv := c'\<rparr>\<rparr>"
  let ?answer = "if found then img_success V [] else img_failure V"
  have "registry_stop V (Some key) ?answer d ?d'"
    using cases(2,3) by (cases "active_forwards d key") (auto simp: registry_stop_def)
  moreover have "answered ?answer r d ?d'" using wrote_answered [OF c'(2) c(2,3)] by simp
  moreover have "stop_forward key (d\<lparr>dp_server := ?s\<rparr>) = (found, d2)" by (simp add: found_def d2_def)
  ultimately show ?thesis using c'(1) by auto
qed

lemma refuse_and_reply:
  assumes c: "our_turn t c" "out_stream c = out_stream (dp_conv d)" "in_stream c = r"
  shows "\<exists>d' answer. reply V t False (d\<lparr>dp_server := (dp_server d)\<lparr>sv_conv := c\<rparr>\<rparr>) = (Some (), d')
    \<and> answered answer r d d' \<and> registry_stop V None answer d d'"
proof -
  from reply_run [of t "d\<lparr>dp_server := (dp_server d)\<lparr>sv_conv := c\<rparr>\<rparr>" V False] c(1) obtain c' where
      "reply V t False (d\<lparr>dp_server := (dp_server d)\<lparr>sv_conv := c\<rparr>\<rparr>)
        = (Some (), d\<lparr>dp_server := (dp_server d)\<lparr>sv_conv := c'\<rparr>\<rparr>)" "wrote (img_failure V) c c'" by auto
  then show ?thesis using wrote_answered [OF _ c(2,3), of "img_failure V" c'] by (auto simp: registry_stop_def)
qed

text \<open>A Unix listener, once the request is decoded.\<close>

lemma accept_unix_run:
  assumes "our_turn t (sv_conv s)"
  shows "\<exists>r c'. accept_unix_forward V A t req s = (Some r, s\<lparr>sv_conv := c', sv_unix := sv_unix s
        @ (if is_ok r then [text_of (sf_socket_path req)] else [])\<rparr>)
    \<and> wrote (if is_ok r then img_success V [] else img_failure V) (sv_conv s) c'
    \<and> is_ok r = is_ok (so_unix_bind A (sv_unix s) (text_of (sf_socket_path req)))"
proof (cases "so_unix_bind A (sv_unix s) (text_of (sf_socket_path req))")
  case (Inl e)
  with failure_anyway [OF assms, of V "Inl (AUF_UnixBind e)"] show ?thesis
    by (auto simp: accept_unix_forward_def Let_def intro!: exI [of _ "Inl (AUF_UnixBind e)"])
next
  case (Inr u)
  have "emits (enc_empty :: (writer, unit, unit) io) []" unfolding enc_empty_def by (rule emits_ok)
  from success_turn [OF assms this, of V] Inr show ?thesis
    by (cases s) (auto simp: accept_unix_forward_def Let_def on_conv_def intro!: exI [of _ "Inr (text_of (sf_socket_path req))"])
qed

context varint_codec
begin

lemma decode_forward_request:
  assumes "in_stream (dp_conv d) = rd (img @ rest) e" "pdec (rd (img @ rest) e) = (Inr x, rd rest e)"
    and "our_turn t (dp_conv d)"
  shows "\<exists>c. decode_request pdec d = (Inr x, d\<lparr>dp_server := (dp_server d)\<lparr>sv_conv := c\<rparr>\<rparr>)
    \<and> our_turn t c \<and> out_stream c = out_stream (dp_conv d) \<and> in_stream c = rd rest e"
proof -
  have "pdec (in_stream (dp_conv d)) = (Inr x, rd rest e)" using assms(1,2) by simp
  from decode_request_run [where pdec = pdec, OF this] obtain c where
      "decode_request pdec d = (Inr x, d\<lparr>dp_server := (dp_server d)\<lparr>sv_conv := c\<rparr>\<rparr>)" "in_stream c = rd rest e"
      "sh_writer c = sh_writer (dp_conv d)" "poisoned c = poisoned (dp_conv d)"
      "auto_failures c = auto_failures (dp_conv d)" by blast
  with our_turn_writer [of c "dp_conv d" t] assms(3) show ?thesis by blast
qed

lemma dispatch_tcpip_run:
  assumes "socket_laws A" "our_turn t (dp_conv d)" "valid_tcpip_forward p"
    and "in_stream (dp_conv d) = rd (img_tcpip_forward V p @ rest) e"
  shows "\<exists>d' answer. dispatch_tcpip_forward V A t d = (Some (), d') \<and> answered answer (rd rest e) d d'
    \<and> registry_spec V A (TcpipForwardGlobalRequest p) answer d d'"
proof -
  from decode_forward_request [OF assms(4) _ assms(2), of "dec_tcpip_forward V"] forward_dec_img(1) [OF assms(3)]
  obtain c where c: "decode_request (dec_tcpip_forward V) d = (Inr p, d\<lparr>dp_server := (dp_server d)\<lparr>sv_conv := c\<rparr>\<rparr>)"
      "our_turn t c" "out_stream c = out_stream (dp_conv d)" "in_stream c = rd rest e" by auto
  let ?s = "(dp_server d)\<lparr>sv_conv := c\<rparr>"
  have "our_turn t (sv_conv ?s)" using c(2) by simp
  from accept_tcp_forward_run [OF assms(1) this, of V p] obtain r s' where
    a: "accept_tcp_forward V A t p ?s = (Some r, s')" "case r of
       Inr l \<Rightarrow> wrote (img_success V (vi_enc V (unat (tl_bound_port l)))) (sv_conv ?s) (sv_conv s')
         \<and> sv_tcp s' = sv_tcp ?s @ tl_listeners l \<and> sv_unix s' = sv_unix ?s \<and> tf_bind_port p < 65536
         \<and> serves A (canonicalize_remote_bind_host (text_of (tf_bind_address p))) (tf_bind_port p) l
     | Inl e \<Rightarrow> wrote (img_failure V) (sv_conv ?s) (sv_conv s') \<and> sv_tcp s' = sv_tcp ?s \<and> sv_unix s' = sv_unix ?s"
    by blast
  then have r: "accept_tcp_forward V A t p ?s = (Some r, s')" "case r of
       Inr l \<Rightarrow> wrote (img_success V (vi_enc V (unat (tl_bound_port l)))) c (sv_conv s')
         \<and> serves A (canonicalize_remote_bind_host (text_of (tf_bind_address p))) (tf_bind_port p) l
     | Inl e \<Rightarrow> wrote (img_failure V) c (sv_conv s')" by (cases r; simp)+
  show ?thesis
  proof (cases r)
    case (Inl x)
    with r have "answered (img_failure V) (rd rest e) d (d\<lparr>dp_server := s'\<rparr>)"
      by (intro wrote_answered [OF _ c(3,4)]) auto
    moreover have "dispatch_tcpip_forward V A t d = (Some (), d\<lparr>dp_server := s'\<rparr>)"
      using c(1) r(1) Inl by (simp add: dispatch_tcpip_forward_def on_server_def Let_def)
    ultimately show ?thesis by (auto simp: registry_spec_def registry_start_def)
  next
    case (Inr l)
    let ?host = "canonicalize_remote_bind_host (text_of (tf_bind_address p))"
    let ?d' = "spawn_tcp (?host, tl_bound_port l) l (d\<lparr>dp_server := s'\<rparr>)"
    let ?answer = "img_success V (vi_enc V (unat (tl_bound_port l)))"
    have "dispatch_tcpip_forward V A t d = (Some (), ?d')"
      using c(1) r(1) Inr by (simp add: dispatch_tcpip_forward_def on_server_def Let_def)
    moreover have "answered ?answer (rd rest e) d ?d'"
      using r(2) Inr by (intro wrote_answered [OF _ c(3,4)]) (auto simp: spawn_tcp_def)
    moreover have "registry_spec V A (TcpipForwardGlobalRequest p) ?answer d ?d'"
      unfolding registry_spec_def registry_start_def forward_global_request.case Let_def
      using started_spawn(1) [of "(?host, tl_bound_port l)" l d s'] r(2) Inr
      by (intro disjI1 bexI [of _ "Inl (?host, tl_bound_port l)"] exI [of _ "TcpTask l"]) simp_all
    ultimately show ?thesis by blast
  qed
qed

lemma dispatch_streamlocal_run:
  assumes "our_turn t (dp_conv d)" "valid_streamlocal_forward p"
    and "in_stream (dp_conv d) = rd (img_streamlocal_forward V p @ rest) e"
  shows "\<exists>d' answer. dispatch_streamlocal_forward V A t d = (Some (), d') \<and> answered answer (rd rest e) d d'
    \<and> registry_spec V A (StreamlocalForwardGlobalRequest p) answer d d'"
proof -
  from decode_forward_request [OF assms(3) _ assms(1), of "dec_streamlocal_forward V"] forward_dec_img(6) [OF assms(2)]
  obtain c where c: "decode_request (dec_streamlocal_forward V) d = (Inr p, d\<lparr>dp_server := (dp_server d)\<lparr>sv_conv := c\<rparr>\<rparr>)"
      "our_turn t c" "out_stream c = out_stream (dp_conv d)" "in_stream c = rd rest e" by auto
  let ?s = "(dp_server d)\<lparr>sv_conv := c\<rparr>"
  from accept_unix_run [of t ?s V A p] c(2) obtain r s' where
    r: "accept_unix_forward V A t p ?s = (Some r, s')"
      "wrote (if is_ok r then img_success V [] else img_failure V) c (sv_conv s')" by fastforce
  let ?d' = "if is_ok r then spawn_unix (text_of (sf_socket_path p)) (d\<lparr>dp_server := s'\<rparr>) else d\<lparr>dp_server := s'\<rparr>"
  let ?answer = "if is_ok r then img_success V [] else img_failure V"
  have "dispatch_streamlocal_forward V A t d = (Some (), ?d')"
    using c(1) r(1) by (cases r) (simp_all add: dispatch_streamlocal_forward_def on_server_def Let_def)
  moreover have "answered ?answer (rd rest e) d ?d'"
    by (rule wrote_answered [OF r(2) c(3,4)]) (simp add: spawn_unix_def)
  moreover have "registry_spec V A (StreamlocalForwardGlobalRequest p) ?answer d ?d'"
    using started_spawn(2) by (auto simp: registry_spec_def registry_start_def)
  ultimately show ?thesis by blast
qed

lemma dispatch_cancel_tcpip_run:
  assumes "our_turn t (dp_conv d)" "valid_cancel_tcpip_forward p"
    and "in_stream (dp_conv d) = rd (img_cancel_tcpip_forward V p @ rest) e"
  shows "\<exists>d' answer. dispatch_cancel_tcpip_forward V t d = (Some (), d') \<and> answered answer (rd rest e) d d'
    \<and> registry_spec V A (CancelTcpipForwardGlobalRequest p) answer d d'"
proof -
  from decode_forward_request [OF assms(3) _ assms(1), of "dec_cancel_tcpip_forward V"] forward_dec_img(3) [OF assms(2)]
  obtain c where c: "decode_request (dec_cancel_tcpip_forward V) d = (Inr p, d\<lparr>dp_server := (dp_server d)\<lparr>sv_conv := c\<rparr>\<rparr>)"
      "our_turn t c" "out_stream c = out_stream (dp_conv d)" "in_stream c = rd rest e" by auto
  let ?key = "Inl (canonicalize_remote_bind_host (text_of (ct_bind_address p)), word_of_nat (ct_bind_port p))"
  show ?thesis
  proof (cases "ct_bind_port p < 65536")
    case True
    with stop_and_reply [OF c(2-4), where key = ?key and V = V] c(1) show ?thesis
      by (simp add: dispatch_cancel_tcpip_forward_def U16_LIMIT_def registry_spec_def stop_forward_def)
  next
    case False
    with refuse_and_reply [OF c(2-4), where V = V] c(1) show ?thesis
      by (simp add: dispatch_cancel_tcpip_forward_def U16_LIMIT_def registry_spec_def)
  qed
qed

lemma dispatch_cancel_streamlocal_run:
  assumes "our_turn t (dp_conv d)" "valid_cancel_streamlocal_forward p"
    and "in_stream (dp_conv d) = rd (img_cancel_streamlocal_forward V p @ rest) e"
  shows "\<exists>d' answer. dispatch_cancel_streamlocal_forward V t d = (Some (), d') \<and> answered answer (rd rest e) d d'
    \<and> registry_spec V A (CancelStreamlocalForwardGlobalRequest p) answer d d'"
proof -
  from decode_forward_request [OF assms(3) _ assms(1), of "dec_cancel_streamlocal_forward V"] forward_dec_img(7) [OF assms(2)]
  obtain c where c: "decode_request (dec_cancel_streamlocal_forward V) d = (Inr p, d\<lparr>dp_server := (dp_server d)\<lparr>sv_conv := c\<rparr>\<rparr>)"
      "our_turn t c" "out_stream c = out_stream (dp_conv d)" "in_stream c = rd rest e" by auto
  with stop_and_reply [OF c(2-4), where key = "Inr (text_of (cs_socket_path p))" and V = V] show ?thesis
    by (simp add: dispatch_cancel_streamlocal_forward_def registry_spec_def stop_forward_def)
qed

end

text \<open>
  C5: the forwarding registry. In its turn, each of the four forwarding requests does to the
  registry of listeners exactly what the abstract registry does, and the answer on the control
  stream says so: a start registers one new task, which serves the requested address on the
  port reported, or fails and changes nothing; a cancellation aborts exactly the task registered
  under the address, in any of its spellings, and fails, changing nothing, if there is none. The
  request is consumed to its end.
\<close>

theorem forward_registry_refined:
  assumes "varint_codec V" "socket_laws A" "our_turn t (dp_conv d)" "valid_forward_request r"
    and "in_stream (dp_conv d) = rd (img_forward_request V r @ rest) e"
  shows "\<exists>d' answer. dispatch_global V A (IG_Request (forward_request_type r) t) d = (Some (), d')
    \<and> w_out (out_stream (dp_conv d')) = w_out (out_stream (dp_conv d)) @ answer
    \<and> in_stream (dp_conv d') = rd rest e \<and> registry_spec V A r answer d d'"
proof (cases r)
  case (TcpipForwardGlobalRequest p)
  with varint_codec.dispatch_tcpip_run [OF assms(1,2,3), of p rest e] assms(4,5) show ?thesis
    by (simp add: dispatch_global_def answered_def ssh_string_from_static_def)
next
  case (CancelTcpipForwardGlobalRequest p)
  with varint_codec.dispatch_cancel_tcpip_run [OF assms(1,3), of p rest e] assms(4,5) show ?thesis
    by (simp add: dispatch_global_def answered_def ssh_string_from_static_def)
next
  case (StreamlocalForwardGlobalRequest p)
  with varint_codec.dispatch_streamlocal_run [OF assms(1,3), of p rest e A] assms(4,5) show ?thesis
    by (simp add: dispatch_global_def answered_def ssh_string_from_static_def)
next
  case (CancelStreamlocalForwardGlobalRequest p)
  with varint_codec.dispatch_cancel_streamlocal_run [OF assms(1,3), of p rest e] assms(4,5) show ?thesis
    by (simp add: dispatch_global_def answered_def ssh_string_from_static_def)
qed

definition idle_server :: "bytes \<Rightarrow> server" where
  "idle_server input = quiet_server\<lparr>sv_conv := conversation_shared_new (rd input None) fresh_writer\<rparr>"

abbreviation idle_dispatcher :: "bytes \<Rightarrow> dispatcher" where
  "idle_dispatcher input \<equiv> rs_disp (run_start (idle_server input))"

lemmas idle_dispatcher_def = run_start_def idle_server_def

lemma idle_turn:
  "our_turn 0 (dp_conv (idle_dispatcher input))" "in_stream (dp_conv (idle_dispatcher input)) = rd input None"
  by (simp_all add: our_turn_def idle_dispatcher_def quiet_server_def conversation_shared_new_def
      ordered_access_new_def out_stream_def in_stream_def endless_fresh)

theorem forward_registry_refined_witness:
  "let r = CancelTcpipForwardGlobalRequest \<lparr>ct_bind_address = lit ''*'', ct_bind_port = 80\<rparr>;
       d = (idle_dispatcher (img_forward_request quic_varint r))\<lparr>dp_tcp := [([], 80) \<mapsto> 3], dp_next := 4\<rparr>
   in \<exists>d'. dispatch_global quic_varint any_socket (IG_Request (forward_request_type r) 0) d = (Some (), d')
        \<and> w_out (out_stream (dp_conv d')) = img_success quic_varint [] \<and> dp_aborted d' = [3]"
proof -
  let ?r = "CancelTcpipForwardGlobalRequest \<lparr>ct_bind_address = lit ''*'', ct_bind_port = 80\<rparr>"
  let ?d = "(idle_dispatcher (img_forward_request quic_varint ?r))\<lparr>dp_tcp := [([], 80) \<mapsto> 3], dp_next := 4\<rparr>"
  have "valid_ssh_string (lit ''*'')"
    by (simp add: valid_ssh_string_def utf8_valid_lit ascii_def byte_of_def MAX_REMOTE_FIELD_SIZE_def)
  then have v: "valid_forward_request ?r" by (simp add: valid_cancel_tcpip_forward_def VARINT_LIMIT_def)
  have t: "our_turn 0 (dp_conv ?d)" "in_stream (dp_conv ?d) = rd (img_forward_request quic_varint ?r @ []) None"
      "w_out (out_stream (dp_conv ?d)) = []"
    using idle_turn [of "img_forward_request quic_varint ?r"]
    by (simp_all add: idle_dispatcher_def quiet_server_def conversation_shared_new_def ordered_access_new_def out_stream_def)
  from forward_registry_refined [OF quic.varint_codec_axioms any_socket_laws t(1) v t(2)] obtain d' answer where
      d': "dispatch_global quic_varint any_socket (IG_Request (forward_request_type ?r) 0) ?d = (Some (), d')"
      "w_out (out_stream (dp_conv d')) = answer" "registry_spec quic_varint any_socket ?r answer ?d d'"
    using t(3) by auto
  have "active_forwards ?d (Inl ([], 80)) = Some 3" "dp_aborted ?d = []"
    by (simp_all add: active_forwards_def idle_dispatcher_def)
  then have "answer = img_success quic_varint [] \<and> dp_aborted d' = [3]"
    using d'(3) by (simp add: registry_spec_def registry_stop_def stopped_def canonicalize_remote_bind_host_def
        CANONICAL_REMOTE_WILDCARD_HOST_def)
  with d'(1,2) show ?thesis unfolding Let_def by blast
qed

text \<open>
  A consistent registry: no two addresses share a task, task numbers are fresh, and no aborted
  task is registered or aborted again.
\<close>

definition registry_inv :: "dispatcher \<Rightarrow> bool" where
  "registry_inv d \<longleftrightarrow> inj_on (active_forwards d) (dom (active_forwards d))
     \<and> (\<forall>i \<in> ran (active_forwards d) \<union> set (dp_aborted d). i < dp_next d)
     \<and> ran (active_forwards d) \<inter> set (dp_aborted d) = {} \<and> distinct (dp_aborted d)"

lemma registry_inv_ops:
  assumes "registry_inv d"
  shows "registry_inv (start_forward key l d)" "registry_inv (snd (stop_forward key d))"
  using assms fw.register_consistent [of d key l] fw.stop_consistent [of d key] by (auto simp: registry_inv_def)

lemma registry_inv_frame:
  "active_forwards d' = active_forwards d \<Longrightarrow> dp_aborted d' = dp_aborted d \<Longrightarrow> dp_next d' = dp_next d \<Longrightarrow>
   registry_inv d' = registry_inv d"
  by (simp add: registry_inv_def)

end
