(* ===== verification/Forward_Client.thy ===== *)
theory Forward_Client
  imports Forward_Spec Forward_Registry
begin

text \<open>
  The client side of forwarding (\<open>src/forward/client.rs\<close>): the accept loops of local forwards, the
  request of a remote forward, and the channels the server opens for it. Listening and connecting
  on the local host are parameters. The last part composes client and server.
\<close>

subsection \<open>Originators, keys and errors\<close>

record direct_originator =
  do_host :: string
  do_port :: "16 word"

definition originator_from_socket_addr :: "socket_addr \<Rightarrow> direct_originator" where
  "originator_from_socket_addr addr = \<lparr>do_host = show_ip addr, do_port = sock_port addr\<rparr>"

definition originator_placeholder :: direct_originator where
  "originator_placeholder = \<lparr>do_host = ''127.0.0.1'', do_port = 65535\<rparr>"

definition remote_forward_bind_key :: "endpoint \<Rightarrow> (string \<times> 16 word) option" where
  "remote_forward_bind_key e = (case e of
       Tcp host bind_port \<Rightarrow> Some (canonicalize_remote_bind_host host, bind_port)
     | Unix _ \<Rightarrow> None)"

definition forwarded_tcpip_bind_key :: "string \<Rightarrow> 16 word \<Rightarrow> string \<times> 16 word" where
  "forwarded_tcpip_bind_key host bind_port = (canonicalize_remote_bind_host host, bind_port)"

datatype bind_local_forward_error = BLF_TcpBind io_error | BLF_UnixBind io_error

datatype request_error = RequestError string

datatype request_remote_forward_error =
    TcpForwardRejected | StreamlocalForwardRejected
  | TcpForwardRequest request_error | StreamlocalForwardRequest request_error

primrec send_request_error_display :: "('pe, 'se) send_request_error \<Rightarrow> string" where
  "send_request_error_display (SR_EncodeMessageType _) = ''failed to encode request message type''"
| "send_request_error_display (SR_EncodeRequestType _) = ''failed to encode request type string''"
| "send_request_error_display (SR_EncodeWantReply _) = ''failed to encode want_reply flag''"
| "send_request_error_display (SR_EncodePayload _) = ''failed to encode request payload''"
| "send_request_error_display (SR_Flush _) = ''failed to flush control stream after request''"
| "send_request_error_display (SR_DecodeResponseType _) = ''failed to decode response message type''"
| "send_request_error_display (SR_DecodeSuccess _) = ''failed to decode success response''"
| "send_request_error_display SR_Rejected = ''global request was rejected by remote''"
| "send_request_error_display (SR_UnexpectedResponseType n) = ''unexpected response message type '' @ show_nat n"
| "send_request_error_display SR_SessionPoisoned = ''session has been poisoned''"

record remote_forward_established =
  re_bind :: endpoint
  re_connect :: "endpoint option"

subsection \<open>Local forwards\<close>

text \<open>
  The channel a connection opens. The relay of the two directions runs on disjoint streams; its
  result holds the two ends, the channel and the local stream.
\<close>

definition direct_open :: "endpoint \<Rightarrow> direct_originator \<Rightarrow> channel_open" where
  "direct_open connect originator = (case connect of
       Tcp host dest_port \<Rightarrow> OpenDirectTcpip
         \<lparr>dt_dest_host = ssh_string_from host, dt_dest_port = unat dest_port,
          dt_originator_host = ssh_string_from (do_host originator), dt_originator_port = unat (do_port originator)\<rparr>
     | Unix path \<Rightarrow> OpenDirectStreamlocal \<lparr>ds_socket_path = ssh_string_from path\<rparr>)"

definition client_channel_and_relay ::
    "varint_api \<Rightarrow> nat \<Rightarrow> 'me + reader \<times> writer \<Rightarrow> endpoint \<Rightarrow> direct_originator \<Rightarrow> ssh_channel
     \<Rightarrow> (ssh_channel \<times> ssh_channel) option" where
  "client_channel_and_relay V lag bi connect originator local =
     (let opening = direct_open connect originator in
      case open_channel V bi (channel_type opening) (channel_open_payload V opening) DEFAULT_MAX_MESSAGE_SIZE of
        Inl _ \<Rightarrow> None
      | Inr c \<Rightarrow> (case snd (relay_bidirectional lag c local) of (c', local') \<Rightarrow> Some (c', local')))"

text \<open>
  The local host: binding a listener and connecting, by host and port or by path.
\<close>

record local_host =
  lh_bind_tcp :: "string \<Rightarrow> 16 word \<Rightarrow> io_error + unit"
  lh_bind_unix :: "string \<Rightarrow> io_error + unit"
  lh_connect_tcp :: "string \<Rightarrow> 16 word \<Rightarrow> io_error + ssh_channel"
  lh_connect_unix :: "string \<Rightarrow> io_error + ssh_channel"

text \<open>
  The accept loops over what \<open>accept\<close> answers; the relays spawned so far. An error is skipped.
\<close>

fun accept_loop_tcp ::
    "endpoint \<Rightarrow> (io_error + ssh_channel \<times> socket_addr) list
     \<Rightarrow> (endpoint \<times> direct_originator \<times> ssh_channel) list" where
  "accept_loop_tcp connect [] = []"
| "accept_loop_tcp connect (Inl _ # evs) = accept_loop_tcp connect evs"
| "accept_loop_tcp connect (Inr (stream, peer) # evs) =
     (connect, originator_from_socket_addr peer, stream) # accept_loop_tcp connect evs"

fun accept_loop_unix ::
    "endpoint \<Rightarrow> (io_error + ssh_channel \<times> socket_addr) list
     \<Rightarrow> (endpoint \<times> direct_originator \<times> ssh_channel) list" where
  "accept_loop_unix connect [] = []"
| "accept_loop_unix connect (Inl _ # evs) = accept_loop_unix connect evs"
| "accept_loop_unix connect (Inr (stream, _) # evs) =
     (connect, originator_placeholder, stream) # accept_loop_unix connect evs"

definition local_forward_run ::
    "local_host \<Rightarrow> local_forward \<Rightarrow> (io_error + ssh_channel \<times> socket_addr) list
     \<Rightarrow> bind_local_forward_error + (endpoint \<times> direct_originator \<times> ssh_channel) list" where
  "local_forward_run H f evs = (case local_bind f of
       Tcp host bind_port \<Rightarrow>
         (case lh_bind_tcp H (if host = [] \<or> host = ''*'' then ''0.0.0.0'' else host) bind_port of
            Inl e \<Rightarrow> Inl (BLF_TcpBind e)
          | Inr _ \<Rightarrow> Inr (accept_loop_tcp (local_connect f) evs))
     | Unix path \<Rightarrow>
         (case lh_bind_unix H path of
            Inl e \<Rightarrow> Inl (BLF_UnixBind e)
          | Inr _ \<Rightarrow> Inr (accept_loop_unix (local_connect f) evs)))"

subsection \<open>Remote forwards\<close>

definition mapA :: "('e \<Rightarrow> 'f) \<Rightarrow> ('a \<Rightarrow> 'b) \<Rightarrow> ('s, 'e, 'a) aio \<Rightarrow> ('s, 'f, 'b) aio" where
  "mapA f g m = (\<lambda>s. case m s of
       (None, t) \<Rightarrow> (None, t)
     | (Some (Inl e), t) \<Rightarrow> (Some (Inl (f e)), t)
     | (Some (Inr x), t) \<Rightarrow> (Some (Inr (g x)), t))"

text \<open>The port of the reply is cut to 16 bits.\<close>

definition remote_forward_request ::
    "varint_api \<Rightarrow> remote_forward
     \<Rightarrow> (conversation_shared, request_remote_forward_error, remote_forward_established) aio" where
  "remote_forward_request V f = (case remote_bind f of
       Tcp host bind_port \<Rightarrow>
         (let canonical_host = canonicalize_remote_bind_host host;
              request = TcpipForwardGlobalRequest
                \<lparr>tf_bind_address = ssh_string_from canonical_host, tf_bind_port = unat bind_port\<rparr>
          in mapA (TcpForwardRequest \<circ> RequestError \<circ> send_request_error_display)
               (\<lambda>reply. \<lparr>re_bind = Tcp canonical_host (word_of_nat (tr_allocated_port reply)),
                         re_connect = remote_connect f\<rparr>)
               (send_global_request V (forward_request_type request) (forward_request_payload V request)
                 (dec_tcpip_forward_reply V)))
     | Unix path \<Rightarrow>
         (let request = StreamlocalForwardGlobalRequest \<lparr>sf_socket_path = ssh_string_from path\<rparr>
          in mapA (StreamlocalForwardRequest \<circ> RequestError \<circ> send_request_error_display)
               (\<lambda>_. \<lparr>re_bind = Unix path, re_connect = remote_connect f\<rparr>)
               (send_global_request V (forward_request_type request) (forward_request_payload V request)
                 (dec_empty :: (reader, forward_error, unit) io))))"

subsection \<open>Forwarded channels\<close>

definition connect_locally :: "local_host \<Rightarrow> endpoint \<Rightarrow> io_error + ssh_channel" where
  "connect_locally H e = (case e of Tcp host dest_port \<Rightarrow> lh_connect_tcp H host dest_port | Unix path \<Rightarrow> lh_connect_unix H path)"

definition handle_forwarded_channel ::
    "varint_api \<Rightarrow> nat \<Rightarrow> local_host \<Rightarrow> ssh_channel \<Rightarrow> endpoint \<Rightarrow> ssh_channel \<times> ssh_channel option" where
  "handle_forwarded_channel V lag H pending connect = (case connect_locally H connect of
       Inl _ \<Rightarrow> (snd (pending_reject V 2 (ssh_string_from_static ''connect failed'') pending), None)
     | Inr local \<Rightarrow>
         (case pending_accept V DEFAULT_MAX_MESSAGE_SIZE pending of
            (Inl _, c) \<Rightarrow> (c, Some local)
          | (Inr _, c) \<Rightarrow> (case snd (relay_bidirectional lag c local) of (c', local') \<Rightarrow> (c', Some local'))))"

text \<open>What an incoming channel becomes: nothing, a rejection, or a relay to an endpoint.\<close>

datatype forwarded_action = Dropped | Refused ssh_channel | Relayed ssh_channel endpoint

definition no_matching_forward :: "varint_api \<Rightarrow> ssh_channel \<Rightarrow> forwarded_action" where
  "no_matching_forward V pending = Refused (snd (pending_reject V 2 (ssh_string_from_static ''no matching forward'') pending))"

definition relay_to_mapping ::
    "varint_api \<Rightarrow> remote_forward_established option \<Rightarrow> ssh_channel \<Rightarrow> forwarded_action" where
  "relay_to_mapping V mapping pending = (case mapping of
       Some m \<Rightarrow> (case re_connect m of Some connect \<Rightarrow> Relayed pending connect | None \<Rightarrow> no_matching_forward V pending)
     | None \<Rightarrow> no_matching_forward V pending)"

definition accept_forwarded ::
    "varint_api \<Rightarrow> remote_forward_established list \<Rightarrow> incoming_channel \<Rightarrow> forwarded_action" where
  "accept_forwarded V mappings incoming =
     (if ic_channel_type incoming = lit ''forwarded-tcpip'' then
        (case channel_decode_payload (dec_forwarded_tcpip V) incoming of
           Inl _ \<Rightarrow> Dropped
         | Inr (payload, pending) \<Rightarrow>
             (let server_port = word_of_nat (ft_connected_port payload);
                  server_addr = text_of (ft_connected_address payload);
                  incoming_key = forwarded_tcpip_bind_key server_addr server_port
              in relay_to_mapping V (List.find (\<lambda>m. remote_forward_bind_key (re_bind m) = Some incoming_key) mappings)
                   pending))
      else if ic_channel_type incoming = lit ''forwarded-streamlocal@openssh.com'' then
        (case channel_decode_payload (dec_forwarded_streamlocal V) incoming of
           Inl _ \<Rightarrow> Dropped
         | Inr (payload, pending) \<Rightarrow>
             relay_to_mapping V (List.find (\<lambda>m. re_bind m = Unix (text_of (fs_socket_path payload))) mappings) pending)
      else
        (case channel_decode_payload (dec_forwarded_tcpip V) incoming of
           Inl _ \<Rightarrow> Dropped
         | Inr (_, pending) \<Rightarrow>
             Refused (snd (pending_reject V 1 (ssh_string_from_static ''unsupported channel type'') pending))))"

text \<open>The loop over what accepting a channel answers.\<close>

fun accept_forwarded_channels ::
    "varint_api \<Rightarrow> remote_forward_established list \<Rightarrow> ('me accept_channel_error + incoming_channel) list
     \<Rightarrow> forwarded_action list" where
  "accept_forwarded_channels V mappings [] = []"
| "accept_forwarded_channels V mappings (Inl _ # evs) = []"
| "accept_forwarded_channels V mappings (Inr incoming # evs) =
     accept_forwarded V mappings incoming # accept_forwarded_channels V mappings evs"

subsection \<open>Channels on the wire\<close>

primrec img_open_payload :: "varint_api \<Rightarrow> channel_open \<Rightarrow> bytes" where
  "img_open_payload V SessionChannelOpen = []"
| "img_open_payload V (OpenDirectTcpip p) = img_direct_tcpip V p"
| "img_open_payload V (OpenForwardedTcpip p) = img_forwarded_tcpip V p"
| "img_open_payload V (OpenDirectStreamlocal p) = img_direct_streamlocal V p"
| "img_open_payload V (OpenForwardedStreamlocal p) = img_forwarded_streamlocal V p"
| "img_open_payload V Socks5ChannelOpen = []"

primrec valid_open :: "channel_open \<Rightarrow> bool" where
  "valid_open SessionChannelOpen = True"
| "valid_open (OpenDirectTcpip p) = valid_direct_tcpip p"
| "valid_open (OpenForwardedTcpip p) = valid_forwarded_tcpip p"
| "valid_open (OpenDirectStreamlocal p) = valid_direct_streamlocal p"
| "valid_open (OpenForwardedStreamlocal p) = valid_forwarded_streamlocal p"
| "valid_open Socks5ChannelOpen = True"

definition wire_open :: "varint_api \<Rightarrow> channel_open \<Rightarrow> bytes" where
  "wire_open V op = vi_enc V DSHELL_CHANNEL_STREAM_KIND
     @ img_open V DEFAULT_MAX_MESSAGE_SIZE (channel_type op) (img_open_payload V op)"

lemma open_payload_emits: "valid_open op \<Longrightarrow> emits (channel_open_payload V op) (img_open_payload V op)"
  by (cases op) (simp_all add: forward_emits enc_empty_def emits_ok)

lemma channel_type_valid: "valid_ssh_string (channel_type op)"
  by (cases op) (simp_all add: ssh_string_from_static_def valid_ssh_string_def utf8_valid_lit ascii_def byte_of_def
      MAX_REMOTE_FIELD_SIZE_def)

lemma default_size_limit: "DEFAULT_MAX_MESSAGE_SIZE < VARINT_LIMIT"
  by (simp add: DEFAULT_MAX_MESSAGE_SIZE_def VARINT_LIMIT_def)

lemma open_wire:
  assumes "varint_codec V" "valid_open op" "endless w" "w_out w = []"
  shows "\<exists>w'. open_channel V (Inr (rd (img_confirmation V DEFAULT_MAX_MESSAGE_SIZE @ bs) None, w) :: 'me + reader \<times> writer)
        (channel_type op) (channel_open_payload V op) DEFAULT_MAX_MESSAGE_SIZE = Inr \<lparr>ch_reader = rd bs None, ch_writer = w'\<rparr>
    \<and> endless w' \<and> w_out w' = wire_open V op"
  using open_channel_endless [OF assms(1) channel_type_valid open_payload_emits [OF assms(2)] assms(3) default_size_limit,
      where 'me = 'me] assms(4)
  by (fastforce simp: wire_open_def)

lemma accept_wire:
  assumes "varint_codec V"
  shows "accept_channel V (Inr (rd (wire_open V op @ bs) None, w) :: 'me + reader \<times> writer)
    = Inr \<lparr>ic_channel_type = channel_type op, ic_max_message_size = DEFAULT_MAX_MESSAGE_SIZE,
           ic_streams = \<lparr>ch_reader = rd (img_open_payload V op @ bs) None, ch_writer = w\<rparr>\<rparr>"
proof -
  have "rd (wire_open V op @ bs) None = rd (vi_enc V DSHELL_CHANNEL_STREAM_KIND
      @ img_open V DEFAULT_MAX_MESSAGE_SIZE (channel_type op) (img_open_payload V op) @ bs) None"
    by (simp add: wire_open_def)
  then show ?thesis
    using accept_channel_img [OF assms channel_type_valid default_size_limit, where 'me = 'me] by simp
qed

text \<open>
  \<open>relays_with bs local far sent\<close>: a local stream whose input is \<open>bs\<close> ends up with \<open>sent\<close> on its
  output and is shut down.
\<close>

definition got :: "ssh_channel \<Rightarrow> bytes \<Rightarrow> ssh_channel \<Rightarrow> bool" where
  "got before bs after \<longleftrightarrow> w_out (ch_writer after) = w_out (ch_writer before) @ bs \<and> w_shut (ch_writer after)"

definition sends_then_ends :: "bytes \<Rightarrow> ssh_channel \<Rightarrow> bool" where
  "sends_then_ends bs c \<longleftrightarrow> ch_reader c = rd bs None \<and> endless (ch_writer c)"

lemma client_relays:
  assumes "varint_codec V" "valid_open (direct_open target originator)" "endless w" "w_out w = []" "sends_then_ends bl local"
  shows "\<exists>c' local'. client_channel_and_relay V lag
        (Inr (rd (img_confirmation V DEFAULT_MAX_MESSAGE_SIZE @ bt) None, w) :: 'me + reader \<times> writer) target originator local
        = Some (c', local')
    \<and> w_out (ch_writer c') = wire_open V (direct_open target originator) @ bl \<and> w_shut (ch_writer c') \<and> got local bt local'"
proof -
  from open_wire [OF assms(1-4), where 'me = 'me] obtain w' where w':
    "open_channel V (Inr (rd (img_confirmation V DEFAULT_MAX_MESSAGE_SIZE @ bt) None, w) :: 'me + reader \<times> writer)
        (channel_type (direct_open target originator)) (channel_open_payload V (direct_open target originator))
        DEFAULT_MAX_MESSAGE_SIZE = Inr \<lparr>ch_reader = rd bt None, ch_writer = w'\<rparr>"
    "endless w'" "w_out w' = wire_open V (direct_open target originator)" by blast
  from relay_both [of "\<lparr>ch_reader = rd bt None, ch_writer = w'\<rparr>" bt local bl lag] w'(2,3) assms(5)
  obtain c' local' where "relay_bidirectional lag \<lparr>ch_reader = rd bt None, ch_writer = w'\<rparr> local = (Inr (), c', local')"
    "w_out (ch_writer c') = wire_open V (direct_open target originator) @ bl" "w_shut (ch_writer c')" "got local bt local'"
    by (auto simp: sends_then_ends_def got_def)
  with w'(1) show ?thesis by (simp add: client_channel_and_relay_def)
qed

text \<open>The server's tasks for direct channels, and the address a client's endpoint names.\<close>

definition direct_task ::
    "varint_api \<Rightarrow> nat \<Rightarrow> (string \<Rightarrow> io_error + ssh_channel) \<Rightarrow> channel_action
     \<Rightarrow> ((direct_forward_error + unit) \<times> ssh_channel \<times> ssh_channel option) option" where
  "direct_task V lag connect action = (case action of
       Spawn (DirectTcpipTask c) \<Rightarrow> Some (handle_direct_tcpip V lag connect c)
     | Spawn (DirectStreamlocalTask c) \<Rightarrow> Some (handle_direct_streamlocal V lag connect c)
     | _ \<Rightarrow> None)"

definition address_of :: "endpoint \<Rightarrow> string" where
  "address_of e = (case e of Tcp host p \<Rightarrow> host @ '':'' @ show_nat (unat p) | Unix path \<Rightarrow> path)"

lemma server_handles_direct:
  assumes "varint_codec V" "valid_open (direct_open target originator)" "ch_reader c = rd (img_open_payload V (direct_open target originator) @ bl) None"
  shows "direct_task V lag connect (dispatch_channel V config
      \<lparr>ic_channel_type = channel_type (direct_open target originator), ic_max_message_size = n, ic_streams = c\<rparr>)
    = Some (connect_and_relay V lag (connect (address_of target)) (c\<lparr>ch_reader := rd bl None\<rparr>))"
proof (cases target)
  case (Tcp host p)
  have "unat p < 65536" using unsigned_less [of p] by simp
  then show ?thesis using Tcp assms(2,3) varint_codec.handle_direct_img(1) [OF assms(1), of c _ bl _ lag connect]
    by (simp add: direct_open_def direct_task_def dispatch_channel_def ssh_string_from_static_def ssh_string_from_def
        address_of_def Let_def)
next
  case (Unix path)
  then show ?thesis using assms(2,3) varint_codec.handle_direct_img(2) [OF assms(1), of c _ bl _ lag connect]
    by (simp add: direct_open_def direct_task_def dispatch_channel_def ssh_string_from_static_def ssh_string_from_def
        address_of_def Let_def)
qed

text \<open>
  C17: a local forward end to end. A connection accepted by a local forward is carried to exactly
  the endpoint the rule names: the channel the client opens is accepted by the server as a direct
  channel, the server connects to that endpoint, every byte of the local connection reaches the
  destination, every byte of the destination reaches the local connection, both are then shut
  down, and what the server writes is what the client was taken to read.
\<close>

theorem local_forward_end_to_end:
  assumes "varint_codec V" "valid_open (direct_open target originator)"
    and "endless w" "w_out w = []" "endless sw" "w_out sw = []"
    and "sends_then_ends bl local" "connect (address_of target) = Inr t" "sends_then_ends bt t"
  shows "\<exists>c' local' inc sc t'.
      client_channel_and_relay V lag
        (Inr (rd (img_confirmation V DEFAULT_MAX_MESSAGE_SIZE @ bt) None, w) :: 'me + reader \<times> writer) target originator local
        = Some (c', local')
    \<and> accept_channel V (Inr (rd (w_out (ch_writer c')) None, sw) :: 'me + reader \<times> writer) = Inr inc
    \<and> direct_task V lag' connect (dispatch_channel V config inc) = Some (Inr (), sc, Some t')
    \<and> w_out (ch_writer sc) = img_confirmation V DEFAULT_MAX_MESSAGE_SIZE @ bt
    \<and> w_shut (ch_writer c') \<and> w_shut (ch_writer sc) \<and> got local bt local' \<and> got t bl t'"
proof -
  let ?op = "direct_open target originator"
  from client_relays [OF assms(1-4,7), where 'me = 'me] obtain c' local' where c':
    "client_channel_and_relay V lag
        (Inr (rd (img_confirmation V DEFAULT_MAX_MESSAGE_SIZE @ bt) None, w) :: 'me + reader \<times> writer) target originator local
        = Some (c', local')"
    "w_out (ch_writer c') = wire_open V ?op @ bl" "w_shut (ch_writer c')" "got local bt local'" by blast
  let ?c = "\<lparr>ch_reader = rd bl None, ch_writer = sw\<rparr>"
  have "forwards_to V bl ?c (Inr t) (connect_and_relay V lag' (Inr t) ?c)"
    using assms(5,9) by (intro connect_and_relay_spec) (auto simp: sends_then_ends_def)
  then obtain sc t' where sc: "connect_and_relay V lag' (Inr t) ?c = (Inr (), sc, Some t')"
    "w_out (ch_writer sc) = img_confirmation V DEFAULT_MAX_MESSAGE_SIZE @ bt" "w_shut (ch_writer sc)" "got t bl t'"
    using assms(6,9) by (cases "connect_and_relay V lag' (Inr t) ?c") (auto simp: forwards_to_def got_def sends_then_ends_def)
  have "accept_channel V (Inr (rd (w_out (ch_writer c')) None, sw) :: 'me + reader \<times> writer)
      = Inr \<lparr>ic_channel_type = channel_type ?op, ic_max_message_size = DEFAULT_MAX_MESSAGE_SIZE,
             ic_streams = \<lparr>ch_reader = rd (img_open_payload V ?op @ bl) None, ch_writer = sw\<rparr>\<rparr>"
    using accept_wire [OF assms(1), where 'me = 'me] c'(2) by simp
  moreover have "direct_task V lag' connect (dispatch_channel V config \<lparr>ic_channel_type = channel_type ?op,
      ic_max_message_size = DEFAULT_MAX_MESSAGE_SIZE,
      ic_streams = \<lparr>ch_reader = rd (img_open_payload V ?op @ bl) None, ch_writer = sw\<rparr>\<rparr>) = Some (Inr (), sc, Some t')"
    using server_handles_direct [OF assms(1,2), of "\<lparr>ch_reader = rd (img_open_payload V ?op @ bl) None, ch_writer = sw\<rparr>"]
      sc(1) assms(8) by simp
  ultimately show ?thesis using c' sc by blast
qed

definition echo_host :: ssh_channel where
  "echo_host = \<lparr>ch_reader = rd [4, 5] None, ch_writer = fresh_writer\<rparr>"

theorem local_forward_end_to_end_witness:
  "\<exists>c' local'. client_channel_and_relay quic_varint 0
     (Inr (rd (img_confirmation quic_varint DEFAULT_MAX_MESSAGE_SIZE @ [4, 5]) None, fresh_writer) :: unit + reader \<times> writer)
     (Unix ''/s'') originator_placeholder \<lparr>ch_reader = rd [7] None, ch_writer = fresh_writer\<rparr> = Some (c', local')
   \<and> w_out (ch_writer local') = [4, 5]"
proof -
  have v: "valid_open (direct_open (Unix ''/s'') originator_placeholder)"
    by (simp add: direct_open_def valid_direct_streamlocal_def ssh_string_from_def valid_ssh_string_def utf8_valid_lit
        ascii_def byte_of_def MAX_REMOTE_FIELD_SIZE_def)
  have e: "w_out fresh_writer = []" "(\<lambda>_ :: string. Inr echo_host) (address_of (Unix ''/s'')) = Inr echo_host"
    "sends_then_ends [4, 5] echo_host" "sends_then_ends [7] \<lparr>ch_reader = rd [7] None, ch_writer = fresh_writer\<rparr>"
    by (simp add: fresh_writer_def) (simp_all add: sends_then_ends_def echo_host_def endless_fresh)
  from local_forward_end_to_end [where 'me = unit, OF quic.varint_codec_axioms v endless_fresh e(1) endless_fresh e(1)
      e(4) e(2) e(3), of 0 0 session_config_default] e(1)
  show ?thesis by (auto simp: got_def)
qed

subsection \<open>Requesting a remote forward\<close>

lemma tcp_request_answered:
  assumes "varint_codec V" "quiet c" "endless (out_stream c)"
    and "remote_bind f = Tcp host p" "valid_ssh_string (lit (canonicalize_remote_bind_host host))"
  defines "req \<equiv> img_global V (lit ''tcpip-forward'') True
      (img_tcpip_forward V \<lparr>tf_bind_address = lit (canonicalize_remote_bind_host host), tf_bind_port = unat p\<rparr>)"
  shows "in_stream c = rd (img_success V (vi_enc V n) @ rest) e \<Longrightarrow> n < VARINT_LIMIT \<Longrightarrow>
      \<exists>c'. remote_forward_request V f c = (Some (Inr \<lparr>re_bind = Tcp (canonicalize_remote_bind_host host) (word_of_nat n),
             re_connect = remote_connect f\<rparr>), c')
        \<and> w_out (out_stream c') = w_out (out_stream c) @ req \<and> in_stream c' = rd rest e \<and> quiet c'"
    and "in_stream c = rd (img_failure V @ rest) e \<Longrightarrow>
      \<exists>c'. remote_forward_request V f c
          = (Some (Inl (TcpForwardRequest (RequestError ''global request was rejected by remote''))), c')
        \<and> w_out (out_stream c') = w_out (out_stream c) @ req \<and> in_stream c' = rd rest e \<and> quiet c'"
proof -
  let ?r = "\<lparr>tf_bind_address = lit (canonicalize_remote_bind_host host), tf_bind_port = unat p\<rparr>"
  have lim: "unat x < VARINT_LIMIT" for x :: "16 word"
  proof -
    have "unat x < 65536" using unsigned_less [of x] by simp
    then show ?thesis by (simp add: VARINT_LIMIT_def)
  qed
  then have em: "emits (enc_tcpip_forward V ?r) (img_tcpip_forward V ?r)"
    using assms(5) by (intro forward_emits) (simp add: valid_tcpip_forward_def)
  have rt: "valid_ssh_string (lit ''tcpip-forward'')"
    by (simp add: valid_ssh_string_def utf8_valid_lit ascii_def byte_of_def MAX_REMOTE_FIELD_SIZE_def)
  have flush: "w_flush_ok (out_stream c)" using assms(3) by (simp add: endless_def)
  note send = send_request_img [OF assms(2) rt em endless_fits [OF assms(3)] flush,
      where sdec = "dec_tcpip_forward_reply V"]
  note unf = remote_forward_request_def Let_def mapA_def assms(4) ssh_string_from_def ssh_string_from_static_def
  {
    assume i: "in_stream c = rd (img_success V (vi_enc V n) @ rest) e" and n: "n < VARINT_LIMIT"
    have "dec_tcpip_forward_reply V (rd (vi_enc V n @ rest) e) = (Inr \<lparr>tr_allocated_port = n\<rparr>, rd rest e)"
      using varint_codec.forward_dec_img(4) [OF assms(1), of "\<lparr>tr_allocated_port = n\<rparr>"] n
      by (simp add: valid_tcpip_forward_reply_def img_tcpip_forward_reply_def)
    then have "request_read V (dec_tcpip_forward_reply V) (in_stream c)
        = (Inr \<lparr>tr_allocated_port = n\<rparr> :: (forward_error, forward_error) send_request_error + tcpip_forward_reply, rd rest e)"
      by (simp add: i request_read_img(1) [OF assms(1)])
    from send [OF this] show "\<exists>c'. remote_forward_request V f c = (Some (Inr \<lparr>re_bind = Tcp (canonicalize_remote_bind_host host) (word_of_nat n),
             re_connect = remote_connect f\<rparr>), c')
        \<and> w_out (out_stream c') = w_out (out_stream c) @ req \<and> in_stream c' = rd rest e \<and> quiet c'"
      by (auto simp: unf req_def)
  }
  {
    assume "in_stream c = rd (img_failure V @ rest) e"
    then have "request_read V (dec_tcpip_forward_reply V) (in_stream c)
        = (Inl SR_Rejected :: (forward_error, forward_error) send_request_error + tcpip_forward_reply, rd rest e)"
      using request_read_img(2) [OF assms(1)] by simp
    from send [OF this] show "\<exists>c'. remote_forward_request V f c
          = (Some (Inl (TcpForwardRequest (RequestError ''global request was rejected by remote''))), c')
        \<and> w_out (out_stream c') = w_out (out_stream c) @ req \<and> in_stream c' = rd rest e \<and> quiet c'"
      by (auto simp: unf req_def)
  }
qed

subsection \<open>Forwarded connections\<close>

lemma server_relays:
  assumes "varint_codec V" "valid_open op" "endless w" "w_out w = []" "sends_then_ends bl local"
  shows "\<exists>c' local'. open_channel_and_relay V lag
        (Inr (rd (img_confirmation V DEFAULT_MAX_MESSAGE_SIZE @ bt) None, w) :: 'me + reader \<times> writer) op local None
        = Some (c', local')
    \<and> w_out (ch_writer c') = wire_open V op @ bl \<and> w_shut (ch_writer c') \<and> got local bt local'"
proof -
  from open_wire [OF assms(1-4), where 'me = 'me] obtain w' where w':
    "open_channel V (Inr (rd (img_confirmation V DEFAULT_MAX_MESSAGE_SIZE @ bt) None, w) :: 'me + reader \<times> writer)
        (channel_type op) (channel_open_payload V op) DEFAULT_MAX_MESSAGE_SIZE = Inr \<lparr>ch_reader = rd bt None, ch_writer = w'\<rparr>"
    "endless w'" "w_out w' = wire_open V op" by blast
  have l: "ch_reader local = rd bl None" "endless (ch_writer local)" using assms(5) by (simp_all add: sends_then_ends_def)
  from relay_endless [OF l(2), of lag bt] relay_endless [OF w'(2), of lag bl] w'(1,3) l(1)
  show ?thesis by (auto simp: open_channel_and_relay_def got_def)
qed

definition first_mapping :: "remote_forward_established list \<Rightarrow> remote_forward_established \<Rightarrow> bool" where
  "first_mapping ms m \<longleftrightarrow> (\<exists>pre post. ms = pre @ m # post
     \<and> (\<forall>m' \<in> set pre. remote_forward_bind_key (re_bind m') \<noteq> remote_forward_bind_key (re_bind m)))"

lemma find_first: "(\<forall>x \<in> set pre. \<not> P x) \<Longrightarrow> P m \<Longrightarrow> List.find P (pre @ m # post) = Some m"
  by (induction pre) auto

lemma canonical_canonical [simp]:
  "canonicalize_remote_bind_host (canonicalize_remote_bind_host h) = canonicalize_remote_bind_host h"
  by (simp add: canonicalize_remote_bind_host_def CANONICAL_REMOTE_WILDCARD_HOST_def CANONICAL_REMOTE_LOOPBACK_HOST_def)

lemma client_finds_target:
  assumes "varint_codec V" "first_mapping ms m" "re_bind m = Tcp (canonicalize_remote_bind_host host) p" "re_connect m = Some target"
    and "valid_open (accepted_tcp (canonicalize_remote_bind_host host) p peer)"
  shows "accept_forwarded V ms \<lparr>ic_channel_type = channel_type (accepted_tcp (canonicalize_remote_bind_host host) p peer),
      ic_max_message_size = n,
      ic_streams = \<lparr>ch_reader = rd (img_open_payload V (accepted_tcp (canonicalize_remote_bind_host host) p peer) @ bs) None,
                    ch_writer = w\<rparr>\<rparr>
    = Relayed \<lparr>ch_reader = rd bs None, ch_writer = w\<rparr> target"
proof -
  let ?h = "canonicalize_remote_bind_host host"
  from assms(2) obtain pre post where ms: "ms = pre @ m # post"
    "\<forall>m' \<in> set pre. remote_forward_bind_key (re_bind m') \<noteq> remote_forward_bind_key (re_bind m)"
    unfolding first_mapping_def by blast
  have "remote_forward_bind_key (re_bind m) = Some (?h, p)" using assms(3) by (simp add: remote_forward_bind_key_def)
  then have "List.find (\<lambda>m. remote_forward_bind_key (re_bind m) = Some (?h, p)) ms = Some m"
    unfolding ms(1) using ms(2) by (intro find_first) auto
  then show ?thesis
    using assms(4,5) varint_codec.forward_dec_img(5) [OF assms(1)]
    by (simp add: accept_forwarded_def accepted_tcp_def channel_decode_payload_def on_reader_def Let_def
        ssh_string_from_def ssh_string_from_static_def forwarded_tcpip_bind_key_def relay_to_mapping_def)
qed

lemma client_handles_forwarded:
  assumes "sends_then_ends bs c" "connect_locally H target = Inr t" "sends_then_ends bt t"
  shows "\<exists>c' t'. handle_forwarded_channel V lag H c target = (c', Some t')
    \<and> w_out (ch_writer c') = w_out (ch_writer c) @ img_confirmation V DEFAULT_MAX_MESSAGE_SIZE @ bt
    \<and> w_shut (ch_writer c') \<and> got t bs t'"
proof -
  have c: "ch_reader c = rd bs None" "endless (ch_writer c)" "ch_reader t = rd bt None" "endless (ch_writer t)"
    using assms(1,3) by (simp_all add: sends_then_ends_def)
  from confirmation_endless [OF c(2), of V] obtain w where w:
    "pending_accept V DEFAULT_MAX_MESSAGE_SIZE c = (Inr (), c\<lparr>ch_writer := w\<rparr>)" "endless w"
    "w_out w = w_out (ch_writer c) @ img_confirmation V DEFAULT_MAX_MESSAGE_SIZE"
    by (auto simp: send_open_confirmation_def ctx_def split: prod.splits sum.splits)
  from relay_both [of "c\<lparr>ch_writer := w\<rparr>" bs t bt lag] w c obtain c' t' where
    "relay_bidirectional lag (c\<lparr>ch_writer := w\<rparr>) t = (Inr (), c', t')"
    "w_out (ch_writer c') = w_out w @ bt" "w_shut (ch_writer c')" "got t bs t'" by (auto simp: got_def)
  with w assms(2) show ?thesis by (simp add: handle_forwarded_channel_def)
qed

text \<open>
  C16: a remote forward end to end. When the server grants the request of a remote forward, the
  client is told exactly the host and port the server listens on, whether or not it asked for that
  port. Any connection the server then accepts on that listener opens a channel that the client
  recognises as belonging to this forward, and it is carried to exactly the target of the rule:
  every byte of the connection reaches the target, every byte of the target reaches the
  connection, and both are shut down.
\<close>

theorem remote_forward_end_to_end:
  assumes "varint_codec V" "socket_laws A" "our_turn t (sv_conv s)"
    and granted: "accept_tcp_forward V A t
        \<lparr>tf_bind_address = lit (canonicalize_remote_bind_host host), tf_bind_port = unat p\<rparr> s = (Some (Inr l), s')"
      "wrote answer (sv_conv s) (sv_conv s')"
    and client: "quiet c" "endless (out_stream c)" "in_stream c = rd (answer @ rest) e"
    and rule: "f = \<lparr>remote_bind = Tcp host p, remote_connect = Some target\<rparr>"
      "valid_ssh_string (lit (canonicalize_remote_bind_host host))"
    and m: "m = \<lparr>re_bind = Tcp (canonicalize_remote_bind_host host) (tl_bound_port l), re_connect = Some target\<rparr>"
      "first_mapping ms m"
    and conn: "valid_open (accepted_tcp (tl_advertised_host l) (tl_bound_port l) peer)" "sends_then_ends bs sock"
      "endless w" "w_out w = []" "endless cw" "w_out cw = []"
    and dest: "connect_locally H target = Inr d" "sends_then_ends bt d"
  shows "(\<exists>c'. remote_forward_request V f c = (Some (Inr m), c') \<and> quiet c')
    \<and> (\<exists>sc sock' inc pending cc d'.
      open_channel_and_relay V lag
        (Inr (rd (img_confirmation V DEFAULT_MAX_MESSAGE_SIZE @ bt) None, w) :: 'me + reader \<times> writer)
        (accepted_tcp (tl_advertised_host l) (tl_bound_port l) peer) sock None = Some (sc, sock')
      \<and> accept_channel V (Inr (rd (w_out (ch_writer sc)) None, cw) :: 'me + reader \<times> writer) = Inr inc
      \<and> accept_forwarded V ms inc = Relayed pending target
      \<and> handle_forwarded_channel V lag' H pending target = (cc, Some d')
      \<and> w_out (ch_writer cc) = img_confirmation V DEFAULT_MAX_MESSAGE_SIZE @ bt
      \<and> got sock bt sock' \<and> got d bs d')"
proof
  let ?h = "canonicalize_remote_bind_host host"
  from accept_tcp_forward_run [OF assms(2,3), of V "\<lparr>tf_bind_address = lit ?h, tf_bind_port = unat p\<rparr>"] granted(1)
  have wr: "wrote (img_success V (vi_enc V (unat (tl_bound_port l)))) (sv_conv s) (sv_conv s')" and h: "tl_advertised_host l = ?h"
    by (auto simp: serves_def)
  have "unat (tl_bound_port l) < 65536" using unsigned_less [of "tl_bound_port l"] by simp
  then have lim: "unat (tl_bound_port l) < VARINT_LIMIT" by (simp add: VARINT_LIMIT_def)
  from wr granted(2) have "answer = img_success V (vi_enc V (unat (tl_bound_port l)))" by (simp add: wrote_def)
  with tcp_request_answered(1) [OF assms(1) client(1,2), of f host p "unat (tl_bound_port l)" rest e] client(3) rule m(1) lim
  show "\<exists>c'. remote_forward_request V f c = (Some (Inr m), c') \<and> quiet c'" by auto
  let ?op = "accepted_tcp ?h (tl_bound_port l) peer"
  have v: "valid_open ?op" using conn(1) h by simp
  from server_relays [OF assms(1) v conn(3,4,2), where 'me = 'me] obtain sc sock' where sc:
    "open_channel_and_relay V lag
        (Inr (rd (img_confirmation V DEFAULT_MAX_MESSAGE_SIZE @ bt) None, w) :: 'me + reader \<times> writer) ?op sock None
        = Some (sc, sock')" "w_out (ch_writer sc) = wire_open V ?op @ bs" "got sock bt sock'" by blast
  have inc: "accept_channel V (Inr (rd (w_out (ch_writer sc)) None, cw) :: 'me + reader \<times> writer)
      = Inr \<lparr>ic_channel_type = channel_type ?op, ic_max_message_size = DEFAULT_MAX_MESSAGE_SIZE,
             ic_streams = \<lparr>ch_reader = rd (img_open_payload V ?op @ bs) None, ch_writer = cw\<rparr>\<rparr>"
    using accept_wire [OF assms(1), where 'me = 'me] sc(2) by simp
  let ?p = "\<lparr>ch_reader = rd bs None, ch_writer = cw\<rparr>"
  have "sends_then_ends bs ?p" using conn(5) by (simp add: sends_then_ends_def)
  from client_handles_forwarded [OF this dest, of V lag'] conn(6) obtain cc d' where cc:
    "handle_forwarded_channel V lag' H ?p target = (cc, Some d')"
    "w_out (ch_writer cc) = img_confirmation V DEFAULT_MAX_MESSAGE_SIZE @ bt" "got d bs d'" by auto
  show "\<exists>sc sock' inc pending cc d'.
      open_channel_and_relay V lag
        (Inr (rd (img_confirmation V DEFAULT_MAX_MESSAGE_SIZE @ bt) None, w) :: 'me + reader \<times> writer)
        (accepted_tcp (tl_advertised_host l) (tl_bound_port l) peer) sock None = Some (sc, sock')
      \<and> accept_channel V (Inr (rd (w_out (ch_writer sc)) None, cw) :: 'me + reader \<times> writer) = Inr inc
      \<and> accept_forwarded V ms inc = Relayed pending target
      \<and> handle_forwarded_channel V lag' H pending target = (cc, Some d')
      \<and> w_out (ch_writer cc) = img_confirmation V DEFAULT_MAX_MESSAGE_SIZE @ bt
      \<and> got sock bt sock' \<and> got d bs d'"
    using sc(1,3) inc cc client_finds_target [OF assms(1) m(2) _ _ v] m(1) h by (auto 0 3)
qed

definition asking :: "bytes \<Rightarrow> conversation_shared" where
  "asking input = conversation_shared_new (rd input None) fresh_writer"

lemma asking_ready: "quiet (asking input)" "endless (out_stream (asking input))" "in_stream (asking input) = rd (input @ []) None"
  by (simp_all add: asking_def quiet_def conversation_shared_new_def ordered_access_new_def in_stream_def out_stream_def
      endless_fresh)

lemma localhost_valid: "valid_ssh_string (lit (canonicalize_remote_bind_host ''localhost''))"
  by (simp add: valid_ssh_string_def utf8_valid_lit ascii_def byte_of_def MAX_REMOTE_FIELD_SIZE_def
      canonicalize_remote_bind_host_def CANONICAL_REMOTE_LOOPBACK_HOST_def)

definition local_services :: local_host where
  "local_services = \<lparr>lh_bind_tcp = \<lambda>_ _. Inr (), lh_bind_unix = \<lambda>_. Inr (), lh_connect_tcp = \<lambda>_ _. Inl NotFound,
     lh_connect_unix = \<lambda>_. Inr echo_host\<rparr>"

theorem remote_forward_end_to_end_witness:
  "\<exists>l s' c' sc sock'. accept_tcp_forward quic_varint any_socket 0 \<lparr>tf_bind_address = lit ''localhost'', tf_bind_port = 0\<rparr>
      quiet_server = (Some (Inr l), s')
    \<and> remote_forward_request quic_varint \<lparr>remote_bind = Tcp ''localhost'' 0, remote_connect = Some (Unix ''/d'')\<rparr>
        (asking (img_success quic_varint (vi_enc quic_varint (unat (tl_bound_port l)))))
      = (Some (Inr \<lparr>re_bind = Tcp ''localhost'' (tl_bound_port l), re_connect = Some (Unix ''/d'')\<rparr>), c')
    \<and> open_channel_and_relay quic_varint 0
        (Inr (rd (img_confirmation quic_varint DEFAULT_MAX_MESSAGE_SIZE @ [4, 5]) None, fresh_writer) :: unit + reader \<times> writer)
        (accepted_tcp (tl_advertised_host l) (tl_bound_port l) (SocketV4 [127, 0, 0, 1] 9))
        \<lparr>ch_reader = rd [7] None, ch_writer = fresh_writer\<rparr> None = Some (sc, sock')
    \<and> w_out (ch_writer sock') = [4, 5]"
proof -
  let ?req = "\<lparr>tf_bind_address = lit (canonicalize_remote_bind_host ''localhost''), tf_bind_port = unat (0 :: 16 word)\<rparr>"
  have host: "canonicalize_remote_bind_host ''localhost'' = ''localhost''"
    by (simp add: canonicalize_remote_bind_host_def CANONICAL_REMOTE_LOOPBACK_HOST_def)
  have "is_ok (bind_tcp_forward_group any_socket [] ''localhost'' 0)"
    by (simp add: bind_tcp_forward_group_def resolve_bind_candidates_def bind_candidates_def andE_def any_socket_def
        bind_tcp_socket_def)
  then obtain l0 where l0: "bind_tcp_forward_group any_socket [] ''localhost'' 0 = Inr l0"
    by (cases "bind_tcp_forward_group any_socket [] ''localhost'' 0") auto
  from success_turn [OF quiet_server_turn port_reply_emits, of quic_varint quic_varint "tl_bound_port l0"] obtain c' where
    "global_respond_success quic_varint 0 (enc_tcpip_forward_reply quic_varint
        \<lparr>tr_allocated_port = unat (tl_bound_port l0)\<rparr>) (sv_conv quiet_server) = (Some (Inr ()), c')" by blast
  with l0 obtain l s' where l: "accept_tcp_forward quic_varint any_socket 0 ?req quiet_server = (Some (Inr l), s')"
    by (simp add: accept_tcp_forward_def Let_def U16_LIMIT_def on_conv_def host quiet_server_def)
  with accept_tcp_forward_run [OF any_socket_laws quiet_server_turn, of quic_varint ?req]
  have wr: "wrote (img_success quic_varint (vi_enc quic_varint (unat (tl_bound_port l)))) (sv_conv quiet_server) (sv_conv s')"
    and adv: "tl_advertised_host l = ''localhost''" by (auto simp: serves_def host)
  let ?m = "\<lparr>re_bind = Tcp (canonicalize_remote_bind_host ''localhost'') (tl_bound_port l), re_connect = Some (Unix ''/d'')\<rparr>"
  have m: "first_mapping [?m] ?m" by (auto simp: first_mapping_def intro: exI [of _ "[]"])
  have ip: "show_ip (SocketV4 [127, 0, 0, 1] 9) = ''127.0.0.1''"
    by (simp add: show_ipv4_def show_nat.simps digit_char_def char_of_def bit_0)
  have "unat (tl_bound_port l) < 65536" using unsigned_less [of "tl_bound_port l"] by simp
  then have v: "valid_open (accepted_tcp (tl_advertised_host l) (tl_bound_port l) (SocketV4 [127, 0, 0, 1] 9))"
    by (simp add: accepted_tcp_def valid_forwarded_tcpip_def ssh_string_from_def adv valid_ssh_string_def utf8_valid_lit
        ascii_def byte_of_def MAX_REMOTE_FIELD_SIZE_def VARINT_LIMIT_def ip del: show_ip.simps)
  have e: "w_out fresh_writer = []" "connect_locally local_services (Unix ''/d'') = Inr echo_host"
    by (simp_all add: fresh_writer_def connect_locally_def local_services_def)
  have ends: "sends_then_ends [4, 5] echo_host" "sends_then_ends [7] \<lparr>ch_reader = rd [7] None, ch_writer = fresh_writer\<rparr>"
    by (simp_all add: sends_then_ends_def echo_host_def endless_fresh)
  from remote_forward_end_to_end [where 'me = unit, OF quic.varint_codec_axioms any_socket_laws quiet_server_turn l wr
      asking_ready(1-3) refl localhost_valid refl m v ends(2) endless_fresh e(1) endless_fresh e(1) e(2) ends(1), of 0 0]
    l adv show ?thesis by (fastforce simp: host got_def fresh_writer_def)
qed

text \<open>
  The client does not check the port of the reply: a port of 65536 or more is cut to 16 bits, and
  the forward is reported established on a port the server does not listen on.
\<close>

theorem reply_port_truncated:
  "\<exists>c'. remote_forward_request quic_varint \<lparr>remote_bind = Tcp ''localhost'' 0, remote_connect = None\<rparr>
      (asking (img_success quic_varint (vi_enc quic_varint 65616)))
    = (Some (Inr \<lparr>re_bind = Tcp ''localhost'' 80, re_connect = None\<rparr>), c')"
proof -
  have "(word_of_nat 65616 :: 16 word) = 80" by simp
  with tcp_request_answered(1) [OF quic.varint_codec_axioms asking_ready(1,2) _ localhost_valid asking_ready(3),
      of "\<lparr>remote_bind = Tcp ''localhost'' 0, remote_connect = None\<rparr>" 0 65616]
  show ?thesis
    by (auto simp: VARINT_LIMIT_def canonicalize_remote_bind_host_def CANONICAL_REMOTE_LOOPBACK_HOST_def)
qed

text \<open>
  C9: only requested targets are reached. Whatever channel the server opens, the client connects
  to a local endpoint only if that endpoint is the target of an established forward and the channel
  carries the host and the port, or the socket path, of that same forward. Ports are compared as the
  code compares them, cut to 16 bits: a channel that names a port of the 16-bit range names exactly
  the port of the forward, and one that names a larger number the port it is cut to.
\<close>

theorem only_requested_targets:
  assumes "accept_forwarded V ms inc = Relayed pending target"
  shows "\<exists>m \<in> set ms. re_connect m = Some target \<and> (case re_bind m of
      Tcp host p \<Rightarrow> ic_channel_type inc = lit ''forwarded-tcpip'' \<and> (\<exists>payload.
        channel_decode_payload (dec_forwarded_tcpip V) inc = Inr (payload, pending)
        \<and> canonicalize_remote_bind_host (text_of (ft_connected_address payload)) = canonicalize_remote_bind_host host
        \<and> ft_connected_port payload mod 65536 = unat p
        \<and> (ft_connected_port payload < 65536 \<longrightarrow> ft_connected_port payload = unat p))
    | Unix path \<Rightarrow> ic_channel_type inc = lit ''forwarded-streamlocal@openssh.com'' \<and> (\<exists>payload.
        channel_decode_payload (dec_forwarded_streamlocal V) inc = Inr (payload, pending)
        \<and> text_of (fs_socket_path payload) = path))"
proof -
  have mapped: "\<exists>m \<in> set ms. P m \<and> re_connect m = Some target \<and> pending = c"
    if "relay_to_mapping V (List.find P ms) c = Relayed pending target" for P c
    using that by (auto simp: relay_to_mapping_def no_matching_forward_def find_Some_iff split: option.splits)
  consider (tcp) payload c where "ic_channel_type inc = lit ''forwarded-tcpip''"
      "channel_decode_payload (dec_forwarded_tcpip V) inc = Inr (payload, c)"
      "relay_to_mapping V (List.find (\<lambda>m. remote_forward_bind_key (re_bind m)
         = Some (forwarded_tcpip_bind_key (text_of (ft_connected_address payload)) (word_of_nat (ft_connected_port payload)))) ms) c
       = Relayed pending target"
    | (unix) payload c where "ic_channel_type inc = lit ''forwarded-streamlocal@openssh.com''"
      "channel_decode_payload (dec_forwarded_streamlocal V) inc = Inr (payload, c)"
      "relay_to_mapping V (List.find (\<lambda>m. re_bind m = Unix (text_of (fs_socket_path payload))) ms) c = Relayed pending target"
    using assms by (auto simp: accept_forwarded_def Let_def split: if_splits sum.splits prod.splits)
  then show ?thesis
  proof cases
    case tcp
    have cut: "n mod 65536 = unat q" if "word_of_nat n = q" for n and q :: "16 word"
      using that by (auto simp: unat_of_nat take_bit_eq_mod)
    from mapped [OF tcp(3)] obtain m host p where "m \<in> set ms" "re_connect m = Some target" "pending = c"
        "re_bind m = Tcp host p" "word_of_nat (ft_connected_port payload) = p"
        "canonicalize_remote_bind_host (text_of (ft_connected_address payload)) = canonicalize_remote_bind_host host"
      by (fastforce simp: remote_forward_bind_key_def forwarded_tcpip_bind_key_def split: endpoint.splits)
    with tcp(1,2) cut [of "ft_connected_port payload" p] show ?thesis by (intro bexI [of _ m]) auto
  next
    case unix
    from mapped [OF unix(3)] unix(1,2) show ?thesis by force
  qed
qed

theorem only_requested_targets_witness:
  "let ms = [\<lparr>re_bind = Tcp ''h'' 80, re_connect = Some (Unix ''/d'')\<rparr>,
        \<lparr>re_bind = Unix ''/s'', re_connect = Some (Unix ''/e'')\<rparr>];
       c = \<lparr>ch_reader = rd [] None, ch_writer = fresh_writer\<rparr>;
       inc = \<lparr>ic_channel_type = lit ''forwarded-streamlocal@openssh.com'', ic_max_message_size = 1,
        ic_streams = c\<lparr>ch_reader := rd (img_forwarded_streamlocal quic_varint \<lparr>fs_socket_path = lit ''/s''\<rparr>) None\<rparr>\<rparr>
   in accept_forwarded quic_varint ms inc = Relayed c (Unix ''/e'')
     \<and> channel_decode_payload (dec_forwarded_streamlocal quic_varint) inc = Inr (\<lparr>fs_socket_path = lit ''/s''\<rparr>, c)"
proof -
  let ?p = "\<lparr>fs_socket_path = lit ''/s''\<rparr>"
  let ?ms = "[\<lparr>re_bind = Tcp ''h'' 80, re_connect = Some (Unix ''/d'')\<rparr>,
      \<lparr>re_bind = Unix ''/s'', re_connect = Some (Unix ''/e'')\<rparr>]"
  let ?c = "\<lparr>ch_reader = rd [] None, ch_writer = fresh_writer\<rparr>"
  let ?inc = "\<lparr>ic_channel_type = lit ''forwarded-streamlocal@openssh.com'', ic_max_message_size = 1,
    ic_streams = ?c\<lparr>ch_reader := rd (img_forwarded_streamlocal quic_varint ?p) None\<rparr>\<rparr>"
  have v: "valid_forwarded_streamlocal ?p"
    by (simp add: valid_forwarded_streamlocal_def valid_ssh_string_def utf8_valid_lit ascii_def byte_of_def
        MAX_REMOTE_FIELD_SIZE_def)
  have d: "channel_decode_payload (dec_forwarded_streamlocal quic_varint) ?inc = Inr (?p, ?c)"
    using quic.forward_dec_img(8) [OF v, of "[]" None] by (simp add: channel_decode_payload_def on_reader_def)
  then have r: "accept_forwarded quic_varint ?ms ?inc = Relayed ?c (Unix ''/e'')"
    by (simp add: accept_forwarded_def relay_to_mapping_def)
  from only_requested_targets [OF r] d r show ?thesis by simp
qed

text \<open>
  A channel of an unknown type is only rejected when its payload happens to decode as that of a
  \<open>forwarded-tcpip\<close> channel; otherwise it is dropped without an answer.
\<close>

theorem unknown_channel_not_answered:
  "accept_forwarded quic_varint ms \<lparr>ic_channel_type = lit ''session'', ic_max_message_size = 1,
     ic_streams = \<lparr>ch_reader = rd [] None, ch_writer = fresh_writer\<rparr>\<rparr> = Dropped"
proof -
  have "\<not> is_ok (fst (dec_forwarded_tcpip quic_varint (rd [] None)))"
    by (simp add: dec_forwarded_tcpip_def dec_ssh_string_def decode_varint_def quic_varint_def quic_dec_def io_simps)
  then show ?thesis
    by (cases "dec_forwarded_tcpip quic_varint (rd [] None)"; cases "fst (dec_forwarded_tcpip quic_varint (rd [] None))")
      (auto simp: accept_forwarded_def channel_decode_payload_def on_reader_def)
qed

end
