(* ===== verification/Process_Lifecycle.thy ===== *)
theory Process_Lifecycle
  imports Process
begin

text \<open>
  The life of a session's child process: termination escalates from SIGHUP over SIGTERM to
  SIGKILL with the grace period between them and always ends with the child reaped; whatever
  ends a session, no child is left behind; the environment gives later entries precedence.
\<close>

text \<open>
  What is relied on of the system: asking for the child's state does not fail, and waiting
  returns once the child was sent SIGKILL.
\<close>

definition killable :: "child_api \<Rightarrow> bool" where
  "killable A \<longleftrightarrow> (\<forall>l t. \<exists>r. ca_try_wait A l t = Inr r)
     \<and> (\<forall>l t. SIGKILL \<in> snd ` set l \<longrightarrow> (\<exists>st t'. ca_wait A l t = Some (Inr st, t')))"

lemma wait_until_spec:
  assumes "killable A" "wait_until A d p = (r, p')"
  shows "(\<exists>b. r = Inr b \<and> (if b then sp_reaped p' else d \<le> sp_clock p' \<and> sp_reaped p' = sp_reaped p))
    \<and> sp_signals p' = sp_signals p \<and> sp_clock p \<le> sp_clock p'"
  using assms
proof (induction A d p rule: wait_until.induct)
  case (1 A d p)
  obtain v where v: "ca_try_wait A (sp_signals p) (sp_clock p) = Inr v"
    using 1(2) unfolding killable_def by blast
  show ?case
  proof (cases v)
    case (Some st)
    have "wait_until A d p = (Inr True, p\<lparr>sp_reaped := True\<rparr>)"
      by (simp add: wait_until.simps [of A d p] try_wait_def v Some)
    then show ?thesis using 1(3) by auto
  next
    case None
    then have t: "try_wait A p = (Inr None, p)" using v by (simp add: try_wait_def)
    show ?thesis
    proof (cases "d \<le> sp_clock p")
      case True
      then have "wait_until A d p = (Inr False, p)" by (simp add: wait_until.simps [of A d p] t)
      then show ?thesis using 1(3) True by auto
    next
      case False
      let ?q = "p\<lparr>sp_clock := sp_clock p + 25 + ca_late A (sp_clock p)\<rparr>"
      have "wait_until A d p = wait_until A d ?q"
        using False by (simp add: wait_until.simps [of A d p] t)
      then have "wait_until A d ?q = (r, p')" using 1(3) by simp
      have q: "sp_reaped ?q = sp_reaped p" "sp_signals ?q = sp_signals p"
          "sp_clock ?q = sp_clock p + 25 + ca_late A (sp_clock p)"
        by simp_all
      from 1(1) [OF t [symmetric] refl refl False 1(2) \<open>wait_until A d ?q = (r, p')\<close>, unfolded q]
      show ?thesis by (elim conjE) (intro conjI, assumption, assumption, linarith)
    qed
  qed
qed

lemma wait_for_cases:
  assumes "killable A" "\<not> sp_reaped p"
  obtains p' where "wait_for A g p = (Inr True, p')" "sp_reaped p'" "sp_signals p' = sp_signals p"
  | p' where "wait_for A g p = (Inr False, p')" "\<not> sp_reaped p'" "sp_signals p' = sp_signals p"
      "sp_clock p + g \<le> sp_clock p'"
proof -
  obtain r p' where w: "wait_until A (sp_clock p + g) p = (r, p')" by fastforce
  from wait_until_spec [OF assms(1) w] obtain b where "r = Inr b"
      "if b then sp_reaped p' else sp_clock p + g \<le> sp_clock p' \<and> sp_reaped p' = sp_reaped p"
      "sp_signals p' = sp_signals p" by blast
  with w assms(2) show thesis by (cases b) (auto simp: wait_for_def intro: that)
qed

fun spaced :: "nat \<Rightarrow> (nat \<times> signal) list \<Rightarrow> bool" where
  "spaced g (a # b # l) \<longleftrightarrow> fst a + g \<le> fst b \<and> spaced g (b # l)"
| "spaced g l \<longleftrightarrow> True"

definition escalation :: "(nat \<times> signal) list \<Rightarrow> bool" where
  "escalation l \<longleftrightarrow> prefix (map snd l) [SIGHUP, SIGTERM, SIGKILL] \<and> spaced SIGNAL_GRACE l"

lemma terminate_spec:
  assumes A: "killable A"
  shows "\<exists>q l. terminate A p = (Some (Inr ()), q) \<and> sp_reaped q
    \<and> sp_signals q = sp_signals p @ l \<and> escalation l \<and> (sp_reaped p \<longrightarrow> l = [])"
proof (cases "sp_reaped p")
  case True
  then show ?thesis by (simp add: terminate_def escalation_def)
next
  case False
  obtain v where v: "ca_try_wait A (sp_signals p) (sp_clock p) = Inr v"
    using A unfolding killable_def by blast
  show ?thesis
  proof (cases v)
    case (Some st)
    with v False show ?thesis by (simp add: terminate_def try_wait_def escalation_def)
  next
    case None
    then have t: "try_wait A p = (Inr None, p)" using v by (simp add: try_wait_def)
    let ?h = "send_signal SIGHUP p"
    have r1: "\<not> sp_reaped ?h" using False by (simp add: send_signal_def)
    show ?thesis
    proof (rule wait_for_cases [OF A r1, of SIGNAL_GRACE])
      fix p1 assume "wait_for A SIGNAL_GRACE ?h = (Inr True, p1)" "sp_reaped p1" "sp_signals p1 = sp_signals ?h"
      then show ?thesis using t False by (simp add: terminate_def send_signal_def escalation_def)
    next
      fix p1 assume 1: "wait_for A SIGNAL_GRACE ?h = (Inr False, p1)" "\<not> sp_reaped p1"
          "sp_signals p1 = sp_signals ?h" "sp_clock ?h + SIGNAL_GRACE \<le> sp_clock p1"
      let ?t = "send_signal SIGTERM p1"
      have r2: "\<not> sp_reaped ?t" using 1 by (simp add: send_signal_def)
      show ?thesis
      proof (rule wait_for_cases [OF A r2, of SIGNAL_GRACE])
        fix p2 assume "wait_for A SIGNAL_GRACE ?t = (Inr True, p2)" "sp_reaped p2" "sp_signals p2 = sp_signals ?t"
        then show ?thesis using t False 1 by (simp add: terminate_def send_signal_def escalation_def)
      next
        fix p2 assume 2: "wait_for A SIGNAL_GRACE ?t = (Inr False, p2)" "\<not> sp_reaped p2"
          "sp_signals p2 = sp_signals ?t" "sp_clock ?t + SIGNAL_GRACE \<le> sp_clock p2"
        let ?k = "send_signal SIGKILL p2"
        have "SIGKILL \<in> snd ` set (sp_signals ?k)" by (simp add: send_signal_def)
        then obtain st t' where w: "ca_wait A (sp_signals ?k) (sp_clock ?k) = Some (Inr st, t')"
          using A unfolding killable_def by blast
        then show ?thesis using t False 1 2
          by (simp add: terminate_def process_wait_def) (simp add: send_signal_def escalation_def)
      qed
    qed
  qed
qed

text \<open>
  C36: termination ends and escalates. If the child's state can be queried and SIGKILL ends it,
  \<open>terminate\<close> returns success with the child reaped, having sent SIGHUP, SIGTERM and SIGKILL in
  this order, as many as needed, at least one second apart; a child already reaped is never
  signalled, and dropping the process afterwards sends nothing.
\<close>

theorem terminate_reaps:
  assumes "killable A"
  shows "\<exists>q l. terminate A p = (Some (Inr ()), q) \<and> sp_reaped q
    \<and> sp_signals q = sp_signals p @ l
    \<and> prefix (map snd l) [SIGHUP, SIGTERM, SIGKILL] \<and> spaced 1000 l
    \<and> (sp_reaped p \<longrightarrow> l = []) \<and> process_drop q = q"
  using terminate_spec [OF assms, of p] by (auto simp: escalation_def process_drop_def SIGNAL_GRACE_def)

text \<open>A child that ignores everything but SIGKILL.\<close>

definition stubborn :: child_api where
  "stubborn = \<lparr>ca_try_wait = (\<lambda>l t. if SIGKILL \<in> set (map snd l) then Inr (Some (Signaled 9 False)) else Inr None),
     ca_wait = (\<lambda>l t. if SIGKILL \<in> set (map snd l) then Some (Inr (Signaled 9 False), t + 1) else None),
     ca_late = (\<lambda>_. 3)\<rparr>"

lemma killable_stubborn: "killable stubborn"
  by (simp add: killable_def stubborn_def)

theorem terminate_reaps_witness:
  "\<exists>q l. terminate stubborn \<lparr>sp_group = 7, sp_reaped = False, sp_clock = 0, sp_signals = []\<rparr> = (Some (Inr ()), q)
     \<and> sp_reaped q \<and> sp_signals q = l \<and> spaced 1000 l"
  using terminate_reaps [OF killable_stubborn, of "\<lparr>sp_group = 7, sp_reaped = False, sp_clock = 0, sp_signals = []\<rparr>"]
  by auto

subsection \<open>No child is left behind\<close>

lemma on_out_fields [simp]:
  "or_exit (snd (on_out m s)) = or_exit s" "or_stdout_done (snd (on_out m s)) = or_stdout_done s"
  "or_stderr_done (snd (on_out m s)) = or_stderr_done s"
  "or_input_stopped (snd (on_out m s)) = or_input_stopped s"
  by (simp_all add: on_out_def split: prod.splits)

lemma relay_finished_piped:
  "relay_output_piped V sg evs s = (Some (Inr x), s') \<Longrightarrow> relay_finished s'"
  by (induction V sg evs s rule: relay_output_piped.induct)
    (auto split: if_splits prod.splits sum.splits)

lemma relay_finished_pty:
  "relay_output_pty V sg evs s = (Some (Inr x), s') \<Longrightarrow> relay_finished s'"
  by (induction V sg evs s rule: relay_output_pty.induct)
    (auto split: if_splits prod.splits sum.splits)

lemma relay_close_exit:
  assumes "\<And>x s'. r = (Some (Inr x), s') \<Longrightarrow> relay_finished s'"
    and "relay_then_close V r = (Some (Inr y), s)"
  shows "or_exit s \<noteq> None"
proof -
  obtain x s0 where r: "r = (Some (Inr x), s0)" and c: "on_out (close_output V) s0 = (Inr y, s)"
    using assms(2) by (cases r) (auto simp: relay_then_close_def split: option.splits sum.splits prod.splits)
  have "or_exit s = or_exit s0" using on_out_fields(1) [of "close_output V" s0] c by simp
  with assms(1) [OF r] show ?thesis by (simp add: relay_finished_def)
qed

lemma end_session_reaped:
  assumes "killable A" "end_session A output p = (r, q)"
    and "\<And>x. output = Some (Inr x) \<Longrightarrow> sp_reaped p"
  shows "sp_reaped q \<and> (\<exists>v. r = Some v) \<and> (\<forall>e. output = Some (Inl e) \<longrightarrow> r = Some (Inl e))"
proof -
  obtain q' where "terminate A p = (Some (Inr ()), q')" "sp_reaped q'"
    using terminate_spec [OF assms(1)] by blast
  then show ?thesis using assms(2,3)
    by (auto simp: end_session_def split: option.splits sum.splits)
qed

text \<open>
  C37: no child is left behind. Whenever \<open>run_piped\<close> returns after the child was started, because
  the relay finished, because of any error on the way, or because of a shutdown request, the
  child was reaped; and with a killable child a shutdown request makes \<open>run_piped\<close> return,
  provided the input relay ends when it is told to.
\<close>

theorem run_piped_reaps:
  assumes "killable A"
  shows "(run_piped V sg A spawn start cmd w evs sd input_ends = (Some r, Some (s, p)) \<longrightarrow> sp_reaped p)
    \<and> (\<exists>r st. run_piped V sg A spawn start cmd w evs True True = (Some r, st))"
proof -
  define out where "out = relay_then_close V (relay_output_piped V sg evs (relay_start w))"
  obtain res s0 where o: "out = (res, s0)" by (cases out)
  have seen: "or_exit s0 \<noteq> None" if "res = Some (Inr x)" for x
    using relay_close_exit [of "relay_output_piped V sg evs (relay_start w)" V x s0]
      relay_finished_piped [of V sg evs "relay_start w"] o that unfolding out_def by blast
  have reaped: "sp_reaped (observe_exit s0 p0)" if "res = Some (Inr x)" for x p0
    using seen [OF that] by (simp add: observe_exit_def)
  have ended: "sp_reaped q \<and> (\<exists>v. r = Some v)" if "end_session A res (observe_exit s0 p0) = (r, q)" for p0 r q
    using end_session_reaped [OF assms that] reaped by blast
  show ?thesis
    using ended unfolding run_piped_def finish_session_def out_def [symmetric] o
    by (auto split: sum.splits if_splits prod.splits)
qed

theorem run_piped_reaps_witness:
  "\<exists>r st. run_piped quic_varint (\<lambda>_. 1) stubborn (\<lambda>_. Inr (Some 7)) 0
     \<lparr>cmd_program = ''sh'', cmd_arg0 = ''sh'', cmd_args = [], cmd_env = [], cmd_cwd = ''/''\<rparr>
     fresh_writer [OutRead (Inr [1])] True True = (Some r, st)"
  using run_piped_reaps [OF killable_stubborn] by blast

text \<open>
  The proviso matters: an input relay that is blocked inside an event, writing to a child that
  does not read its input or waiting for the rest of a payload, keeps a shutdown waiting for
  ever, and the child never gets a signal.
\<close>

theorem blocked_input_delays_shutdown:
  assumes "spawn cmd = Inr (Some pid)"
  shows "\<exists>s p. run_piped V sg A spawn start cmd w [] True False = (None, Some (s, p))
    \<and> sp_signals p = [] \<and> \<not> sp_reaped p"
  using assms
  by (simp add: run_piped_def finish_session_def session_process_new_def relay_then_close_def
      relay_finished_def relay_start_def observe_exit_def)

subsection \<open>Environment\<close>

text \<open>\<open>Command::envs\<close> keeps the last value of a repeated key.\<close>

definition effective_env :: "(string \<times> string) list \<Rightarrow> string \<Rightarrow> string option" where
  "effective_env env = map_of (rev env)"

lemma effective_env_append:
  "effective_env (a @ b) k = (case effective_env b k of Some v \<Rightarrow> Some v | None \<Rightarrow> effective_env a k)"
  by (simp add: effective_env_def map_add_def split: option.split)

lemma effective_env_optional:
  "effective_env (case x of Some v \<Rightarrow> [(n, v)] | None \<Rightarrow> []) k = (if k = n then x else None)"
  by (simp add: effective_env_def split: option.splits)

text \<open>
  Environment precedence. The child's variables come from the client's requests first, then
  PAM, then \<open>/etc/environment\<close>, then the server's own settings; without such an entry the
  user name, home and shell are those of the authenticated user.
\<close>

theorem environment_precedence:
  "effective_env (build_env tz lang etc config term client) k =
     (case effective_env client k of Some v \<Rightarrow> Some v
      | None \<Rightarrow> case effective_env (ui_pam_env (sc_user config)) k of Some v \<Rightarrow> Some v
      | None \<Rightarrow> case effective_env (read_environment_file etc) k of Some v \<Rightarrow> Some v
      | None \<Rightarrow>
          if k = ''LANG'' then lang else if k = ''TZ'' then tz else if k = ''TERM'' then term
          else if k = ''MAIL'' then Some (''/var/mail/'' @ ui_username (sc_user config))
          else if k = ''PATH'' then Some (if ui_uid (sc_user config) = 0
            then ''/usr/local/sbin:/usr/local/bin:/usr/sbin:/usr/bin:/sbin:/bin''
            else ''/usr/local/bin:/usr/bin:/bin'')
          else if k = ''SHELL'' then Some (ui_shell (sc_user config))
          else if k = ''HOME'' then Some (ui_home (sc_user config))
          else if k = ''LOGNAME'' \<or> k = ''USER'' then Some (ui_username (sc_user config))
          else None)"
proof -
  let ?base = "[(''USER'', ui_username (sc_user config)), (''LOGNAME'', ui_username (sc_user config)),
       (''HOME'', ui_home (sc_user config)), (''SHELL'', ui_shell (sc_user config)),
       (''PATH'', if ui_uid (sc_user config) = 0
                 then ''/usr/local/sbin:/usr/local/bin:/usr/sbin:/usr/bin:/sbin:/bin''
                 else ''/usr/local/bin:/usr/bin:/bin''),
       (''MAIL'', ''/var/mail/'' @ ui_username (sc_user config))]"
  define base where "base = ?base"
  have none: "effective_env base k = None" if "k = ''LANG'' \<or> k = ''TZ'' \<or> k = ''TERM''"
    using that by (auto simp: base_def effective_env_def)
  have rest: "effective_env base k =
      (if k = ''MAIL'' then Some (''/var/mail/'' @ ui_username (sc_user config))
       else if k = ''PATH'' then Some (if ui_uid (sc_user config) = 0
         then ''/usr/local/sbin:/usr/local/bin:/usr/sbin:/usr/bin:/sbin:/bin''
         else ''/usr/local/bin:/usr/bin:/bin'')
       else if k = ''SHELL'' then Some (ui_shell (sc_user config))
       else if k = ''HOME'' then Some (ui_home (sc_user config))
       else if k = ''LOGNAME'' \<or> k = ''USER'' then Some (ui_username (sc_user config))
       else None)"
    unfolding base_def effective_env_def by simp
  show ?thesis
    unfolding build_env_def Let_def base_def [symmetric] effective_env_append effective_env_optional
      rest [symmetric]
    using none by (cases "k = ''LANG''"; cases "k = ''TZ''"; cases "k = ''TERM''")
      (simp_all split: option.split)
qed

end
