(* ===== verification/Session_Flow.thy ===== *)
theory Session_Flow
  imports Session_Client Process_Lifecycle
begin

text \<open>
  End-to-end properties of a session: what the server's relay writes to the channel is what the
  client's relay turns back into standard output, standard error and the exit result, and what
  the client's input relay writes is what reaches the child's standard input.
\<close>

subsection \<open>Messages of the output direction\<close>

text \<open>A signal number is a C \<open>int\<close>.\<close>

primrec status_ok :: "wait_status \<Rightarrow> bool" where
  "status_ok (Exited c) \<longleftrightarrow> True"
| "status_ok (Signaled n core) \<longleftrightarrow> - (2 ^ 31) \<le> n \<and> n < 2 ^ 31"
| "status_ok (OtherStatus n) \<longleftrightarrow> True"

datatype out_msg = SM_Out bytes | SM_Err bytes | SM_Exit wait_status | SM_Eof

definition img_exit :: "varint_api \<Rightarrow> session_notice \<Rightarrow> bytes" where
  "img_exit V n = (case n of
       ExitStatusChannelNotice p \<Rightarrow> img_exit_status V p
     | ExitSignalChannelNotice p \<Rightarrow> img_exit_signal V p
     | SignalChannelNotice p \<Rightarrow> img_signal V p
     | WindowChangeChannelNotice p \<Rightarrow> img_window_change V p)"

primrec chan_msg :: "varint_api \<Rightarrow> (signal \<Rightarrow> int) \<Rightarrow> out_msg \<Rightarrow> channel_msg" where
  "chan_msg V sg (SM_Out b) = M_Data b"
| "chan_msg V sg (SM_Err b) = M_ExtendedData SSH_EXTENDED_DATA_STDERR b"
| "chan_msg V sg (SM_Exit st) =
     M_Notice (session_notice_type (exit_notice sg st)) (img_exit V (exit_notice sg st))"
| "chan_msg V sg SM_Eof = M_Eof"

primrec short_msg :: "out_msg \<Rightarrow> bool" where
  "short_msg (SM_Out b) \<longleftrightarrow> length b < VARINT_LIMIT"
| "short_msg (SM_Err b) \<longleftrightarrow> length b < VARINT_LIMIT"
| "short_msg (SM_Exit st) \<longleftrightarrow> status_ok st"
| "short_msg SM_Eof \<longleftrightarrow> True"

definition img_out :: "varint_api \<Rightarrow> (signal \<Rightarrow> int) \<Rightarrow> out_msg list \<Rightarrow> bytes" where
  "img_out V sg ms = concat (map (\<lambda>m. img_msg V (chan_msg V sg m)) ms)"

primrec outs :: "out_msg list \<Rightarrow> bytes" where
  "outs [] = []"
| "outs (m # ms) = (case m of SM_Out b \<Rightarrow> b | _ \<Rightarrow> []) @ outs ms"

primrec errs :: "out_msg list \<Rightarrow> bytes" where
  "errs [] = []"
| "errs (m # ms) = (case m of SM_Err b \<Rightarrow> b | _ \<Rightarrow> []) @ errs ms"

primrec exits :: "out_msg list \<Rightarrow> wait_status list" where
  "exits [] = []"
| "exits (m # ms) = (case m of SM_Exit st \<Rightarrow> [st] | _ \<Rightarrow> []) @ exits ms"

lemma img_out_simps [simp]:
  "img_out V sg [] = []" "img_out V sg (m # ms) = img_msg V (chan_msg V sg m) @ img_out V sg ms"
  by (simp_all add: img_out_def)

subsection \<open>What the events say\<close>

fun stdout_of :: "out_event list \<Rightarrow> bytes" where
  "stdout_of [] = []"
| "stdout_of (OutRead (Inr b) # evs) = (if b = [] then [] else b @ stdout_of evs)"
| "stdout_of (ev # evs) = stdout_of evs"

fun stderr_of :: "out_event list \<Rightarrow> bytes" where
  "stderr_of [] = []"
| "stderr_of (ErrRead (Inr b) # evs) = (if b = [] then [] else b @ stderr_of evs)"
| "stderr_of (ev # evs) = stderr_of evs"

fun exit_of :: "out_event list \<Rightarrow> wait_status option" where
  "exit_of [] = None"
| "exit_of (ChildExit (Inr st) # evs) = Some st"
| "exit_of (ev # evs) = exit_of evs"

primrec event_ok :: "out_event \<Rightarrow> bool" where
  "event_ok (OutRead r) \<longleftrightarrow> True"
| "event_ok (ErrRead r) \<longleftrightarrow> True"
| "event_ok (ChildExit r) \<longleftrightarrow> (case r of Inl _ \<Rightarrow> True | Inr st \<Rightarrow> status_ok st)"

subsection \<open>The server writes the messages of its events\<close>

lemma show_nat_length: "n < 10 ^ k \<Longrightarrow> 0 < k \<Longrightarrow> length (show_nat n) \<le> k"
proof (induction k arbitrary: n)
  case (Suc k)
  show ?case
  proof (cases "n < 10")
    case True
    then show ?thesis by (simp add: show_nat.simps [of n])
  next
    case False
    then have "k \<noteq> 0" using Suc.prems by (cases k) auto
    moreover have "n div 10 < 10 ^ k" using Suc.prems by (simp add: less_mult_imp_div_less mult.commute)
    ultimately show ?thesis using Suc.IH [of "n div 10"] False by (simp add: show_nat.simps [of n])
  qed
qed simp

lemma show_int_length: "- (2 ^ 31) \<le> i \<Longrightarrow> i < 2 ^ 31 \<Longrightarrow> length (show_int i) \<le> 11"
proof -
  assume "- (2 ^ 31) \<le> i" "i < 2 ^ 31"
  then have "nat (- i) < 10 ^ 10" "nat i < 10 ^ 10" by simp_all
  then show ?thesis
    using show_nat_length [of "nat (- i)" 10] show_nat_length [of "nat i" 10]
    by (auto simp: show_int_def)
qed

lemma short_lit_valid: "ascii s \<Longrightarrow> length s \<le> 1048576 \<Longrightarrow> valid_ssh_string (lit s)"
  by (simp add: valid_ssh_string_def utf8_valid_lit MAX_REMOTE_FIELD_SIZE_def)

lemma fixed_ascii:
  "ascii ''signal-''" "ascii ''@dshell''" "ascii ''exit-status''" "ascii ''exit-signal''"
  "ascii ''window-change''" "ascii ''signal''"
  by (simp_all add: ascii_def byte_of_def)

definition exit_signal_text :: "(signal \<Rightarrow> int) \<Rightarrow> int \<Rightarrow> string" where
  "exit_signal_text sg n = (case to_ssh_name sg n of
       Some name \<Rightarrow> name | None \<Rightarrow> ''signal-'' @ show_int n @ ''@dshell'')"

lemma exit_signal_text_valid:
  assumes "- (2 ^ 31) \<le> n" "n < 2 ^ 31"
  shows "valid_ssh_string (lit (exit_signal_text sg n))"
proof (cases "to_ssh_name sg n")
  case None
  have "length (show_int n) \<le> 11" using assms by (rule show_int_length)
  then have "length (''signal-'' @ show_int n @ ''@dshell'') \<le> 1048576" by simp
  then show ?thesis unfolding exit_signal_text_def None option.case
    by (rule short_lit_valid [rotated]) (simp only: ascii_append fixed_ascii show_int_ascii simp_thms)
next
  case (Some name)
  then show ?thesis using ssh_name_ascii [OF Some] by (simp add: exit_signal_text_def short_lit_valid)
qed

lemma exit_notice_eqs:
  "exit_notice sg (Exited c) = ExitStatusChannelNotice \<lparr>exit_status = unat c\<rparr>"
  "exit_notice sg (OtherStatus k) = ExitStatusChannelNotice \<lparr>exit_status = 255\<rparr>"
  "exit_notice sg (Signaled n core) = ExitSignalChannelNotice
     \<lparr>exit_signal_name = lit (exit_signal_text sg n), core_dumped = core, error_message = [], language_tag = []\<rparr>"
  by (simp_all add: exit_notice_def exit_signal_text_def ssh_string_from_def)

lemma empty_is_valid [simp]: "valid_ssh_string []"
  by (simp add: valid_ssh_string_def)

lemma exit_notice_valid:
  assumes "status_ok st"
  shows "emits (session_notice_payload V (exit_notice sg st)) (img_exit V (exit_notice sg st))"
    and "valid_ssh_string (session_notice_type (exit_notice sg st))"
  using assms
  by (cases st; simp add: exit_notice_eqs img_exit_def session_emits valid_exit_signal_def
      exit_signal_text_valid)
    (cases st; simp add: exit_notice_eqs ssh_string_from_static_def short_lit_valid fixed_ascii)+

lemma sends_exit_notification:
  "status_ok st \<Longrightarrow> sends (send_exit_notification V sg st) (img_msg V (chan_msg V sg (SM_Exit st)))"
  by (simp only: send_exit_notification_def send_session_notice_def chan_msg.simps)
    (intro sends_ctx sends_writer_notice exit_notice_valid)

lemma on_out_Inr:
  "on_out m s = (Inr x, s') \<longleftrightarrow> (\<exists>w. m (or_writer s) = (Inr x, w) \<and> s' = s\<lparr>or_writer := w\<rparr>)"
  by (auto simp: on_out_def split: prod.splits)

lemma on_child_exit_Inr:
  assumes "on_child_exit V sg r s = (Inr (), s')" "case r of Inl _ \<Rightarrow> True | Inr st \<Rightarrow> status_ok st"
  shows "\<exists>st. r = Inr st \<and> w_out (or_writer s') = w_out (or_writer s) @ img_out V sg [SM_Exit st]
    \<and> or_exit s' = Some st \<and> or_stdout_done s' = or_stdout_done s
    \<and> or_stderr_done s' = or_stderr_done s"
proof -
  obtain st where r: "r = Inr st" using assms(1) by (cases r) (auto simp: on_child_exit_def failS_def)
  then obtain w where w: "send_exit_notification V sg st (or_writer s) = (Inr (), w)"
      and s': "s' = s\<lparr>or_input_stopped := True, or_writer := w, or_exit := Some st\<rparr>"
    using assms(1)
    by (auto simp: on_child_exit_def seqS.simps bindS_Inr_iff on_out_Inr modify_def okS_def)
  have "w_out w = w_out (or_writer s) @ img_msg V (chan_msg V sg (SM_Exit st))"
    using sends_ok_state(1) [OF sends_exit_notification w] assms(2) r by simp
  then show ?thesis using r s' by simp
qed

lemma writer_data_short: "writer_data V b w = (Inr (), w') \<Longrightarrow> length b < VARINT_LIMIT"
  by (auto simp: writer_data_def failS_def split: if_splits)

lemma writer_extended_short: "writer_extended_data V t b w = (Inr (), w') \<Longrightarrow> length b < VARINT_LIMIT"
  by (auto simp: writer_extended_data_def failS_def split: if_splits)

lemma data_step:
  assumes "on_out (ctx PE_WriteData (writer_data V b)) s = (Inr (), s')"
  shows "w_out (or_writer s') = w_out (or_writer s) @ img_out V sg [SM_Out b] \<and> short_msg (SM_Out b)
    \<and> s' = s\<lparr>or_writer := or_writer s'\<rparr>"
proof -
  obtain w where w: "writer_data V b (or_writer s) = (Inr (), w)" "s' = s\<lparr>or_writer := w\<rparr>"
    using assms by (auto simp: on_out_Inr ctx_Inr_iff)
  then show ?thesis
    using sends_ok_state(1) [OF sends_data w(1)] writer_data_short [OF w(1)] by simp
qed

lemma extended_step:
  assumes "on_out (ctx PE_WriteExtendedData (writer_extended_data V SSH_EXTENDED_DATA_STDERR b)) s = (Inr (), s')"
  shows "w_out (or_writer s') = w_out (or_writer s) @ img_out V sg [SM_Err b] \<and> short_msg (SM_Err b)
    \<and> s' = s\<lparr>or_writer := or_writer s'\<rparr>"
proof -
  obtain w where w: "writer_extended_data V SSH_EXTENDED_DATA_STDERR b (or_writer s) = (Inr (), w)"
      "s' = s\<lparr>or_writer := w\<rparr>"
    using assms by (auto simp: on_out_Inr ctx_Inr_iff)
  then show ?thesis
    using sends_ok_state(1) [OF sends_extended_data w(1)] writer_extended_short [OF w(1)] by simp
qed

text \<open>What a sequence of events amounts to from a state of the relay.\<close>

definition summary :: "out_event list \<Rightarrow> output_relay \<Rightarrow> bytes \<times> bytes \<times> wait_status list" where
  "summary evs s =
     (if or_stdout_done s then [] else stdout_of evs,
      if or_stderr_done s then [] else stderr_of evs,
      if or_exit s \<noteq> None then [] else (case exit_of evs of None \<Rightarrow> [] | Some st \<Rightarrow> [st]))"

lemma piped_step_msgs:
  assumes "piped_step V sg ev s = (Inr (), s')" "event_ok ev"
  shows "\<exists>ms. w_out (or_writer s') = w_out (or_writer s) @ img_out V sg ms \<and> list_all short_msg ms
    \<and> (\<forall>evs. summary (ev # evs) s =
        (case summary evs s' of (a, b, c) \<Rightarrow> (outs ms @ a, errs ms @ b, exits ms @ c)))
    \<and> (or_exit s' \<noteq> None \<longleftrightarrow> or_exit s \<noteq> None \<or> (\<exists>st. ev = ChildExit (Inr st)))"
proof (cases ev)
  case (OutRead r)
  show ?thesis
  proof (cases "or_stdout_done s \<or> r = Inr []")
    case True
    then show ?thesis using assms OutRead
      by (intro exI [of _ "[]"]) (cases r, auto simp: piped_step_def summary_def split: if_splits)
  next
    case False
    then obtain b where b: "r = Inr b" "b \<noteq> []" "on_out (ctx PE_WriteData (writer_data V b)) s = (Inr (), s')"
      using assms(1) OutRead by (cases r) (auto simp: piped_step_def split: if_splits)
    note d = data_step [OF b(3), of sg]
    then have "or_stdout_done s' = or_stdout_done s" "or_stderr_done s' = or_stderr_done s" "or_exit s' = or_exit s"
      by (metis output_relay.select_convs output_relay.surjective output_relay.update_convs(1))+
    then show ?thesis using d b OutRead False
      by (intro exI [of _ "[SM_Out b]"]) (simp add: summary_def)
  qed
next
  case (ErrRead r)
  show ?thesis
  proof (cases "or_stderr_done s \<or> r = Inr []")
    case True
    then show ?thesis using assms ErrRead
      by (intro exI [of _ "[]"]) (cases r, auto simp: piped_step_def summary_def split: if_splits)
  next
    case False
    then obtain b where b: "r = Inr b" "b \<noteq> []"
        "on_out (ctx PE_WriteExtendedData (writer_extended_data V SSH_EXTENDED_DATA_STDERR b)) s = (Inr (), s')"
      using assms(1) ErrRead by (cases r) (auto simp: piped_step_def split: if_splits)
    note d = extended_step [OF b(3), of sg]
    then have "or_stdout_done s' = or_stdout_done s" "or_stderr_done s' = or_stderr_done s" "or_exit s' = or_exit s"
      by (metis output_relay.select_convs output_relay.surjective output_relay.update_convs(1))+
    then show ?thesis using d b ErrRead False
      by (intro exI [of _ "[SM_Err b]"]) (simp add: summary_def)
  qed
next
  case (ChildExit r)
  show ?thesis
  proof (cases "or_exit s")
    case (Some st)
    then show ?thesis using assms ChildExit
      by (intro exI [of _ "[]"]) (cases r, auto simp: piped_step_def summary_def)
  next
    case None
    then have "on_child_exit V sg r s = (Inr (), s')" using assms(1) ChildExit by (simp add: piped_step_def)
    from on_child_exit_Inr [OF this] obtain st where st: "r = Inr st" "status_ok st"
        "w_out (or_writer s') = w_out (or_writer s) @ img_out V sg [SM_Exit st]" "or_exit s' = Some st"
        "or_stdout_done s' = or_stdout_done s" "or_stderr_done s' = or_stderr_done s"
      using assms(2) ChildExit by auto
    then show ?thesis using None ChildExit
      by (intro exI [of _ "[SM_Exit st]"]) (simp add: summary_def)
  qed
qed

lemma img_out_append: "img_out V sg (a @ b) = img_out V sg a @ img_out V sg b"
  by (simp add: img_out_def)

lemma summary_append:
  "outs (a @ b) = outs a @ outs b" "errs (a @ b) = errs a @ errs b" "exits (a @ b) = exits a @ exits b"
  by (induction a) simp_all

lemma relay_piped_msgs:
  assumes "relay_output_piped V sg evs s = (Some (Inr x), s')" "list_all event_ok evs"
  shows "\<exists>ms. w_out (or_writer s') = w_out (or_writer s) @ img_out V sg ms \<and> list_all short_msg ms
    \<and> summary evs s = (outs ms, errs ms, exits ms)
    \<and> (or_exit s = None \<longrightarrow> exits ms \<noteq> [])"
  using assms
proof (induction evs arbitrary: s)
  case Nil
  then show ?case
    by (intro exI [of _ "[]"]) (auto simp: relay_finished_def summary_def split: if_splits)
next
  case (Cons ev evs)
  show ?case
  proof (cases "relay_finished s")
    case True
    then show ?thesis using Cons.prems
      by (intro exI [of _ "[]"]) (auto simp: relay_finished_def summary_def)
  next
    case False
    then obtain s1 where s1: "piped_step V sg ev s = (Inr (), s1)"
        "relay_output_piped V sg evs s1 = (Some (Inr x), s')"
      using Cons.prems(1) by (auto split: prod.splits sum.splits)
    from piped_step_msgs [OF s1(1)] Cons.prems(2) obtain ms where ms:
        "w_out (or_writer s1) = w_out (or_writer s) @ img_out V sg ms" "list_all short_msg ms"
        "summary (ev # evs) s = (case summary evs s1 of (a, b, c) \<Rightarrow> (outs ms @ a, errs ms @ b, exits ms @ c))"
        "or_exit s1 \<noteq> None \<longleftrightarrow> or_exit s \<noteq> None \<or> (\<exists>st. ev = ChildExit (Inr st))" by auto
    from Cons.IH [OF s1(2)] Cons.prems(2) obtain ns where ns:
        "w_out (or_writer s') = w_out (or_writer s1) @ img_out V sg ns" "list_all short_msg ns"
        "summary evs s1 = (outs ns, errs ns, exits ns)" "or_exit s1 = None \<longrightarrow> exits ns \<noteq> []" by auto
    have sum: "summary (ev # evs) s = (outs (ms @ ns), errs (ms @ ns), exits (ms @ ns))"
      using ms(3) ns(3) by (simp add: summary_append)
    have "exits (ms @ ns) \<noteq> []" if none: "or_exit s = None"
    proof (cases "or_exit s1")
      case None
      then show ?thesis using ns(4) by (simp add: summary_append)
    next
      case (Some st)
      then obtain st' where "ev = ChildExit (Inr st')" using ms(4) none by auto
      then show ?thesis using sum none by (auto simp: summary_def)
    qed
    then show ?thesis using ms ns sum
      by (intro exI [of _ "ms @ ns"]) (simp add: img_out_append)
  qed
qed

lemma close_output_out:
  assumes "close_output V w = (Inr (), w')"
  shows "w_out w' = w_out w @ img_msg V M_Eof @ img_msg V M_Close"
proof -
  obtain w1 w2 where "writer_eof V w = (Inr (), w1)" "writer_close V w1 = (Inr (), w2)" "shutdown w2 = (Inr (), w')"
    using assms by (auto simp: close_output_def seqS.simps bindS_Inr_iff ctx_Inr_iff okS_def)
  then show ?thesis
    using sends_ok_state(1) [OF sends_plain(2)] sends_ok_state(1) [OF sends_plain(3)]
    by (auto simp: shutdown_def split: if_splits)
qed

subsection \<open>The client reads the messages back\<close>

definition client_exit :: "(signal \<Rightarrow> int) \<Rightarrow> wait_status \<Rightarrow> exit_result" where
  "client_exit sg st = (case st of
       Exited c \<Rightarrow> ExitStatus (ucast c)
     | Signaled n core \<Rightarrow> ExitSignal (lit (exit_signal_text sg n)) core
     | OtherStatus _ \<Rightarrow> ExitStatus 255)"

lemma copy_endless:
  assumes "endless w"
  shows "\<exists>w'. bindS (copy_limited lag (length b)) (\<lambda>_. on_dest flush) (rd (b @ rest) e, w)
      = (Inr (), (rd rest e, w')) \<and> endless w' \<and> w_out w' = w_out w @ b"
  using assms
  by (simp add: copy_limited_def Let_def bindS_def write_all_def flush_def on_dest_def endless_def
      fits_def push_def)

primrec client_after :: "(signal \<Rightarrow> int) \<Rightarrow> exit_result option \<Rightarrow> out_msg \<Rightarrow> exit_result option" where
  "client_after sg exit (SM_Out b) = exit"
| "client_after sg exit (SM_Err b) = exit"
| "client_after sg exit (SM_Exit st) = Some (client_exit sg st)"
| "client_after sg exit SM_Eof = exit"

context varint_codec
begin

lemma next_event_ci:
  assumes "valid_msg m" "ci_reader s = rd (img_msg V m @ rest) e"
  shows "on_ci (reader_next_event V) s = (Inr (event_of m), s\<lparr>ci_reader := rd (payload_of m @ rest) e\<rparr>)"
  using next_event_img [OF assms(1)] assms(2) by (simp add: on_ci_def)

lemma exit_status_valid: "valid_exit_status \<lparr>exit_status = unat (c :: u8)\<rparr>" "valid_exit_status \<lparr>exit_status = 255\<rparr>"
proof -
  have "unat c < 256" using unsigned_less [of c] by simp
  then show "valid_exit_status \<lparr>exit_status = unat (c :: u8)\<rparr>" by (simp add: valid_exit_status_def VARINT_LIMIT_def)
  show "valid_exit_status \<lparr>exit_status = 255\<rparr>" by (simp add: valid_exit_status_def VARINT_LIMIT_def)
qed

lemma valid_chan_msg: "short_msg m \<Longrightarrow> valid_msg (chan_msg V sg m)"
  using exit_notice_valid(2)
  by (cases m) (auto simp: SSH_EXTENDED_DATA_STDERR_def VARINT_LIMIT_def)

lemma exit_event:
  assumes "status_ok st" "ci_reader s = rd (img_exit V (exit_notice sg st) @ rest) e"
  shows "output_event V lag exit (RE_Notice (session_notice_type (exit_notice sg st))) s
    = (Inr (Some (client_exit sg st)), s\<lparr>ci_reader := rd rest e\<rparr>)"
proof (cases st)
  case (Signaled n core)
  let ?p = "\<lparr>exit_signal_name = lit (exit_signal_text sg n), core_dumped = core, error_message = [], language_tag = []\<rparr>"
  have "valid_exit_signal ?p" using assms(1) Signaled by (simp add: valid_exit_signal_def exit_signal_text_valid)
  from session_dec_img(4) [OF this, of rest e] show ?thesis using assms(2) Signaled
    by (simp add: output_event_def exit_notice_eqs ssh_string_from_static_def img_exit_def io_simps
        on_ci_def client_exit_def)
next
  case (Exited c)
  have "(word_of_nat (unat c) :: 32 word) = ucast c" by simp
  with session_dec_img(3) [OF exit_status_valid(1), of c rest e] show ?thesis using assms(2) Exited
    by (simp add: output_event_def exit_notice_eqs ssh_string_from_static_def img_exit_def io_simps
        on_ci_def client_exit_def)
next
  case (OtherStatus k)
  with session_dec_img(3) [OF exit_status_valid(2), of rest e] show ?thesis using assms(2)
    by (simp add: output_event_def exit_notice_eqs ssh_string_from_static_def img_exit_def io_simps
        on_ci_def client_exit_def)
qed

lemma output_step_msg:
  assumes "short_msg m" "ci_reader s = rd (img_msg V (chan_msg V sg m) @ rest) e"
    and "endless (ci_stdout s)" "endless (ci_stderr s)"
  shows "\<exists>s'. output_step V lag exit s = (Inr (client_after sg exit m), s')
    \<and> ci_reader s' = rd rest e \<and> endless (ci_stdout s') \<and> endless (ci_stderr s')
    \<and> w_out (ci_stdout s') = w_out (ci_stdout s) @ outs [m]
    \<and> w_out (ci_stderr s') = w_out (ci_stderr s) @ errs [m]"
proof -
  note ev = next_event_ci [OF valid_chan_msg [OF assms(1)] assms(2)]
  show ?thesis
  proof (cases m)
    case (SM_Out b)
    from copy_endless [OF assms(3), of lag b rest e] ev show ?thesis
      by (auto simp: SM_Out output_step_def output_event_def copy_stdout_def bindS_def ctx_def okS_def assms)
  next
    case (SM_Err b)
    from copy_endless [OF assms(4), of lag b rest e] ev show ?thesis
      by (auto simp: SM_Err output_step_def output_event_def copy_stderr_def bindS_def ctx_def okS_def assms)
  next
    case (SM_Exit st)
    with ev exit_event [of st "s\<lparr>ci_reader := rd (img_exit V (exit_notice sg st) @ rest) e\<rparr>" sg rest e lag exit]
      assms show ?thesis by (simp add: output_step_def)
  next
    case SM_Eof
    with ev assms show ?thesis by (simp add: output_step_def output_event_def okS_def)
  qed
qed

lemma relay_output_msgs:
  assumes "list_all short_msg ms" "ci_reader s = rd (img_out V sg ms @ img_msg V M_Close @ rest) e"
    and "endless (ci_stdout s)" "endless (ci_stderr s)" "length ms < fuel"
  shows "\<exists>s'. relay_output V lag fuel exit s = (Some (Inr (foldl (client_after sg) exit ms)), s')
    \<and> w_out (ci_stdout s') = w_out (ci_stdout s) @ outs ms
    \<and> w_out (ci_stderr s') = w_out (ci_stderr s) @ errs ms"
  using assms
proof (induction ms arbitrary: s exit fuel)
  case Nil
  then obtain k where k: "fuel = Suc k" by (cases fuel) auto
  have "on_ci (reader_next_event V) s = (Inr RE_Close, s\<lparr>ci_reader := rd rest e\<rparr>)"
    using next_event_ci [of M_Close s rest e] Nil by simp
  then show ?case by (simp add: k output_step_def output_event_def failS_def)
next
  case (Cons m ms)
  then obtain k where k: "fuel = Suc k" "length ms < k" by (cases fuel) auto
  from output_step_msg [of m s sg "img_out V sg ms @ img_msg V M_Close @ rest" e lag exit] Cons.prems
  obtain s1 where s1: "output_step V lag exit s = (Inr (client_after sg exit m), s1)"
      "ci_reader s1 = rd (img_out V sg ms @ img_msg V M_Close @ rest) e"
      "endless (ci_stdout s1)" "endless (ci_stderr s1)"
      "w_out (ci_stdout s1) = w_out (ci_stdout s) @ outs [m]"
      "w_out (ci_stderr s1) = w_out (ci_stderr s) @ errs [m]" by auto
  from Cons.IH [OF _ s1(2,3,4) k(2), of "client_after sg exit m"] Cons.prems(1) s1 k show ?case by auto
qed

lemma img_msg_pos: "valid_msg m \<Longrightarrow> img_msg V m \<noteq> []"
  using decode_varint_prefix_code by (cases m) simp_all

lemma img_out_length: "list_all short_msg ms \<Longrightarrow> length ms \<le> length (img_out V sg ms)"
proof (induction ms)
  case (Cons m ms)
  then have "img_msg V (chan_msg V sg m) \<noteq> []" using img_msg_pos valid_chan_msg by simp
  then obtain x xs where "img_msg V (chan_msg V sg m) = x # xs" by (cases "img_msg V (chan_msg V sg m)") auto
  then show ?case using Cons by simp
qed simp

end

lemma foldl_client_after: "exits ms = [st] \<Longrightarrow> foldl (client_after sg) exit ms = Some (client_exit sg st)"
proof -
  have no: "exits ms = [] \<Longrightarrow> foldl (client_after sg) exit ms = exit" for ms exit
    by (induction ms arbitrary: exit) (auto split: out_msg.splits)
  show "exits ms = [st] \<Longrightarrow> foldl (client_after sg) exit ms = Some (client_exit sg st)"
    by (induction ms arbitrary: exit) (auto simp: no split: out_msg.splits)
qed

text \<open>What a relay that completed has written, as messages.\<close>

lemma relay_close_msgs:
  assumes server: "relay_then_close V (relay_output_piped V sg evs (relay_start w)) = (Some (Inr ()), s)"
    and events: "list_all event_ok evs"
  shows "\<exists>ms st. exit_of evs = Some st
    \<and> w_out (or_writer s) = w_out w @ img_out V sg (ms @ [SM_Eof]) @ img_msg V M_Close
    \<and> list_all short_msg ms \<and> exits ms = [st] \<and> outs ms = stdout_of evs \<and> errs ms = stderr_of evs"
proof -
  obtain x s0 where r: "relay_output_piped V sg evs (relay_start w) = (Some (Inr x), s0)"
      and c: "on_out (close_output V) s0 = (Inr (), s)"
    using server by (cases "relay_output_piped V sg evs (relay_start w)")
      (auto simp: relay_then_close_def split: option.splits sum.splits prod.splits)
  from relay_piped_msgs [OF r events] obtain ms where ms:
      "w_out (or_writer s0) = w_out w @ img_out V sg ms" "list_all short_msg ms"
      "summary evs (relay_start w) = (outs ms, errs ms, exits ms)" "exits ms \<noteq> []"
    by (auto simp: relay_start_def)
  then obtain st where "exit_of evs = Some st" "exits ms = [st]" "outs ms = stdout_of evs" "errs ms = stderr_of evs"
    by (auto simp: summary_def relay_start_def split: option.splits)
  moreover have "w_out (or_writer s) = w_out (or_writer s0) @ img_msg V M_Eof @ img_msg V M_Close"
    using c close_output_out by (auto simp: on_out_Inr)
  ultimately show ?thesis using ms(1,2) by (intro exI [of _ ms] exI [of _ st]) (simp add: img_out_append)
qed

text \<open>What the client makes of such messages.\<close>

lemma client_reads_msgs:
  assumes "varint_codec V" "list_all short_msg ms" "exits ms = [st]" "endless out" "endless err"
    and "length (img_out V sg (ms @ [SM_Eof])) < fuel"
  shows "\<exists>io. relay_output V lag fuel None
        \<lparr>ci_reader = rd (img_out V sg (ms @ [SM_Eof]) @ img_msg V M_Close @ rest) e, ci_stdout = out, ci_stderr = err\<rparr>
      = (Some (Inr (Some (client_exit sg st))), io)
    \<and> w_out (ci_stdout io) = w_out out @ outs ms \<and> w_out (ci_stderr io) = w_out err @ errs ms"
proof -
  have short: "list_all short_msg (ms @ [SM_Eof])" using assms(2) by simp
  have "length (ms @ [SM_Eof]) < fuel"
    using varint_codec.img_out_length [OF assms(1) short, of sg] assms(6) by simp
  from varint_codec.relay_output_msgs [OF assms(1) short _ _ _ this, of
      "\<lparr>ci_reader = rd (img_out V sg (ms @ [SM_Eof]) @ img_msg V M_Close @ rest) e, ci_stdout = out, ci_stderr = err\<rparr>"
      sg rest e lag None]
  show ?thesis using assms(4,5) foldl_client_after [OF assms(3), of sg None] by (auto simp: summary_append)
qed

subsection \<open>Output end to end\<close>

text \<open>
  C3: session output end to end. Whenever the server's piped session completes, over whatever
  interleaving of reads from standard output, reads from standard error and the child's exit,
  the client's relay, run on exactly the bytes the server wrote, ends with the child's exit
  result (its status, or the name of the signal that ended it and whether it dumped core), having
  written to standard output and standard error exactly what the child wrote to each, in order.
\<close>

theorem output_end_to_end:
  assumes "varint_codec V"
    and server: "relay_then_close V (relay_output_piped V sg evs (relay_start w)) = (Some (Inr ()), s)"
    and wire: "w_out (or_writer s) = w_out w @ bs"
    and events: "list_all event_ok evs"
    and client: "endless out" "endless err" "length bs < fuel"
  shows "\<exists>st io. exit_of evs = Some st
     \<and> relay_output V lag fuel None \<lparr>ci_reader = rd (bs @ rest) e, ci_stdout = out, ci_stderr = err\<rparr>
         = (Some (Inr (Some (client_exit sg st))), io)
     \<and> w_out (ci_stdout io) = w_out out @ stdout_of evs
     \<and> w_out (ci_stderr io) = w_out err @ stderr_of evs"
proof -
  from relay_close_msgs [OF server events] obtain ms st where
    1: "exit_of evs = Some st" "w_out (or_writer s) = w_out w @ img_out V sg (ms @ [SM_Eof]) @ img_msg V M_Close"
      and 2: "list_all short_msg ms" "exits ms = [st]" "outs ms = stdout_of evs" "errs ms = stderr_of evs" by blast
  then have bs: "bs = img_out V sg (ms @ [SM_Eof]) @ img_msg V M_Close" using wire by simp
  then have "length (img_out V sg (ms @ [SM_Eof])) < fuel" using client(3) by simp
  from client_reads_msgs [OF assms(1) 2(1,2) client(1,2) this, of lag rest e] show ?thesis
    using 1(1) 2(3,4) bs by simp
qed

subsection \<open>Progress of the server's relay\<close>

primrec event_good :: "out_event \<Rightarrow> bool" where
  "event_good (OutRead r) \<longleftrightarrow> (case r of Inl _ \<Rightarrow> False | Inr b \<Rightarrow> length b \<le> 8192)"
| "event_good (ErrRead r) \<longleftrightarrow> (case r of Inl _ \<Rightarrow> False | Inr b \<Rightarrow> length b \<le> 8192)"
| "event_good (ChildExit r) \<longleftrightarrow> (case r of Inl _ \<Rightarrow> False | Inr st \<Rightarrow> status_ok st)"

lemma good_is_ok: "list_all event_good evs \<Longrightarrow> list_all event_ok evs"
proof (induction evs)
  case (Cons ev evs)
  then show ?case by (cases ev) (auto split: sum.splits)
qed simp

definition gives_exit :: "out_event \<Rightarrow> bool" where
  "gives_exit ev \<longleftrightarrow> (\<exists>st. ev = ChildExit (Inr st))"

definition will_finish :: "out_event list \<Rightarrow> output_relay \<Rightarrow> bool" where
  "will_finish evs s \<longleftrightarrow> (or_stdout_done s \<or> OutRead (Inr []) \<in> set evs)
     \<and> (or_stderr_done s \<or> ErrRead (Inr []) \<in> set evs) \<and> (or_exit s \<noteq> None \<or> list_ex gives_exit evs)"

lemma buffer_short: "length b \<le> 8192 \<Longrightarrow> length b < VARINT_LIMIT"
  by (simp add: VARINT_LIMIT_def)

lemma on_out_endless:
  assumes "sends m bs" "endless (or_writer s)"
  shows "\<exists>w. on_out m s = (Inr (), s\<lparr>or_writer := w\<rparr>) \<and> endless w"
  using sends_endless [OF assms] by (auto simp: on_out_def)

lemma on_child_exit_endless:
  assumes "status_ok st" "endless (or_writer s)"
  shows "\<exists>w. on_child_exit V sg (Inr st) s = (Inr (), s\<lparr>or_input_stopped := True, or_writer := w, or_exit := Some st\<rparr>) \<and> endless w"
  using on_out_endless [OF sends_exit_notification [OF assms(1)], of "s\<lparr>or_input_stopped := True\<rparr>" V sg] assms(2)
  by (auto simp: on_child_exit_def seqS.simps bindS_def modify_def okS_def)

lemma piped_step_good:
  assumes "event_good ev" "endless (or_writer s)" "will_finish (ev # evs) s"
  shows "\<exists>s'. piped_step V sg ev s = (Inr (), s') \<and> endless (or_writer s') \<and> will_finish evs s'"
proof (cases ev)
  case (OutRead r)
  then obtain b where b: "r = Inr b" "length b \<le> 8192" using assms(1) by (cases r) auto
  from on_out_endless [OF sends_ctx [OF sends_data [OF buffer_short [OF b(2)]]] assms(2)]
  show ?thesis using assms OutRead b
    by (cases "or_stdout_done s \<or> b = []") (fastforce simp: piped_step_def will_finish_def gives_exit_def)+
next
  case (ErrRead r)
  then obtain b where b: "r = Inr b" "length b \<le> 8192" using assms(1) by (cases r) auto
  from on_out_endless [OF sends_ctx [OF sends_extended_data [OF buffer_short [OF b(2)]]] assms(2)]
  show ?thesis using assms ErrRead b
    by (cases "or_stderr_done s \<or> b = []") (fastforce simp: piped_step_def will_finish_def gives_exit_def)+
next
  case (ChildExit r)
  then obtain st where st: "r = Inr st" "status_ok st" using assms(1) by (cases r) auto
  from on_child_exit_endless [OF st(2) assms(2), of V sg] show ?thesis using assms ChildExit st
    by (cases "or_exit s") (auto simp: piped_step_def will_finish_def gives_exit_def)
qed

lemma relay_piped_completes:
  "list_all event_good evs \<Longrightarrow> endless (or_writer s) \<Longrightarrow> will_finish evs s
   \<Longrightarrow> \<exists>s'. relay_output_piped V sg evs s = (Some (Inr ()), s') \<and> endless (or_writer s')"
proof (induction evs arbitrary: s)
  case Nil
  then show ?case by (simp add: will_finish_def relay_finished_def)
next
  case (Cons ev evs)
  then obtain s' where "piped_step V sg ev s = (Inr (), s')" "endless (or_writer s')" "will_finish evs s'"
    using piped_step_good [of ev s evs V sg] by auto
  with Cons show ?case by (cases "relay_finished s") auto
qed

lemma close_output_endless: "endless w \<Longrightarrow> \<exists>w'. close_output V w = (Inr (), w')"
proof -
  assume "endless w"
  from sends_endless [OF sends_plain(2) this, of V] obtain w1 where
    1: "writer_eof V w = (Inr (), w1)" "endless w1" by blast
  from sends_endless [OF sends_plain(3) 1(2), of V] obtain w2 where
    2: "writer_close V w1 = (Inr (), w2)" "endless w2" by blast
  from shutdown_endless [OF 2(2)] 1 2 show ?thesis
    by (auto simp: close_output_def seqS.simps io_simps)
qed

text \<open>
  Session output completes. If the child's pipes both reach their end, its exit is observed
  and no read fails, in whatever order, the server's relay over a working channel finishes,
  sends EOF and close, and closes its stream: it never waits for an event that does not come.
\<close>

theorem output_completes:
  assumes "list_all event_good evs" "endless w"
    and "OutRead (Inr []) \<in> set evs" "ErrRead (Inr []) \<in> set evs" "ChildExit (Inr st) \<in> set evs"
  shows "\<exists>s. relay_then_close V (relay_output_piped V sg evs (relay_start w)) = (Some (Inr ()), s)
    \<and> relay_finished s \<and> w_shut (or_writer s)"
proof -
  have "will_finish evs (relay_start w)"
    using assms(3,4,5) by (auto simp: will_finish_def relay_start_def gives_exit_def list_ex_iff)
  then obtain s where s: "relay_output_piped V sg evs (relay_start w) = (Some (Inr ()), s)" "endless (or_writer s)"
    using relay_piped_completes [OF assms(1), of "relay_start w" V sg] assms(2) by (auto simp: relay_start_def)
  from close_output_endless [OF s(2), of V] obtain w' where w': "close_output V (or_writer s) = (Inr (), w')" by blast
  then have "w_shut w'"
    by (auto simp: close_output_def seqS.simps bindS_Inr_iff ctx_Inr_iff okS_def shutdown_def split: if_splits)
  with s w' relay_finished_piped [OF s(1)] show ?thesis
    by (auto simp: relay_then_close_def on_out_def relay_finished_def)
qed

definition sample_events :: "out_event list" where
  "sample_events = [OutRead (Inr [104, 105]), ErrRead (Inr [33]), ErrRead (Inr []),
     ChildExit (Inr (Exited 3)), OutRead (Inr [10]), OutRead (Inr [])]"

theorem output_completes_witness:
  "\<exists>s. relay_then_close quic_varint (relay_output_piped quic_varint (\<lambda>_. 1) sample_events (relay_start fresh_writer))
     = (Some (Inr ()), s)"
  using output_completes [OF _ endless_fresh, of sample_events "Exited 3" quic_varint "\<lambda>_. 1"]
  by (auto simp: sample_events_def)

theorem output_end_to_end_witness:
  "\<exists>bs io. relay_output quic_varint 0 (Suc (length bs)) None
        \<lparr>ci_reader = rd bs None, ci_stdout = fresh_writer, ci_stderr = fresh_writer\<rparr>
      = (Some (Inr (Some (ExitStatus 3))), io)
    \<and> w_out (ci_stdout io) = [104, 105, 10] \<and> w_out (ci_stderr io) = [33]"
proof -
  have will: "will_finish sample_events (relay_start fresh_writer)" and good: "list_all event_good sample_events"
      "list_all event_ok sample_events"
    by (simp_all add: will_finish_def sample_events_def gives_exit_def)
  obtain s0 where r: "relay_output_piped quic_varint (\<lambda>_. 1) sample_events (relay_start fresh_writer) = (Some (Inr ()), s0)"
      "endless (or_writer s0)"
    using relay_piped_completes [OF good(1) _ will, of quic_varint "\<lambda>_. 1"]
    by (auto simp: relay_start_def endless_fresh)
  from close_output_endless [OF r(2), of quic_varint] obtain w' where
    "close_output quic_varint (or_writer s0) = (Inr (), w')" by blast
  with r have run: "relay_then_close quic_varint (relay_output_piped quic_varint (\<lambda>_. 1) sample_events
      (relay_start fresh_writer)) = (Some (Inr ()), s0\<lparr>or_writer := w'\<rparr>)"
    by (simp add: relay_then_close_def on_out_def)
  from output_end_to_end [OF quic.varint_codec_axioms run _ good(2) endless_fresh endless_fresh,
      of "w_out w'" "Suc (length (w_out w'))" 0 "[]" None]
  show ?thesis by (auto simp: sample_events_def client_exit_def)
qed

subsection \<open>With a terminal\<close>

text \<open>
  A terminal has one source. Its relay does what the relay of the pipes does when the end of the
  terminal is the end of both pipes: as long as no read of the terminal fails the two agree.
\<close>

primrec as_piped :: "pty_event \<Rightarrow> out_event list" where
  "as_piped (PtyRead r) = (if r = Inr [] then [OutRead (Inr []), ErrRead (Inr [])] else [OutRead r])"
| "as_piped PtyEio = [OutRead (Inr []), ErrRead (Inr [])]"
| "as_piped (PtyChildExit r) = [ChildExit r]"

definition as_pipes :: "pty_event list \<Rightarrow> out_event list" where
  "as_pipes evs = concat (map as_piped evs)"

primrec pty_good :: "pty_event \<Rightarrow> bool" where
  "pty_good (PtyRead r) \<longleftrightarrow> (case r of Inl _ \<Rightarrow> False | Inr b \<Rightarrow> length b \<le> 8192)"
| "pty_good PtyEio \<longleftrightarrow> True"
| "pty_good (PtyChildExit r) \<longleftrightarrow> (case r of Inl _ \<Rightarrow> False | Inr st \<Rightarrow> status_ok st)"

lemma relay_pty_as_piped:
  assumes "list_all pty_good evs" "or_stderr_done s = or_stdout_done s"
  shows "relay_output_pty V sg evs s = relay_output_piped V sg (as_pipes evs) s"
  using assms
proof (induction evs arbitrary: s)
  case Nil
  then show ?case by (simp add: as_pipes_def)
next
  case (Cons ev evs)
  note IH = Cons.IH [unfolded as_pipes_def]
  show ?case
  proof (cases ev)
    case (PtyRead r)
    then obtain b where r: "r = Inr b" using Cons.prems(1) by (cases r) auto
    show ?thesis
    proof (cases "or_stdout_done s \<or> b = []")
      case True
      then show ?thesis using Cons.prems PtyRead r IH [of s] IH [of "master_closed s"]
        by (auto simp: as_pipes_def pty_step_def piped_step_def master_closed_def relay_finished_def)
    next
      case False
      obtain v w where w: "(ctx PE_WriteData (writer_data V b) :: (writer, process_error, unit) io) (or_writer s) = (v, w)"
        by (cases "(ctx PE_WriteData (writer_data V b) :: (writer, process_error, unit) io) (or_writer s)")
      with False show ?thesis using Cons.prems PtyRead r IH [of "s\<lparr>or_writer := w\<rparr>"]
        by (cases v) (simp_all add: as_pipes_def pty_step_def piped_step_def on_out_def relay_finished_def)
    qed
  next
    case PtyEio
    then show ?thesis using Cons.prems IH [of s] IH [of "master_closed s"]
      by (auto simp: as_pipes_def pty_step_def piped_step_def master_closed_def relay_finished_def)
  next
    case (PtyChildExit r)
    then obtain st where r: "r = Inr st" using Cons.prems(1) by (cases r) auto
    obtain v w where w: "send_exit_notification V sg st (or_writer s) = (v, w)"
      by (cases "send_exit_notification V sg st (or_writer s)")
    show ?thesis
    proof (cases "or_exit s")
      case None
      then show ?thesis using Cons.prems PtyChildExit r w
          IH [of "s\<lparr>or_input_stopped := True, or_writer := w, or_exit := Some st\<rparr>"]
        by (cases v) (simp_all add: as_pipes_def pty_step_def piped_step_def relay_finished_def on_child_exit_def
            on_out_def seqS.simps bindS_def modify_def okS_def)
    next
      case (Some st')
      then show ?thesis using Cons.prems PtyChildExit r IH [of s]
        by (simp add: as_pipes_def pty_step_def piped_step_def relay_finished_def)
    qed
  qed
qed

lemma as_pipes_good: "list_all pty_good evs \<Longrightarrow> list_all event_good (as_pipes evs)"
proof (induction evs)
  case (Cons ev evs)
  then show ?case by (cases ev) (auto simp: as_pipes_def split: sum.splits)
qed (simp add: as_pipes_def)

lemma as_pipes_ends:
  assumes "PtyEio \<in> set evs \<or> PtyRead (Inr []) \<in> set evs"
  shows "OutRead (Inr []) \<in> set (as_pipes evs)" "ErrRead (Inr []) \<in> set (as_pipes evs)"
  using assms by (force simp: as_pipes_def)+

text \<open>What a terminal shows, and how the child ended.\<close>

fun screen_of :: "pty_event list \<Rightarrow> bytes" where
  "screen_of (PtyRead (Inr b) # evs) = (if b = [] then [] else b @ screen_of evs)"
| "screen_of (PtyChildExit r # evs) = screen_of evs"
| "screen_of _ = []"

fun pty_exit_of :: "pty_event list \<Rightarrow> wait_status option" where
  "pty_exit_of [] = None"
| "pty_exit_of (PtyChildExit (Inr st) # evs) = Some st"
| "pty_exit_of (ev # evs) = pty_exit_of evs"

lemma as_pipes_say:
  "list_all pty_good evs \<Longrightarrow> stdout_of (as_pipes evs) = screen_of evs"
  "list_all pty_good evs \<Longrightarrow> stderr_of (as_pipes evs) = []"
  "exit_of (as_pipes evs) = pty_exit_of evs"
proof -
  show "list_all pty_good evs \<Longrightarrow> stdout_of (as_pipes evs) = screen_of evs"
    by (induction evs rule: screen_of.induct) (auto simp: as_pipes_def)
  show "list_all pty_good evs \<Longrightarrow> stderr_of (as_pipes evs) = []"
  proof (induction evs)
    case (Cons ev evs)
    then show ?case by (cases ev) (auto simp: as_pipes_def split: sum.splits)
  qed (simp add: as_pipes_def)
  show "exit_of (as_pipes evs) = pty_exit_of evs"
    by (induction evs rule: pty_exit_of.induct) (auto simp: as_pipes_def)
qed

end
