(* ===== verification/Session_Input.thy ===== *)
theory Session_Input
  imports Session_Flow
begin

text \<open>
  The input direction of a session end to end, and that the client's output relay always ends.
\<close>

subsection \<open>Messages of the input direction\<close>

datatype in_msg = IM_Data bytes | IM_Resize window_change_request | IM_Signal ssh_string

primrec in_chan_msg :: "varint_api \<Rightarrow> in_msg \<Rightarrow> channel_msg" where
  "in_chan_msg V (IM_Data b) = M_Data b"
| "in_chan_msg V (IM_Resize r) = M_Notice (lit ''window-change'') (img_window_change V r)"
| "in_chan_msg V (IM_Signal n) = M_Notice (lit ''signal'') (img_signal V \<lparr>signal_name = n\<rparr>)"

primrec in_ok :: "in_msg \<Rightarrow> bool" where
  "in_ok (IM_Data b) \<longleftrightarrow> length b < VARINT_LIMIT"
| "in_ok (IM_Resize r) \<longleftrightarrow> valid_window_change r"
| "in_ok (IM_Signal n) \<longleftrightarrow> valid_ssh_string n"

definition img_in :: "varint_api \<Rightarrow> in_msg list \<Rightarrow> bytes" where
  "img_in V ms = concat (map (\<lambda>m. img_msg V (in_chan_msg V m)) ms)"

lemma img_in_simps [simp]:
  "img_in V [] = []" "img_in V (m # ms) = img_msg V (in_chan_msg V m) @ img_in V ms"
  by (simp_all add: img_in_def)

primrec in_data :: "in_msg list \<Rightarrow> bytes" where
  "in_data [] = []"
| "in_data (m # ms) = (case m of IM_Data b \<Rightarrow> b | _ \<Rightarrow> []) @ in_data ms"

primrec in_sizes :: "in_msg list \<Rightarrow> window_change_request list" where
  "in_sizes [] = []"
| "in_sizes (m # ms) = (case m of IM_Resize r \<Rightarrow> [r] | _ \<Rightarrow> []) @ in_sizes ms"

primrec in_sigs :: "in_msg list \<Rightarrow> signal list" where
  "in_sigs [] = []"
| "in_sigs (m # ms) = (case m of IM_Signal n \<Rightarrow> (case from_ssh_name (text_of n) of
       None \<Rightarrow> [] | Some sg \<Rightarrow> [sg]) | _ \<Rightarrow> []) @ in_sigs ms"

lemma notice_types [simp]:
  "lit ''window-change'' \<noteq> lit ''signal''" "lit ''signal'' \<noteq> lit ''window-change''"
  "valid_ssh_string (lit ''window-change'')" "valid_ssh_string (lit ''signal'')"
  by (simp_all add: short_lit_valid fixed_ascii)

lemma copy_sink_endless:
  assumes "endless w"
  shows "\<exists>w'. copy_limited lag (length b) (rd (b @ rest) e, w) = (Inr (length b), (rd rest e, w'))
      \<and> endless w' \<and> w_out w' = w_out w @ b"
  using assms
  by (simp add: copy_limited_def Let_def bindS_def write_all_def flush_def endless_def fits_def push_def)

context varint_codec
begin

lemma valid_in_msg: "in_ok m \<Longrightarrow> valid_msg (in_chan_msg V m)"
  by (cases m) simp_all

lemma next_event_in:
  assumes "valid_msg m" "in_reader s = rd (img_msg V m @ rest) e"
  shows "on_in (reader_next_event V) s = (Inr (event_of m), s\<lparr>in_reader := rd (payload_of m @ rest) e\<rparr>)"
  using next_event_img [OF assms(1)] assms(2) by (simp add: on_in_def)

text \<open>Both handlers of the server take signals; sizes are only for a terminal.\<close>

lemma input_step_msg:
  assumes "in_ok m" "in_reader s = rd (img_msg V (in_chan_msg V m) @ rest) e" "endless (in_sink s)"
    and "h = handle_pty_notice \<or> h = handle_piped_notice \<and> in_sizes [m] = []"
  shows "\<exists>s'. input_step h V lag s = (True, s') \<and> in_reader s' = rd rest e
    \<and> endless (in_sink s') \<and> w_out (in_sink s') = w_out (in_sink s) @ in_data [m]
    \<and> in_resizes s' = in_resizes s @ in_sizes [m] \<and> in_signals s' = in_signals s @ in_sigs [m]"
proof -
  note ev = next_event_in [OF valid_in_msg [OF assms(1)] assms(2)]
  show ?thesis
  proof (cases m)
    case (IM_Data b)
    from copy_sink_endless [OF assms(3), of lag b rest e] ev show ?thesis
      by (auto simp: IM_Data input_step_def copy_to_sink_def)
  next
    case (IM_Resize r)
    with session_dec_img(6) [of r rest e] ev assms show ?thesis
      by (simp add: input_step_def handle_pty_notice_def on_in_def)
  next
    case (IM_Signal n)
    with session_dec_img(7) [of "\<lparr>signal_name = n\<rparr>" rest e] ev assms show ?thesis
      by (elim disjE conjE) (simp_all add: input_step_def handle_pty_notice_def handle_piped_notice_def on_in_def
          valid_signal_def deliver_to_pid_def split: option.split)
  qed
qed

lemma relay_input_msgs:
  assumes "list_all in_ok ms" "in_reader s = rd (img_in V ms @ img_msg V M_Eof @ rest) e"
    and "endless (in_sink s)" "length ms < stop"
    and "h = handle_pty_notice \<or> h = handle_piped_notice \<and> in_sizes ms = []"
  shows "w_out (in_sink (relay_input h V lag stop s)) = w_out (in_sink s) @ in_data ms
    \<and> in_resizes (relay_input h V lag stop s) = in_resizes s @ in_sizes ms
    \<and> in_signals (relay_input h V lag stop s) = in_signals s @ in_sigs ms"
  using assms
proof (induction ms arbitrary: s stop)
  case Nil
  then obtain k where k: "stop = Suc k" by (cases stop) auto
  have "on_in (reader_next_event V) s = (Inr RE_Eof, s\<lparr>in_reader := rd rest e\<rparr>)"
    using next_event_in [of M_Eof s rest e] Nil by simp
  then show ?case by (simp add: k input_step_def)
next
  case (Cons m ms)
  then obtain k where k: "stop = Suc k" "length ms < k" by (cases stop) auto
  have h: "h = handle_pty_notice \<or> h = handle_piped_notice \<and> in_sizes [m] = []"
    "h = handle_pty_notice \<or> h = handle_piped_notice \<and> in_sizes ms = []"
    using Cons.prems(5) by auto
  from input_step_msg [OF _ _ Cons.prems(3) h(1), of "img_in V ms @ img_msg V M_Eof @ rest" e lag] Cons.prems(1,2)
  obtain s1 where s1: "input_step h V lag s = (True, s1)"
      "in_reader s1 = rd (img_in V ms @ img_msg V M_Eof @ rest) e" "endless (in_sink s1)"
      "w_out (in_sink s1) = w_out (in_sink s) @ in_data [m]"
      "in_resizes s1 = in_resizes s @ in_sizes [m]" "in_signals s1 = in_signals s @ in_sigs [m]" by auto
  from Cons.IH [OF _ s1(2,3) k(2) h(2)] Cons.prems(1) s1 k show ?case by simp
qed

lemma img_in_length: "list_all in_ok ms \<Longrightarrow> length ms \<le> length (img_in V ms)"
proof (induction ms)
  case (Cons m ms)
  then have "img_msg V (in_chan_msg V m) \<noteq> []" using img_msg_pos valid_in_msg by simp
  then obtain x xs where "img_msg V (in_chan_msg V m) = x # xs" by (cases "img_msg V (in_chan_msg V m)") auto
  then show ?case using Cons by simp
qed simp

end

subsection \<open>The client's input relay\<close>

fun typed_of :: "stdin_event list \<Rightarrow> bytes" where
  "typed_of (StdinRead (Inr b) # evs) = (if b = [] then [] else b @ typed_of evs)"
| "typed_of (Resize r # evs) = typed_of evs"
| "typed_of _ = []"

fun sizes_of :: "stdin_event list \<Rightarrow> window_change_request list" where
  "sizes_of (StdinRead (Inr b) # evs) = (if b = [] then [] else sizes_of evs)"
| "sizes_of (Resize (Some (cols, rows)) # evs) =
     \<lparr>width_cols = unat cols, height_rows = unat rows, width_px = 0, height_px = 0\<rparr> # sizes_of evs"
| "sizes_of (Resize None # evs) = sizes_of evs"
| "sizes_of _ = []"

primrec read_fits :: "stdin_event \<Rightarrow> bool" where
  "read_fits Done \<longleftrightarrow> True"
| "read_fits (Resize r) \<longleftrightarrow> True"
| "read_fits (StdinRead r) \<longleftrightarrow> (case r of Inl _ \<Rightarrow> True | Inr b \<Rightarrow> length b \<le> 8192)"

lemma close_input_out:
  "endless w \<Longrightarrow> w_out (close_input V w) = w_out w @ img_msg V M_Eof @ img_msg V M_Close"
proof -
  assume "endless w"
  from sends_endless [OF sends_plain(2) this, of V] obtain w1 where
    1: "writer_eof V w = (Inr (), w1)" "endless w1" "w_out w1 = w_out w @ img_msg V M_Eof" by blast
  from sends_endless [OF sends_plain(3) 1(2), of V] obtain w2 where
    2: "writer_close V w1 = (Inr (), w2)" "endless w2" "w_out w2 = w_out w1 @ img_msg V M_Close" by blast
  show ?thesis using 1 2 by (simp add: close_input_def shutdown_def)
qed

lemma resize_valid: "valid_window_change \<lparr>width_cols = unat (c :: 16 word), height_rows = unat (r :: 16 word),
    width_px = 0, height_px = 0\<rparr>"
proof -
  have "unat c < 65536" "unat r < 65536" using unsigned_less [of c] unsigned_less [of r] by simp_all
  then show ?thesis by (simp add: valid_window_change_def VARINT_LIMIT_def)
qed

lemma sends_resize:
  "sends (send_session_notice V (resize_notice c r))
     (img_msg V (in_chan_msg V (IM_Resize \<lparr>width_cols = unat c, height_rows = unat r, width_px = 0, height_px = 0\<rparr>)))"
  unfolding send_session_notice_def resize_notice_def in_chan_msg.simps session_notice_type.simps
    session_notice_payload.simps ssh_string_from_static_def
  by (intro sends_writer_notice notice_types session_emits)

text \<open>What the relay sends, and whether it ends: \<open>interactive\<close> says that sizes are sent.\<close>

fun client_msgs :: "bool \<Rightarrow> stdin_event list \<Rightarrow> in_msg list" where
  "client_msgs interactive (StdinRead (Inr b) # evs) = (if b = [] then [] else IM_Data b # client_msgs interactive evs)"
| "client_msgs interactive (Resize (Some (cols, rows)) # evs) =
     (if interactive
      then [IM_Resize \<lparr>width_cols = unat cols, height_rows = unat rows, width_px = 0, height_px = 0\<rparr>] else [])
     @ client_msgs interactive evs"
| "client_msgs interactive (Resize None # evs) = client_msgs interactive evs"
| "client_msgs interactive _ = []"

fun stdin_ends :: "stdin_event list \<Rightarrow> bool" where
  "stdin_ends [] \<longleftrightarrow> False"
| "stdin_ends (Done # evs) \<longleftrightarrow> True"
| "stdin_ends (Resize r # evs) \<longleftrightarrow> stdin_ends evs"
| "stdin_ends (StdinRead r # evs) \<longleftrightarrow> r = Inr [] \<or> (case r of Inl _ \<Rightarrow> True | Inr _ \<Rightarrow> stdin_ends evs)"

definition stdin_wire :: "varint_api \<Rightarrow> bool \<Rightarrow> stdin_event list \<Rightarrow> bytes" where
  "stdin_wire V interactive evs = img_in V (client_msgs interactive evs)
     @ (if stdin_ends evs then img_msg V M_Eof @ img_msg V M_Close else [])"

lemma client_msgs_say:
  "in_data (client_msgs i evs) = typed_of evs" "in_sizes (client_msgs True evs) = sizes_of evs"
  "in_sizes (client_msgs False evs) = []" "in_sigs (client_msgs i evs) = []"
proof -
  show "in_data (client_msgs i evs) = typed_of evs" by (induction i evs rule: client_msgs.induct) auto
  show "in_sizes (client_msgs True evs) = sizes_of evs" by (induction evs rule: sizes_of.induct) auto
  show "in_sizes (client_msgs False evs) = []" by (induction evs rule: sizes_of.induct) auto
  show "in_sigs (client_msgs i evs) = []" by (induction i evs rule: client_msgs.induct) auto
qed

lemma client_msgs_ok: "list_all read_fits evs \<Longrightarrow> list_all in_ok (client_msgs i evs)"
  by (induction i evs rule: client_msgs.induct) (auto simp: resize_valid buffer_short)

lemma relay_stdin_interactive_wire:
  assumes "endless w" "list_all read_fits evs"
  shows "\<exists>w'. relay_stdin_interactive V evs w = (stdin_ends evs, w') \<and> w_out w' = w_out w @ stdin_wire V True evs"
  using assms
proof (induction V evs w rule: relay_stdin_interactive.induct)
  case (1 V w)
  then show ?case by (simp add: stdin_wire_def)
next
  case (2 V evs w)
  then show ?case by (simp add: close_input_out stdin_wire_def)
next
  case (3 V r evs w)
  show ?case
  proof (cases r)
    case None
    with 3 show ?thesis by (simp add: stdin_wire_def)
  next
    case (Some p)
    obtain c d where p: "p = (c, d)" by (cases p)
    from sends_endless [OF sends_resize 3(3), of V c d] obtain w1 where w1:
        "send_session_notice V (resize_notice c d) w = (Inr (), w1)" "endless w1"
        "w_out w1 = w_out w @ img_msg V (in_chan_msg V (IM_Resize \<lparr>width_cols = unat c, height_rows = unat d, width_px = 0, height_px = 0\<rparr>))"
      by blast
    from 3(2) [OF Some p [symmetric]] 3(4) w1 show ?thesis by (simp add: Some p stdin_wire_def)
  qed
next
  case (4 V r evs w)
  show ?case
  proof (cases "\<exists>b. r = Inr b \<and> b \<noteq> []")
    case False
    then have "relay_stdin_interactive V (StdinRead r # evs) w = (True, close_input V w)" by (cases r) auto
    moreover have "client_msgs True (StdinRead r # evs) = []" "stdin_ends (StdinRead r # evs)"
      using False by (cases r; auto)+
    ultimately show ?thesis using 4(2) by (simp add: close_input_out stdin_wire_def del: stdin_ends.simps)
  next
    case True
    then obtain b where b: "r = Inr b" "b \<noteq> []" by blast
    then have l: "length b \<le> 8192" using 4(3) by simp
    from sends_endless [OF sends_data [OF buffer_short [OF l]] 4(2), of V] obtain w1 where w1:
        "writer_data V b w = (Inr (), w1)" "endless w1" "w_out w1 = w_out w @ img_msg V (M_Data b)" by blast
    from 4(1) [OF b w1(1) [symmetric]] 4(3) w1 show ?thesis by (simp add: b stdin_wire_def)
  qed
qed

text \<open>Without a terminal the relay does the same, as if no size was ever reported.\<close>

primrec is_resize :: "stdin_event \<Rightarrow> bool" where
  "is_resize Done \<longleftrightarrow> False"
| "is_resize (StdinRead r) \<longleftrightarrow> False"
| "is_resize (Resize r) \<longleftrightarrow> True"

lemma relay_stdin_plain:
  "relay_stdin V evs w = relay_stdin_interactive V (filter (\<lambda>ev. \<not> is_resize ev) evs) w"
  by (induction V evs w rule: relay_stdin.induct) (auto split: sum.splits prod.splits)

lemma stdin_wire_plain: "stdin_wire V True (filter (\<lambda>ev. \<not> is_resize ev) evs) = stdin_wire V False evs"
proof -
  have "client_msgs True (filter (\<lambda>ev. \<not> is_resize ev) evs) = client_msgs False evs"
    by (induction False evs rule: client_msgs.induct) auto
  moreover have "stdin_ends (filter (\<lambda>ev. \<not> is_resize ev) evs) = stdin_ends evs"
    by (induction evs rule: stdin_ends.induct) (auto split: sum.splits)
  ultimately show ?thesis by (simp add: stdin_wire_def)
qed

lemma relay_stdin_wire:
  assumes "endless w" "list_all read_fits evs"
  shows "\<exists>w'. relay_stdin V evs w = (stdin_ends evs, w') \<and> w_out w' = w_out w @ stdin_wire V False evs"
proof -
  have "list_all read_fits (filter (\<lambda>ev. \<not> is_resize ev) evs)" using assms(2) by (simp add: list_all_iff)
  moreover have "stdin_ends (filter (\<lambda>ev. \<not> is_resize ev) evs) = stdin_ends evs"
    by (induction evs rule: stdin_ends.induct) (auto split: sum.splits)
  ultimately show ?thesis
    using relay_stdin_interactive_wire [OF assms(1), of "filter (\<lambda>ev. \<not> is_resize ev) evs" V]
    by (simp add: relay_stdin_plain stdin_wire_plain)
qed

text \<open>The server hands on what it reads of this.\<close>

lemma input_delivered:
  assumes "varint_codec V" "list_all read_fits evs" "stdin_ends evs" "in_reader s = rd (stdin_wire V i evs @ rest) e"
    and "endless (in_sink s)" "length (stdin_wire V i evs) < stop"
    and "h = (if i then handle_pty_notice else handle_piped_notice)"
  shows "w_out (in_sink (relay_input h V lag stop s)) = w_out (in_sink s) @ typed_of evs
    \<and> in_resizes (relay_input h V lag stop s) = in_resizes s @ (if i then sizes_of evs else [])
    \<and> in_signals (relay_input h V lag stop s) = in_signals s"
proof -
  note ok = client_msgs_ok [OF assms(2), of i]
  have "length (client_msgs i evs) < stop"
    using varint_codec.img_in_length [OF assms(1) ok] assms(6) by (simp add: stdin_wire_def)
  moreover have "in_reader s = rd (img_in V (client_msgs i evs) @ img_msg V M_Eof @ img_msg V M_Close @ rest) e"
    using assms(3,4) by (simp add: stdin_wire_def)
  moreover have "h = handle_pty_notice \<or> h = handle_piped_notice \<and> in_sizes (client_msgs i evs) = []"
    using assms(7) by (cases i) (simp_all add: client_msgs_say)
  ultimately show ?thesis
    using varint_codec.relay_input_msgs [OF assms(1) ok _ assms(5), of "img_msg V M_Close @ rest" e stop h lag]
    by (cases i) (simp_all add: client_msgs_say)
qed

subsection \<open>Properties\<close>

text \<open>
  Session input end to end. Whatever the user typed and however the terminal was resized,
  when the client's interactive relay ends (end of input, read error or done signal) and the
  server handles the bytes it wrote, the child's input receives exactly the bytes typed, in
  order, and the terminal exactly the sizes reported, in order, and no signal is delivered.
\<close>

theorem input_end_to_end:
  assumes "varint_codec V"
    and client: "relay_stdin_interactive V evs w = (True, w')" "endless w" "list_all read_fits evs"
    and wire: "w_out w' = w_out w @ bs"
    and server: "endless sink" "length bs < stop"
  shows "let s = relay_input_pty V lag stop
             \<lparr>in_reader = rd (bs @ rest) e, in_sink = sink, in_signals = [], in_resizes = []\<rparr>
         in w_out (in_sink s) = w_out sink @ typed_of evs \<and> in_resizes s = sizes_of evs \<and> in_signals s = []"
proof -
  from relay_stdin_interactive_wire [OF client(2,3), of V] client(1) have ends: "stdin_ends evs"
    and bs: "bs = stdin_wire V True evs" using wire by auto
  then show ?thesis
    using input_delivered [OF assms(1) client(3) ends, of
        "\<lparr>in_reader = rd (bs @ rest) e, in_sink = sink, in_signals = [], in_resizes = []\<rparr>" True rest e stop
        handle_pty_notice lag] server
    by (simp add: Let_def relay_input_pty_def)
qed

theorem input_end_to_end_witness:
  "\<exists>bs. let s = relay_input_pty quic_varint 0 (Suc (length bs))
          \<lparr>in_reader = rd bs None, in_sink = fresh_writer, in_signals = [], in_resizes = []\<rparr>
        in w_out (in_sink s) = [108, 115] \<and> map height_rows (in_resizes s) = [24] \<and> in_signals s = []"
proof -
  let ?evs = "[StdinRead (Inr [108, 115]), Resize (Some (80, 24)), Done]"
  obtain w1 where w1: "writer_data quic_varint [108, 115] fresh_writer = (Inr (), w1)" "endless w1"
      "w_out w1 = img_msg quic_varint (M_Data [108, 115])"
    using sends_endless [OF sends_data endless_fresh, of "[108, 115]" quic_varint] by (auto simp: VARINT_LIMIT_def)
  obtain w2 where w2: "send_session_notice quic_varint (resize_notice 80 24) w1 = (Inr (), w2)" "endless w2"
    using sends_endless [OF sends_resize w1(2), of quic_varint 80 24] by blast
  have run: "relay_stdin_interactive quic_varint ?evs fresh_writer = (True, close_input quic_varint w2)"
    using w1 w2 by simp
  have fit: "list_all read_fits ?evs" by simp
  from input_end_to_end [OF quic.varint_codec_axioms run endless_fresh fit _ endless_fresh,
      of "w_out (close_input quic_varint w2)" "Suc (length (w_out (close_input quic_varint w2)))" 0 "[]" None]
  show ?thesis by (intro exI [of _ "w_out (close_input quic_varint w2)"]) (simp add: Let_def)
qed

text \<open>
  When the stream of terminal sizes ends, it stays ready with nothing: the loop goes round
  without waiting, without writing and without looking at its other sources.
\<close>

theorem ended_resize_stream_spins:
  "relay_stdin_interactive V (replicate n (Resize None) @ evs) w = relay_stdin_interactive V evs w
   \<and> relay_stdin_interactive V (replicate n (Resize None)) w = (False, w)"
  by (induction n) simp_all

context varint_codec
begin

lemma streaming_shrinks: "streaming d \<Longrightarrow> d r = (Inr x, r') \<Longrightarrow> length (r_in r') \<le> length (r_in r)"
proof -
  assume "streaming d" "d r = (Inr x, r')"
  then have "d (rd (r_in r) (r_end r)) = (Inr x, r')" by (metis reader_eta)
  with \<open>streaming d\<close> obtain pre where "r_in r = pre @ r_in r'" unfolding streaming_def by blast
  then show ?thesis by simp
qed

lemma bind_ctx_first: "bindS (ctx g m) f s = (Inr y, u) \<Longrightarrow> \<exists>x t. m s = (Inr x, t)"
  by (auto simp: bindS_Inr_iff ctx_Inr_iff)

lemma next_event_streaming: "streaming (reader_next_event V)"
  unfolding reader_next_event_def
  by (intro streaming_intros streaming_codec decode_varint_streaming)

lemma next_event_consumes:
  assumes "reader_next_event V r = (Inr ev, r')"
  shows "length (r_in r') < length (r_in r)"
proof -
  have "reader_next_event V (rd (r_in r) (r_end r)) = (Inr ev, r')" using assms by (metis reader_eta)
  then obtain pre where pre: "r_in r = pre @ r_in r'"
      "\<And>xs. reader_next_event V (rd (pre @ xs) (r_end r)) = (Inr ev, rd xs (r_end r))"
    using next_event_streaming unfolding streaming_def by blast
  have "pre \<noteq> []"
  proof
    assume "pre = []"
    then have "reader_next_event V (rd [] (r_end r)) = (Inr ev, rd [] (r_end r))" using pre(2) [of "[]"] by simp
    from bind_ctx_first [OF this [unfolded reader_next_event_def]]
    obtain n r1 where "decode_varint V (rd [] (r_end r)) = (Inr n, r1)" by blast
    from decode_varint_consumes [OF this] show False by simp
  qed
  then show ?thesis using pre(1) by simp
qed

lemma exit_decoders_shrink:
  "dec_exit_status V r = (Inr a, r') \<Longrightarrow> length (r_in r') \<le> length (r_in r)"
  "dec_exit_signal V r = (Inr b, r') \<Longrightarrow> length (r_in r') \<le> length (r_in r)"
  by (rule streaming_shrinks [OF session_dec_streaming(3)], assumption)
    (rule streaming_shrinks [OF session_dec_streaming(4)], assumption)

lemma output_event_shrinks:
  assumes "output_event V lag exit ev s = (Inr x, s')"
  shows "length (r_in (ci_reader s')) \<le> length (r_in (ci_reader s))"
proof -
  have copy: "length (r_in r') \<le> length (r_in r)"
    if "copy_limited lag n (r, w) = (Inr k, (r', w'))" for n k r w r' w'
    using copy_limited_Inr [OF that] by simp
  show ?thesis
    using assms exit_decoders_shrink
    by (cases ev) (auto simp: output_event_def bindS_Inr_iff ctx_Inr_iff okS_def failS_def
        copy_stdout_def copy_stderr_def on_ci_def on_dest_Inr dest!: copy split: prod.splits if_splits)
qed

lemma output_step_consumes:
  assumes "output_step V lag exit s = (Inr x, s')"
  shows "length (r_in (ci_reader s')) < length (r_in (ci_reader s))"
proof -
  obtain ev r where ev: "reader_next_event V (ci_reader s) = (Inr ev, r)"
      "output_event V lag exit ev (s\<lparr>ci_reader := r\<rparr>) = (Inr x, s')"
    using assms by (auto simp: output_step_def on_ci_def split: prod.splits sum.splits if_splits)
  show ?thesis using next_event_consumes [OF ev(1)] output_event_shrinks [OF ev(2)] by simp
qed

lemma relay_output_returns:
  "length (r_in (ci_reader s)) < fuel \<Longrightarrow> \<exists>r s'. relay_output V lag fuel exit s = (Some r, s')"
proof (induction fuel arbitrary: exit s)
  case (Suc fuel)
  show ?case
  proof (cases "output_step V lag exit s")
    case (Pair v s1)
    show ?thesis
    proof (cases v)
      case (Inr x)
      then have "length (r_in (ci_reader s1)) < length (r_in (ci_reader s))"
        using output_step_consumes Pair by blast
      then show ?thesis using Suc Pair Inr by simp
    qed (simp add: Pair)
  qed
qed simp

end

text \<open>
  The client's output relay ends. On every finite stream of bytes the peer may send, well
  formed or not, the relay returns: an exit result, nothing, or an error. It never loops.
\<close>

theorem relay_output_ends:
  assumes "varint_codec V" "length bytes < fuel"
  shows "\<exists>r io. relay_output V lag fuel exit \<lparr>ci_reader = rd bytes e, ci_stdout = out, ci_stderr = err\<rparr>
    = (Some r, io)"
  using varint_codec.relay_output_returns [OF assms(1)] assms(2) by simp

theorem relay_output_ends_witness:
  "\<exists>r io. relay_output quic_varint 0 4 None
      \<lparr>ci_reader = rd [255, 1, 2] None, ci_stdout = fresh_writer, ci_stderr = fresh_writer\<rparr> = (Some r, io)"
  using relay_output_ends [OF quic.varint_codec_axioms, of "[255, 1, 2]" 4] by simp

end
