(* ===== verification/Session_Start.thy ===== *)
theory Session_Start
  imports Forward_Client Session_Input
begin

text \<open>
  The start of a session end to end: the client of \<open>src/session/client.rs\<close> opens a session channel
  and sends its setup requests, and the server of \<open>src/session/dispatcher.rs\<close> accepts the channel,
  runs the setup and decides the command. The two ends are modelled in \<open>Session_Client\<close> and
  \<open>Session_Setup\<close>; this theory puts the bytes one writes before the other.
\<close>

subsection \<open>The client's side\<close>

text \<open>The documented use of \<open>ClientSession\<close>: terminal requests, then \<open>exec\<close> or \<open>shell\<close>.\<close>

primrec client_end :: "varint_api \<Rightarrow> setup_end \<Rightarrow> (ssh_channel, setup_error, unit) io" where
  "client_end V (RunExec p) = client_exec V (exec_command p)"
| "client_end V RunShell = client_shell V"

definition client_setup ::
    "varint_api \<Rightarrow> pty_request list \<Rightarrow> setup_end \<Rightarrow> (ssh_channel, setup_error, unit) io" where
  "client_setup V ptys final = bindS (seqS (map (request_pty V) ptys)) (\<lambda>_. client_end V final)"

definition img_setups :: "varint_api \<Rightarrow> pty_request list \<Rightarrow> bytes" where
  "img_setups V ptys = concat (map (\<lambda>p. img_setup V True (SetPty p)) ptys)"

lemma replies_Cons: "replies V (True # ws) = img_msg V (M_Success []) @ replies V ws"
  by (simp add: replies_def)

text \<open>A request answered with a success: written in full, and only the answer is read.\<close>

definition asks :: "varint_api \<Rightarrow> (ssh_channel, setup_error, unit) io \<Rightarrow> bytes \<Rightarrow> bool" where
  "asks V m bs \<longleftrightarrow> (\<forall>c rest e. ch_reader c = rd (img_msg V (M_Success []) @ rest) e \<longrightarrow> endless (ch_writer c) \<longrightarrow>
     (\<exists>w. m c = (Inr (), \<lparr>ch_reader = rd rest e, ch_writer = w\<rparr>) \<and> endless w
        \<and> w_out w = w_out (ch_writer c) @ bs))"

lemma asks_ctx:
  assumes "\<And>c rest e. ch_reader c = rd (img_msg V (M_Success []) @ rest) e \<Longrightarrow> endless (ch_writer c) \<Longrightarrow>
    \<exists>w. m c = (Inr (), \<lparr>ch_reader = rd rest e, ch_writer = w\<rparr>) \<and> endless w \<and> w_out w = w_out (ch_writer c) @ bs"
  shows "asks V (ctx g m) bs"
  unfolding asks_def
proof (intro allI impI)
  fix c :: ssh_channel and rest e
  assume "ch_reader c = rd (img_msg V (M_Success []) @ rest) e" "endless (ch_writer c)"
  from assms [OF this] obtain w where
    "m c = (Inr (), \<lparr>ch_reader = rd rest e, ch_writer = w\<rparr>)" "endless w" "w_out w = w_out (ch_writer c) @ bs" by blast
  then show "\<exists>w. ctx g m c = (Inr (), \<lparr>ch_reader = rd rest e, ch_writer = w\<rparr>) \<and> endless w
      \<and> w_out w = w_out (ch_writer c) @ bs" by (simp add: ctx_def)
qed

context varint_codec
begin

lemma channel_request_endless:
  fixes penc :: "(writer, 'pe, unit) io"
  assumes "valid_ssh_string rt" "emits penc p"
    and "ch_reader c = rd (img_msg V (M_Success []) @ rest) e" "endless (ch_writer c)"
  shows "\<exists>w. (channel_request V rt penc (okS ()) c :: (('pe, unit) send_channel_request_error + unit) \<times> ssh_channel)
      = (Inr (), \<lparr>ch_reader = rd rest e, ch_writer = w\<rparr>)
    \<and> endless w \<and> w_out w = w_out (ch_writer c) @ img_request V rt p"
proof -
  from sends_endless [OF sends_channel_request [OF assms(1,2)] assms(4)] obtain w where
    w: "seqS [ctx SCR_EncodeMessageType (encode_varint V SSH_MSG_CHANNEL_REQUEST),
      ctx SCR_EncodeRequestType (enc_ssh_string V rt),
      ctx SCR_EncodeWantReply (enc_ssh_bool True),
      ctx SCR_EncodePayload penc,
      ctx (SCR_Flush :: _ \<Rightarrow> ('pe, unit) send_channel_request_error) flush] (ch_writer c) = (Inr (), w)"
      "endless w" "w_out w = w_out (ch_writer c) @ img_request V rt p" by blast
  then show ?thesis
    using assms(3) by (cases c) (simp add: channel_request_def on_writer_def bindS_def on_reader_def ctx_def wire okS_def)
qed

lemma client_asks:
  "valid_pty p \<Longrightarrow> asks V (request_pty V p) (img_setup V True (SetPty p))"
  "valid_exec x \<Longrightarrow> asks V (client_exec V (exec_command x)) (img_end V True (RunExec x))"
  "asks V (client_shell V) (img_end V True RunShell)"
proof -
  have i: "img_setup_request V rt True q = img_request V rt q" for rt q
    by (simp add: img_setup_request_def img_request_def)
  have x: "\<lparr>exec_command = exec_command x\<rparr> = x" by simp
  have nil: "emits (okS () :: (writer, session_codec_error, unit) io) []" by (rule emits_ok)
  note unf = request_pty_def client_exec_def client_shell_def send_session_request_def ssh_string_from_static_def i x
  show "valid_pty p \<Longrightarrow> asks V (request_pty V p) (img_setup V True (SetPty p))"
    by (simp add: unf) (rule asks_ctx [OF channel_request_endless [OF setup_names(1) session_emits(5)]])
  show "valid_exec x \<Longrightarrow> asks V (client_exec V (exec_command x)) (img_end V True (RunExec x))"
    by (simp add: unf) (rule asks_ctx [OF channel_request_endless [OF setup_names(3) session_emits(1)]])
  show "asks V (client_shell V) (img_end V True RunShell)"
    by (simp add: unf) (rule asks_ctx [OF channel_request_endless [OF setup_names(4) nil]])
qed

end

lemma asksD:
  assumes "asks V m bs" "ch_reader c = rd (img_msg V (M_Success []) @ rest) e" "endless (ch_writer c)"
  shows "\<exists>w. m c = (Inr (), \<lparr>ch_reader = rd rest e, ch_writer = w\<rparr>) \<and> endless w \<and> w_out w = w_out (ch_writer c) @ bs"
  using assms by (simp add: asks_def)

lemma client_end_asks: "varint_codec V \<Longrightarrow> valid_end final \<Longrightarrow> asks V (client_end V final) (img_end V True final)"
  by (cases final) (simp_all add: varint_codec.client_asks del: img_end.simps)

lemma client_setup_run:
  assumes "varint_codec V" "\<forall>p \<in> set ptys. valid_pty p" "valid_end final"
    and "ch_reader c = rd (replies V (map (\<lambda>_. True) ptys @ [True]) @ rest) e" "endless (ch_writer c)"
  shows "\<exists>w. client_setup V ptys final c = (Inr (), \<lparr>ch_reader = rd rest e, ch_writer = w\<rparr>) \<and> endless w
    \<and> w_out w = w_out (ch_writer c) @ img_setups V ptys @ img_end V True final"
  using assms(2,4,5)
proof (induction ptys arbitrary: c)
  case Nil
  then show ?case
    using asksD [OF client_end_asks [OF assms(1,3)], of c rest e]
    by (auto simp: client_setup_def img_setups_def replies_def bindS_def okS_def)
next
  case (Cons p ptys)
  let ?rest = "replies V (map (\<lambda>_. True) ptys @ [True]) @ rest"
  have "ch_reader c = rd (img_msg V (M_Success []) @ ?rest) e" using Cons.prems(2) by (simp add: replies_Cons)
  from asksD [OF varint_codec.client_asks(1) [OF assms(1)] this Cons.prems(3), of p] Cons.prems(1) obtain w where
    w: "request_pty V p c = (Inr (), \<lparr>ch_reader = rd ?rest e, ch_writer = w\<rparr>)" "endless w"
      "w_out w = w_out (ch_writer c) @ img_setup V True (SetPty p)" by auto
  from Cons.IH [of "\<lparr>ch_reader = rd ?rest e, ch_writer = w\<rparr>"] Cons.prems(1) w(2) obtain w' where
    "client_setup V ptys final \<lparr>ch_reader = rd ?rest e, ch_writer = w\<rparr> = (Inr (), \<lparr>ch_reader = rd rest e, ch_writer = w'\<rparr>)"
    "endless w'" "w_out w' = w_out w @ img_setups V ptys @ img_end V True final" by auto
  with w(1,3) show ?case by (auto simp: client_setup_def img_setups_def bindS_def)
qed

subsection \<open>The server's side\<close>

text \<open>What the client's requests ask for, and what they make the server write.\<close>

definition requested_setup :: "pty_request list \<Rightarrow> setup_end \<Rightarrow> setup_state" where
  "requested_setup ptys final =
     \<lparr>st_pty = (if ptys = [] then None else Some (last ptys)),
      st_command = (case final of RunExec p \<Rightarrow> Some (exec_command p) | RunShell \<Rightarrow> None),
      st_is_shell = (final = RunShell),
      st_term_type = (if ptys = [] then None else Some (text_of (term_type (last ptys)))),
      st_client_env = []\<rparr>"

definition requested_mode :: "string \<Rightarrow> setup_end \<Rightarrow> command_mode" where
  "requested_mode shell final = (case final of RunExec p \<Rightarrow> Exec shell (exec_command p) | RunShell \<Rightarrow> Shell shell)"

definition motd_wire :: "varint_api \<Rightarrow> bool \<Rightarrow> bool \<Rightarrow> io_error + bytes \<Rightarrow> bytes" where
  "motd_wire V interactive hushlogin motd = (case motd of
       Inl _ \<Rightarrow> []
     | Inr data \<Rightarrow> if interactive \<and> \<not> hushlogin \<and> data \<noteq> [] then img_msg V (M_Data data) else [])"

definition setup_wire :: "varint_api \<Rightarrow> session_config \<Rightarrow> pty_request list \<Rightarrow> bytes" where
  "setup_wire V config ptys = img_confirmation V (sc_max_message_size config) @ replies V (map (\<lambda>_. True) ptys @ [True])"

text \<open>A message of the day that is shown must fit into one message.\<close>

definition motd_fits :: "bool \<Rightarrow> io_error + bytes \<Rightarrow> bool" where
  "motd_fits interactive motd \<longleftrightarrow>
     interactive \<longrightarrow> (case motd of Inl _ \<Rightarrow> True | Inr data \<Rightarrow> length data < VARINT_LIMIT)"

lemma fold_take_pty:
  "fold (\<lambda>(m, _ :: bool). take_setup m) (map (\<lambda>p. (SetPty p, True)) ptys) st =
     (if ptys = [] then st
      else st\<lparr>st_term_type := Some (text_of (term_type (last ptys))), st_pty := Some (last ptys)\<rparr>)"
  by (induction ptys arbitrary: st) auto

lemma requested_take:
  "take_end final (fold (\<lambda>(m, _ :: bool). take_setup m) (map (\<lambda>p. (SetPty p, True)) ptys) setup_start)
     = requested_setup ptys final"
  by (cases final) (simp_all add: fold_take_pty requested_setup_def setup_start_def)

lemma motd_endless:
  assumes "endless (ch_writer c)" "motd_fits interactive motd"
  shows "\<exists>w. (if interactive then send_motd V hushlogin motd c else c) = c\<lparr>ch_writer := w\<rparr> \<and> endless w
    \<and> w_out w = w_out (ch_writer c) @ motd_wire V interactive hushlogin motd"
proof (cases "\<exists>data. motd = Inr data \<and> interactive \<and> \<not> hushlogin \<and> data \<noteq> []")
  case True
  then obtain data where d: "motd = Inr data" "interactive" "\<not> hushlogin" "data \<noteq> []" by blast
  with sends_endless [OF sends_data assms(1), of data V] assms(2) show ?thesis
    by (auto simp: send_motd_def motd_wire_def on_writer_def motd_fits_def)
next
  case False
  then show ?thesis
    using assms(1) by (intro exI [of _ "ch_writer c"]) (auto simp: send_motd_def motd_wire_def split: sum.splits)
qed

text \<open>The result of the setup, seen from what was requested.\<close>

lemma finish_requested:
  assumes "finish_setup openpty set_modes (requested_setup ptys final) = Inr setup"
  shows "setup_mode shell setup = requested_mode shell final" "se_is_shell setup = (final = RunShell)"
    "se_term_type setup = st_term_type (requested_setup ptys final)" "se_client_env setup = []"
    "se_pty setup \<noteq> None \<longleftrightarrow> ptys \<noteq> []"
  using assms
  by (cases final; auto simp: finish_setup_def requested_setup_def setup_mode_def requested_mode_def Let_def
      split: option.splits sum.splits if_splits)+

lemma server_starts:
  assumes "varint_codec V" "\<forall>p \<in> set ptys. valid_pty p" "valid_end final"
    and "ch_reader c = rd (img_setups V ptys @ img_end V True final @ input) e" "endless (ch_writer c)" "length ptys < fuel"
    and "motd_fits (final = RunShell \<and> ptys \<noteq> []) motd"
    and fin: "finish_setup openpty set_modes (requested_setup ptys final) = Inr setup"
  shows "\<exists>ws. session_task_start V openpty set_modes fuel home_is_dir tz lang etc hushlogin motd config c
      = (Some (session_command home_is_dir tz lang etc (requested_mode (ui_shell (sc_user config)) final) config
                 (st_term_type (requested_setup ptys final)) [], se_pty setup), \<lparr>ch_reader = rd input e, ch_writer = ws\<rparr>)
    \<and> endless ws \<and> w_out ws = w_out (ch_writer c) @ setup_wire V config ptys
        @ motd_wire V (final = RunShell \<and> ptys \<noteq> []) hushlogin motd"
proof -
  let ?msgs = "map (\<lambda>p. (SetPty p, True)) ptys"
  from accept_endless [OF assms(5), of V "sc_max_message_size config"] obtain w where
    w: "pending_accept V (sc_max_message_size config) c = (Inr (), c\<lparr>ch_writer := w\<rparr>)" "endless w"
      "w_out w = w_out (ch_writer c) @ img_confirmation V (sc_max_message_size config)" by blast
  have v: "\<forall>(m, want :: bool) \<in> set ?msgs. valid_setup m" using assms(2) by auto
  have r: "ch_reader (c\<lparr>ch_writer := w\<rparr>)
      = rd (concat (map (\<lambda>(m, want). img_setup V want m) ?msgs) @ img_end V True final @ input) e"
    using assms(4) by (simp add: img_setups_def comp_def)
  from varint_codec.setup_loop_run [OF assms(1) v assms(3) r, of fuel setup_start] w(2) assms(6) obtain w1 where
    w1: "setup_loop V fuel setup_start (c\<lparr>ch_writer := w\<rparr>)
        = (Some (Inr (requested_setup ptys final)), \<lparr>ch_reader = rd input e, ch_writer = w1\<rparr>)" "endless w1"
      "w_out w1 = w_out w @ replies V (map (\<lambda>_. True) ptys @ [True])"
    by (auto simp: requested_take comp_def)
  note f = finish_requested [OF fin]
  from motd_endless [of "\<lparr>ch_reader = rd input e, ch_writer = w1\<rparr>" "final = RunShell \<and> ptys \<noteq> []" motd V hushlogin]
    w1(2) assms(7) obtain w2 where
    "(if final = RunShell \<and> ptys \<noteq> [] then send_motd V hushlogin motd \<lparr>ch_reader = rd input e, ch_writer = w1\<rparr>
      else \<lparr>ch_reader = rd input e, ch_writer = w1\<rparr>) = \<lparr>ch_reader = rd input e, ch_writer = w2\<rparr>" "endless w2"
    "w_out w2 = w_out w1 @ motd_wire V (final = RunShell \<and> ptys \<noteq> []) hushlogin motd" by auto
  with w w1 fin f show ?thesis
    by (simp add: session_task_start_def session_setup_def setup_wire_def)
qed

text \<open>
  The two ends of a session's start, each before whatever comes after it: \<open>answer\<close> is what the
  client still has to read when its requests are answered, \<open>input\<close> what the server still has to
  read when the command starts.
\<close>

definition request_wire :: "varint_api \<Rightarrow> pty_request list \<Rightarrow> setup_end \<Rightarrow> bytes" where
  "request_wire V ptys final = wire_open V SessionChannelOpen @ img_setups V ptys @ img_end V True final"

lemma client_starts:
  assumes "varint_codec V" "\<forall>p \<in> set ptys. valid_pty p" "valid_end final" "sc_max_message_size config < VARINT_LIMIT"
    and "endless w" "w_out w = []"
  shows "\<exists>c0 w'. open_channel V (Inr (rd (setup_wire V config ptys @ answer) e, w) :: 'me + reader \<times> writer)
        (channel_type SessionChannelOpen) (channel_open_payload V SessionChannelOpen) DEFAULT_MAX_MESSAGE_SIZE = Inr c0
    \<and> client_setup V ptys final c0 = (Inr (), \<lparr>ch_reader = rd answer e, ch_writer = w'\<rparr>)
    \<and> endless w' \<and> w_out w' = request_wire V ptys final"
proof -
  let ?op = SessionChannelOpen
  let ?more = "replies V (map (\<lambda>_. True) ptys @ [True]) @ answer"
  have "valid_open ?op" by simp
  from open_channel_endless [OF assms(1) channel_type_valid [of ?op] open_payload_emits [OF this] assms(5,4),
      where 'me = 'me and n = DEFAULT_MAX_MESSAGE_SIZE and rest' = ?more and e' = e] obtain w1 where
    1: "open_channel V (Inr (rd (setup_wire V config ptys @ answer) e, w) :: 'me + reader \<times> writer)
          (channel_type ?op) (channel_open_payload V ?op) DEFAULT_MAX_MESSAGE_SIZE
        = Inr \<lparr>ch_reader = rd ?more e, ch_writer = w1\<rparr>"
      "endless w1" "w_out w1 = wire_open V ?op"
    using assms(6) by (auto simp: setup_wire_def wire_open_def)
  from client_setup_run [OF assms(1-3), of "\<lparr>ch_reader = rd ?more e, ch_writer = w1\<rparr>" answer e] 1 obtain w2 where
    "client_setup V ptys final \<lparr>ch_reader = rd ?more e, ch_writer = w1\<rparr>
        = (Inr (), \<lparr>ch_reader = rd answer e, ch_writer = w2\<rparr>)"
      "endless w2" "w_out w2 = request_wire V ptys final" by (auto simp: request_wire_def)
  with 1 show ?thesis by blast
qed

lemma server_accepts:
  assumes "varint_codec V" "\<forall>p \<in> set ptys. valid_pty p" "valid_end final" "endless sw" "w_out sw = []" "length ptys < fuel"
    and "motd_fits (final = RunShell \<and> ptys \<noteq> []) motd"
    and "finish_setup openpty set_modes (requested_setup ptys final) = Inr setup"
  shows "\<exists>inc st ws. accept_channel V (Inr (rd (request_wire V ptys final @ input) None, sw) :: 'me + reader \<times> writer) = Inr inc
    \<and> dispatch_channel V config inc = Spawn (SessionTask st)
    \<and> session_task_start V openpty set_modes fuel home_is_dir tz lang etc hushlogin motd config st
        = (Some (session_command home_is_dir tz lang etc (requested_mode (ui_shell (sc_user config)) final) config
                   (st_term_type (requested_setup ptys final)) [], se_pty setup), \<lparr>ch_reader = rd input None, ch_writer = ws\<rparr>)
    \<and> endless ws \<and> w_out ws = setup_wire V config ptys @ motd_wire V (final = RunShell \<and> ptys \<noteq> []) hushlogin motd"
proof -
  let ?op = SessionChannelOpen
  let ?st = "\<lparr>ch_reader = rd (img_setups V ptys @ img_end V True final @ input) None, ch_writer = sw\<rparr>"
  let ?inc = "\<lparr>ic_channel_type = channel_type ?op, ic_max_message_size = DEFAULT_MAX_MESSAGE_SIZE, ic_streams = ?st\<rparr>"
  have "accept_channel V (Inr (rd (request_wire V ptys final @ input) None, sw) :: 'me + reader \<times> writer) = Inr ?inc"
    using accept_wire [OF assms(1), where 'me = 'me, of ?op "img_setups V ptys @ img_end V True final @ input" sw]
    by (simp add: request_wire_def)
  moreover have "dispatch_channel V config ?inc = Spawn (SessionTask ?st)"
    by (simp add: dispatch_channel_def ssh_string_from_static_def skip_payload_def)
  ultimately show ?thesis
    using server_starts [OF assms(1-3), of ?st input None fuel motd openpty set_modes "setup" home_is_dir tz lang etc
        hushlogin config] assms(4-8) by auto
qed

subsection \<open>The setup ends\<close>

text \<open>
  \<open>shrinks m\<close>: a step that succeeds has not put anything back on the input of the channel. The
  first thing an event reads is its message type, so every round of the setup consumes something.
\<close>

definition shrinks :: "(ssh_channel, 'e, 'a) io \<Rightarrow> bool" where
  "shrinks m \<longleftrightarrow> (\<forall>c x c'. m c = (Inr x, c') \<longrightarrow> length (r_in (ch_reader c')) \<le> length (r_in (ch_reader c)))"

lemma shrinksD: "shrinks m \<Longrightarrow> m c = (Inr x, c') \<Longrightarrow> length (r_in (ch_reader c')) \<le> length (r_in (ch_reader c))"
  by (simp add: shrinks_def)

lemma shrinks_bind: "\<lbrakk>shrinks m; \<And>x. shrinks (f x)\<rbrakk> \<Longrightarrow> shrinks (bindS m f)"
  by (fastforce simp: shrinks_def bindS_Inr_iff intro: order_trans)

lemma shrinks_basic:
  "shrinks (okS y)" "shrinks (failS z)" "shrinks m \<Longrightarrow> shrinks (ctx g m)"
  "\<lbrakk>b \<Longrightarrow> shrinks m; \<not> b \<Longrightarrow> shrinks n\<rbrakk> \<Longrightarrow> shrinks (if b then m else n)"
  "(\<And>a b. shrinks (h a b)) \<Longrightarrow> shrinks (case q of (a, b) \<Rightarrow> h a b)"
  "shrinks (answer_success V want)" "shrinks (answer_failure V want)"
  by (auto simp: shrinks_def okS_def failS_def ctx_Inr_iff answer_success_def answer_failure_def on_writer_def
      split: prod.splits)

context varint_codec
begin

lemma shrinks_on_reader: "streaming d \<Longrightarrow> shrinks (on_reader d)"
  by (auto simp: shrinks_def on_reader_def dest: streaming_shrinks split: prod.splits)

lemmas shrinks_intros = shrinks_basic shrinks_bind shrinks_on_reader

lemma next_event_rest_shrinks:
  assumes "channel_next_event V c = (Inr ev, c')"
  shows "length (r_in (ch_reader c')) < length (r_in (ch_reader c))"
proof -
  from assms [unfolded channel_next_event_def bindS_Inr_iff] obtain n c1 where
    n: "on_reader (ctx RCE_DecodeMessageType (decode_varint V)) c = (Inr n, c1)"
      "length (r_in (ch_reader c')) \<le> length (r_in (ch_reader c1))"
    by (elim exE conjE) (drule shrinksD [rotated];
      (intro shrinks_intros streaming_intros streaming_codec decode_varint_streaming | blast))
  then show ?thesis by (auto simp: on_reader_def ctx_Inr_iff dest: decode_varint_consumes split: prod.splits)
qed

lemma setup_event_shrinks: "shrinks (setup_event V ev st)"
  by (cases ev) (auto simp: setup_event_def setup_request_def decode_request_payload_def dec_empty_def split: prod.splits
      intro!: shrinks_intros session_dec_streaming streaming_intros)

lemma setup_loop_returns:
  "length (r_in (ch_reader c)) < fuel \<Longrightarrow> \<exists>r c'. setup_loop V fuel st c = (Some r, c')"
proof (induction fuel arbitrary: st c)
  case (Suc fuel)
  show ?case
  proof (cases "bindS (ctx SSE_ReadEvent (channel_next_event V)) (\<lambda>event. setup_event V event st) c")
    case (Pair v c1)
    have "length (r_in (ch_reader c1)) < length (r_in (ch_reader c))" if r: "v = Inr x" for x
    proof -
      obtain ev c0 where "channel_next_event V c = (Inr ev, c0)" "setup_event V ev st c0 = (Inr x, c1)"
        using Pair r by (auto simp: bindS_Inr_iff ctx_Inr_iff)
      with next_event_rest_shrinks setup_event_shrinks show ?thesis unfolding shrinks_def by (meson le_less_trans)
    qed
    then have IH: "\<exists>r c'. setup_loop V fuel st' c1 = (Some r, c')" if "v = Inr (st', False)" for st'
      using Suc.IH [of c1] Suc.prems that by fastforce
    show ?thesis
    proof (cases v)
      case (Inr x)
      with Pair IH show ?thesis by (cases x; cases "snd x") auto
    qed (simp add: Pair)
  qed
qed simp

end

text \<open>
  The setup ends on every finite stream of bytes a client may send, well formed or not: more fuel
  than there are bytes is enough.
\<close>

theorem session_setup_ends:
  assumes "varint_codec V" "length (r_in (ch_reader c)) < fuel"
  shows "\<exists>r c'. session_setup V openpty set_modes fuel c = (Some r, c')"
  using varint_codec.setup_loop_returns [OF assms, of setup_start]
  by (auto simp: session_setup_def split: sum.splits)

text \<open>
  C38: the loops over messages end. On every finite stream of bytes a peer may send, well formed or
  not, the client's output relay returns (an exit result, nothing, or an error) and the server's
  setup of a session returns (a setup or an error); each needs at most one round per byte.
\<close>

theorem message_loops_end:
  assumes "varint_codec V" "length bytes < fuel"
  shows "(\<exists>r io. relay_output V lag fuel exit \<lparr>ci_reader = rd bytes e, ci_stdout = out, ci_stderr = err\<rparr> = (Some r, io))
    \<and> (\<exists>r c. session_setup V openpty set_modes fuel \<lparr>ch_reader = rd bytes e, ch_writer = w\<rparr> = (Some r, c))"
  using relay_output_ends [OF assms] session_setup_ends [OF assms(1), of "\<lparr>ch_reader = rd bytes e, ch_writer = w\<rparr>"] assms(2)
  by simp

theorem message_loops_end_witness:
  "(\<exists>r io. relay_output quic_varint 0 4 None
      \<lparr>ci_reader = rd [255, 1, 2] None, ci_stdout = fresh_writer, ci_stderr = fresh_writer\<rparr> = (Some r, io))
    \<and> (\<exists>r c. session_setup quic_varint (\<lambda>_. Inr ()) (\<lambda>_. id) 4 \<lparr>ch_reader = rd [255, 1, 2] None, ch_writer = fresh_writer\<rparr>
        = (Some r, c))"
  using message_loops_end [OF quic.varint_codec_axioms, of "[255, 1, 2]" 4] by simp

subsection \<open>The two together\<close>

text \<open>
  A session starts as its client asked. The client opens a session channel and sends terminal
  requests and then a command or a shell request: each call succeeds. The server takes those
  bytes for a session channel, spawns the session task, and the task ends its setup with the
  command the client named, or with the login shell, on the terminal of the last terminal request
  and with its type; what the server has written is exactly what the client was taken to read: the
  confirmation, one success per request, and, for an interactive shell only, the message of the
  day, which is left for the client's output relay.
\<close>

theorem session_start_end_to_end:
  fixes hushlogin :: bool
  assumes "varint_codec V" "\<forall>p \<in> set ptys. valid_pty p" "valid_end final" "sc_max_message_size config < VARINT_LIMIT"
    and "endless w" "w_out w = []" "endless sw" "w_out sw = []" "length ptys < fuel"
    and "motd_fits (final = RunShell \<and> ptys \<noteq> []) motd"
    and "finish_setup openpty set_modes (requested_setup ptys final) = Inr setup"
  defines "greeting \<equiv> motd_wire V (final = RunShell \<and> ptys \<noteq> []) hushlogin motd"
  shows "\<exists>c0 c inc st sc.
      open_channel V (Inr (rd (setup_wire V config ptys @ greeting) None, w) :: 'me + reader \<times> writer)
        (channel_type SessionChannelOpen) (channel_open_payload V SessionChannelOpen) DEFAULT_MAX_MESSAGE_SIZE = Inr c0
    \<and> client_setup V ptys final c0 = (Inr (), c) \<and> ch_reader c = rd greeting None
    \<and> accept_channel V (Inr (rd (w_out (ch_writer c)) None, sw) :: 'me + reader \<times> writer) = Inr inc
    \<and> dispatch_channel V config inc = Spawn (SessionTask st)
    \<and> session_task_start V openpty set_modes fuel home_is_dir tz lang etc hushlogin motd config st
        = (Some (session_command home_is_dir tz lang etc (requested_mode (ui_shell (sc_user config)) final) config
                   (st_term_type (requested_setup ptys final)) [], se_pty setup), sc)
    \<and> w_out (ch_writer sc) = setup_wire V config ptys @ greeting"
proof -
  from client_starts [OF assms(1-6), where 'me = 'me and answer = greeting and e = None] obtain c0 w' where
    c: "open_channel V (Inr (rd (setup_wire V config ptys @ greeting) None, w) :: 'me + reader \<times> writer)
        (channel_type SessionChannelOpen) (channel_open_payload V SessionChannelOpen) DEFAULT_MAX_MESSAGE_SIZE = Inr c0"
      "client_setup V ptys final c0 = (Inr (), \<lparr>ch_reader = rd greeting None, ch_writer = w'\<rparr>)"
      "w_out w' = request_wire V ptys final" by blast
  from server_accepts [OF assms(1-3,7-11), where 'me = 'me and input = "[]" and hushlogin = hushlogin]
  show ?thesis using c by (fastforce simp: greeting_def)
qed

definition xterm_request :: pty_request where
  "xterm_request = \<lparr>term_type = lit ''xterm'', pty_width_cols = 80, pty_height_rows = 24, pty_width_px = 0,
     pty_height_px = 0, terminal_modes = []\<rparr>"

theorem session_start_end_to_end_witness:
  "\<exists>c0 c. open_channel quic_varint
       (Inr (rd (setup_wire quic_varint session_config_default [xterm_request] @ img_msg quic_varint (M_Data [72, 105])) None,
             fresh_writer) :: unit + reader \<times> writer)
       (channel_type SessionChannelOpen) (channel_open_payload quic_varint SessionChannelOpen) DEFAULT_MAX_MESSAGE_SIZE = Inr c0
   \<and> client_setup quic_varint [xterm_request] RunShell c0 = (Inr (), c)
   \<and> ch_reader c = rd (img_msg quic_varint (M_Data [72, 105])) None"
proof -
  have v: "\<forall>p \<in> set [xterm_request]. valid_pty p" "valid_end RunShell"
    by (simp_all add: xterm_request_def valid_pty_def valid_ssh_string_def valid_ssh_bytes_def utf8_valid_lit ascii_def
        byte_of_def MAX_REMOTE_FIELD_SIZE_def VARINT_LIMIT_def)
  have l: "sc_max_message_size session_config_default < VARINT_LIMIT"
    by (simp add: session_config_default_def default_size_limit)
  have m: "motd_fits (RunShell = RunShell \<and> [xterm_request] \<noteq> []) (Inr [72, 105])"
    by (simp add: motd_fits_def VARINT_LIMIT_def)
  have n: "length [xterm_request] < 2" by simp
  have e: "w_out fresh_writer = []" by (simp add: fresh_writer_def)
  obtain su where f: "finish_setup Inr (\<lambda>_. id) (requested_setup [xterm_request] RunShell) = Inr su"
    by (simp add: finish_setup_def requested_setup_def xterm_request_def allocate_pty_def winsize_from_pty_def winsize_of_def
        try_u16_def U16_LIMIT_def Let_def)
  have g: "motd_wire quic_varint (RunShell = RunShell \<and> [xterm_request] \<noteq> []) False (Inr [72, 105])
      = img_msg quic_varint (M_Data [72, 105])" by (simp add: motd_wire_def)
  from session_start_end_to_end [where 'me = unit, OF quic.varint_codec_axioms v l endless_fresh e endless_fresh e n m f,
      of False, unfolded g]
  show ?thesis by blast
qed

end
