(* ===== verification/Remote_Session.thy ===== *)
theory Remote_Session
  imports Session_Start
begin

text \<open>
  A whole session: the task the server runs for a session channel (\<open>run_session\<close> in
  \<open>src/session/dispatcher.rs\<close>) from the opening of the channel to the end of the process, and
  the composition of client and server, without and with a terminal.
\<close>

subsection \<open>The session task\<close>

text \<open>
  What surrounds the process of a session: the events its relays observe, how the system spawns and
  reaps it, when the shutdown token was cancelled, and whether the input relay ends when told to.
\<close>

datatype task_stop = BeforeAccept | DuringSetup | WhileRunning | NoStop

record 'pty child_world =
  cw_signum :: "signal \<Rightarrow> int"
  cw_child :: child_api
  cw_spawn :: "command \<Rightarrow> io_error + nat option"
  cw_start :: nat
  cw_pty_setup :: "'pty \<Rightarrow> pty_setup"
  cw_piped_events :: "out_event list"
  cw_pty_events :: "pty_event list"
  cw_stop :: task_stop
  cw_input_ends :: bool

definition run_command ::
    "varint_api \<Rightarrow> 'pty child_world \<Rightarrow> command \<Rightarrow> 'pty option \<Rightarrow> writer
     \<Rightarrow> (process_error + unit) option \<times> (output_relay \<times> session_process) option" where
  "run_command V W cmd pty w = (case pty of
       Some p \<Rightarrow> run_pty V (cw_signum W) (cw_child W) (cw_pty_setup W p) (cw_spawn W) (cw_start W) cmd w
                   (cw_pty_events W) (cw_stop W = WhileRunning) (cw_input_ends W)
     | None \<Rightarrow> run_piped V (cw_signum W) (cw_child W) (cw_spawn W) (cw_start W) cmd w
                 (cw_piped_events W) (cw_stop W = WhileRunning) (cw_input_ends W))"

text \<open>
  The first component is what the task returned, \<open>None\<close> while it runs. A failed accept or setup, or
  a shutdown before the command runs, is no error of the task.
\<close>

definition session_task ::
    "varint_api \<Rightarrow> (winsize \<Rightarrow> nat + 'pty) \<Rightarrow> (bytes \<Rightarrow> 'pty \<Rightarrow> 'pty) \<Rightarrow> nat
     \<Rightarrow> bool \<Rightarrow> string option \<Rightarrow> string option \<Rightarrow> string option \<Rightarrow> bool \<Rightarrow> io_error + bytes \<Rightarrow> session_config
     \<Rightarrow> 'pty child_world \<Rightarrow> ssh_channel
     \<Rightarrow> (process_error + unit) option \<times> (output_relay \<times> session_process) option" where
  "session_task V openpty set_modes fuel home_is_dir tz lang etc_environment hushlogin motd config W c =
     (if cw_stop W = BeforeAccept then (Some (Inr ()), None)
      else case pending_accept V (sc_max_message_size config) c of
        (Inl _, _) \<Rightarrow> (Some (Inr ()), None)
      | (Inr _, c1) \<Rightarrow>
          (case session_setup V openpty set_modes fuel c1 of
             (None, _) \<Rightarrow> (if cw_stop W = DuringSetup then Some (Inr ()) else None, None)
           | (Some (Inl _), _) \<Rightarrow> (Some (Inr ()), None)
           | (Some (Inr setup), c2) \<Rightarrow>
               (let c3 = (if se_is_shell setup \<and> se_pty setup \<noteq> None then send_motd V hushlogin motd c2 else c2) in
                run_command V W
                  (session_command home_is_dir tz lang etc_environment
                     (setup_mode (ui_shell (sc_user config)) setup) config (se_term_type setup) (se_client_env setup))
                  (se_pty setup) (ch_writer c3))))"

lemma session_task_runs:
  assumes "session_task_start V openpty set_modes fuel home_is_dir tz lang etc hushlogin motd config c
      = (Some (cmd, pty), c')" "cw_stop W \<noteq> BeforeAccept"
  shows "session_task V openpty set_modes fuel home_is_dir tz lang etc hushlogin motd config W c
    = run_command V W cmd pty (ch_writer c')"
  using assms by (auto simp: session_task_def session_task_start_def Let_def split: prod.splits sum.splits option.splits)

text \<open>A task that was told to stop before its command runs leaves no process.\<close>

lemma session_task_stopped:
  assumes "cw_stop W = BeforeAccept"
  shows "session_task V openpty set_modes fuel home_is_dir tz lang etc hushlogin motd config W c = (Some (Inr ()), None)"
  using assms by (simp add: session_task_def)

subsection \<open>The process with its relays\<close>

text \<open>A piped child that closes its outputs and is seen to exit, over a channel that takes everything.\<close>

lemma run_piped_output:
  assumes "list_all event_good evs" "OutRead (Inr []) \<in> set evs" "ErrRead (Inr []) \<in> set evs" "exit_of evs = Some st"
    and "endless w" "spawn cmd = Inr (Some pid)"
  shows "\<exists>ms o' p. run_piped V sg A spawn start cmd w evs stop True = (Some (Inr ()), Some (o', p)) \<and> sp_reaped p
    \<and> w_out (or_writer o') = w_out w @ img_out V sg (ms @ [SM_Eof]) @ img_msg V M_Close
    \<and> list_all short_msg ms \<and> exits ms = [st] \<and> outs ms = stdout_of evs \<and> errs ms = stderr_of evs"
proof -
  have "ChildExit (Inr st) \<in> set evs"
    using assms(4) by (induction evs rule: exit_of.induct) auto
  from output_completes [OF assms(1,5,2,3) this, of V sg] obtain s where
    s: "relay_then_close V (relay_output_piped V sg evs (relay_start w)) = (Some (Inr ()), s)" "relay_finished s" by blast
  from relay_close_msgs [OF s(1) good_is_ok [OF assms(1)]] obtain ms where
    ms: "w_out (or_writer s) = w_out w @ img_out V sg (ms @ [SM_Eof]) @ img_msg V M_Close"
      "list_all short_msg ms" "exits ms = [st]" "outs ms = stdout_of evs" "errs ms = stderr_of evs"
    using assms(4) by auto
  have "run_piped V sg A spawn start cmd w evs stop True
      = (Some (Inr ()), Some (s\<lparr>or_input_stopped := True\<rparr>,
          observe_exit s \<lparr>sp_group = pid, sp_reaped = False, sp_clock = start, sp_signals = []\<rparr>))"
    using s assms(6)
    by (simp add: run_piped_def session_process_new_def finish_session_def end_session_def)
  moreover have "sp_reaped (observe_exit s p)" for p using s(2) by (simp add: observe_exit_def relay_finished_def)
  ultimately show ?thesis using ms by (intro exI [of _ ms]) simp
qed

lemma run_pty_output:
  assumes "list_all pty_good evs" "PtyEio \<in> set evs \<or> PtyRead (Inr []) \<in> set evs" "pty_exit_of evs = Some st"
    and "endless w" "spawn cmd = Inr (Some pid)"
    and "ps_dup_stdout P = Inr ()" "ps_dup_stderr P = Inr ()" "pty_endpoints P = Inr ()"
  shows "\<exists>ms o' p. run_pty V sg A P spawn start cmd w evs stop True = (Some (Inr ()), Some (o', p)) \<and> sp_reaped p
    \<and> w_out (or_writer o') = w_out w @ img_out V sg (ms @ [SM_Eof]) @ img_msg V M_Close
    \<and> list_all short_msg ms \<and> exits ms = [st] \<and> outs ms = screen_of evs \<and> errs ms = []"
proof -
  have "or_stderr_done (relay_start w) = or_stdout_done (relay_start w)" by (simp add: relay_start_def)
  from relay_pty_as_piped [OF assms(1) this]
  have "run_pty V sg A P spawn start cmd w evs stop True = run_piped V sg A spawn start cmd w (as_pipes evs) stop True"
    using assms(5-8) by (simp add: run_pty_def run_piped_def session_process_new_def)
  with run_piped_output [OF as_pipes_good [OF assms(1)] as_pipes_ends [OF assms(2)], of st w spawn cmd pid V sg A start stop]
    assms(3-5) show ?thesis by (simp add: as_pipes_say(1,2) [OF assms(1)] as_pipes_say(3))
qed

subsection \<open>The two ends\<close>

text \<open>The server, from the bytes of the client's requests to the process to run.\<close>

lemma server_command:
  fixes hushlogin :: bool and W :: "'pty child_world"
  assumes "varint_codec V" "\<forall>p \<in> set ptys. valid_pty p" "valid_end final" "endless sw" "w_out sw = []"
    and "length ptys < fuel" "motd_fits (final = RunShell \<and> ptys \<noteq> []) motd"
    and "finish_setup openpty set_modes (requested_setup ptys final) = Inr setup"
    and "cmd = session_command home_is_dir tz lang etc (requested_mode (ui_shell (sc_user config)) final) config
        (st_term_type (requested_setup ptys final)) []"
    and "cw_stop W \<noteq> BeforeAccept"
  shows "\<exists>inc ch ws. accept_channel V (Inr (rd (request_wire V ptys final @ input) None, sw) :: 'me + reader \<times> writer) = Inr inc
    \<and> dispatch_channel V config inc = Spawn (SessionTask ch)
    \<and> session_task_start V openpty set_modes fuel home_is_dir tz lang etc hushlogin motd config ch
        = (Some (cmd, se_pty setup), \<lparr>ch_reader = rd input None, ch_writer = ws\<rparr>)
    \<and> session_task V openpty set_modes fuel home_is_dir tz lang etc hushlogin motd config W ch
        = run_command V W cmd (se_pty setup) ws
    \<and> endless ws \<and> w_out ws = setup_wire V config ptys @ motd_wire V (final = RunShell \<and> ptys \<noteq> []) hushlogin motd"
proof -
  from server_accepts [OF assms(1-8), where 'me = 'me and input = input and config = config and home_is_dir = home_is_dir
      and tz = tz and lang = lang and etc = etc and hushlogin = hushlogin] obtain inc ch ws where
    s: "accept_channel V (Inr (rd (request_wire V ptys final @ input) None, sw) :: 'me + reader \<times> writer) = Inr inc"
    "dispatch_channel V config inc = Spawn (SessionTask ch)"
    "session_task_start V openpty set_modes fuel home_is_dir tz lang etc hushlogin motd config ch
      = (Some (cmd, se_pty setup), \<lparr>ch_reader = rd input None, ch_writer = ws\<rparr>)"
    "endless ws" "w_out ws = setup_wire V config ptys @ motd_wire V (final = RunShell \<and> ptys \<noteq> []) hushlogin motd"
    unfolding assms(9) by blast
  from session_task_runs [OF s(3) assms(10)] s show ?thesis by auto
qed

text \<open>The client, over an answer made of the messages of a relay that completed.\<close>

definition closed_wire :: "varint_api \<Rightarrow> (signal \<Rightarrow> int) \<Rightarrow> out_msg list \<Rightarrow> bytes" where
  "closed_wire V sg ms = img_out V sg (ms @ [SM_Eof]) @ img_msg V M_Close"

lemma client_session:
  assumes "varint_codec V" "\<forall>p \<in> set ptys. valid_pty p" "valid_end final" "sc_max_message_size config < VARINT_LIMIT"
    and "endless w" "w_out w = []" "list_all read_fits sevs" "stdin_ends sevs"
    and "list_all short_msg ms" "exits ms = [st]" "answer = setup_wire V config ptys @ closed_wire V sg ms"
  shows "\<exists>c0 c1 w'. open_channel V (Inr (rd answer None, w) :: 'me + reader \<times> writer)
        (channel_type SessionChannelOpen) (channel_open_payload V SessionChannelOpen) DEFAULT_MAX_MESSAGE_SIZE = Inr c0
    \<and> client_setup V ptys final c0 = (Inr (), c1)
    \<and> w_out w' = request_wire V ptys final @ stdin_wire V interactive sevs
    \<and> (\<forall>n out err. length answer < n \<longrightarrow> endless out \<longrightarrow> endless err \<longrightarrow>
         (\<exists>io. (if interactive then client_run_interactive V lag n sevs out err c1 else client_run V lag n sevs out err c1)
              = (Some (Inr (Some (client_exit sg st))), io, w')
            \<and> w_out (ci_stdout io) = w_out out @ outs ms \<and> w_out (ci_stderr io) = w_out err @ errs ms))"
proof -
  let ?c1 = "\<lambda>w1. \<lparr>ch_reader = rd (closed_wire V sg ms) None, ch_writer = w1\<rparr>"
  from client_starts [OF assms(1-6), where 'me = 'me and answer = "closed_wire V sg ms" and e = None] obtain c0 w1 where
    client: "open_channel V (Inr (rd answer None, w) :: 'me + reader \<times> writer)
        (channel_type SessionChannelOpen) (channel_open_payload V SessionChannelOpen) DEFAULT_MAX_MESSAGE_SIZE = Inr c0"
    "client_setup V ptys final c0 = (Inr (), ?c1 w1)" "endless w1" "w_out w1 = request_wire V ptys final"
    unfolding assms(11) by blast
  obtain w' where w': "(if interactive then relay_stdin_interactive V sevs w1 else relay_stdin V sevs w1) = (True, w')"
      "w_out w' = request_wire V ptys final @ stdin_wire V interactive sevs"
    using relay_stdin_wire [OF client(3) assms(7), of V] relay_stdin_interactive_wire [OF client(3) assms(7), of V]
      assms(8) client(4) by (cases interactive) auto
  have "\<exists>io. (if interactive then client_run_interactive V lag n sevs out err (?c1 w1) else client_run V lag n sevs out err (?c1 w1))
        = (Some (Inr (Some (client_exit sg st))), io, w')
      \<and> w_out (ci_stdout io) = w_out out @ outs ms \<and> w_out (ci_stderr io) = w_out err @ errs ms"
    if "length answer < n" "endless out" "endless err" for n out err
    using client_reads_msgs [OF assms(1,9,10) that(2,3), of sg n lag "[]" None] that(1) assms(11) w'(1)
    by (auto simp: client_run_def client_run_interactive_def closed_wire_def split: if_splits)
  with client(1,2) w'(2) show ?thesis by blast
qed

subsection \<open>A command\<close>

text \<open>
  C1: a command run remotely, end to end. The client opens a session channel, asks for a command or
  a shell without a terminal, and relays its standard input; the server accepts the channel, takes
  it for a session, runs exactly the command asked for as the user of the session, and relays the
  child. If the child closes its outputs and exits and the client's input comes to an end, then
  there is one byte stream in each direction such that what either end writes is what the other
  was taken to read, and over these streams every call of the client succeeds, the client returns
  the child's exit result with the child's standard output and standard error on its own, the child
  gets exactly the bytes of the client's standard input, the task of the server ends without error
  and the child is reaped.
\<close>

theorem command_session_end_to_end:
  fixes hushlogin :: bool and W :: "'pty child_world"
  assumes "varint_codec V" "valid_end final" "sc_max_message_size config < VARINT_LIMIT"
    and "endless w" "w_out w = []" "endless sw" "w_out sw = []" "0 < fuel"
    and input: "list_all read_fits sevs" "stdin_ends sevs"
    and "evs = cw_piped_events W" "list_all event_good evs" "OutRead (Inr []) \<in> set evs" "ErrRead (Inr []) \<in> set evs"
    and "exit_of evs = Some st"
    and "cmd = session_command home_is_dir tz lang etc (requested_mode (ui_shell (sc_user config)) final) config None []"
    and "cw_spawn W cmd = Inr (Some pid)" "cw_stop W = NoStop" "cw_input_ends W"
  shows "\<exists>answer c0 c1 w' inc ch sc o' p.
      open_channel V (Inr (rd answer None, w) :: 'me + reader \<times> writer)
        (channel_type SessionChannelOpen) (channel_open_payload V SessionChannelOpen) DEFAULT_MAX_MESSAGE_SIZE = Inr c0
    \<and> client_setup V [] final c0 = (Inr (), c1)
    \<and> (\<forall>n out err. length answer < n \<longrightarrow> endless out \<longrightarrow> endless err \<longrightarrow>
         (\<exists>io. client_run V lag n sevs out err c1 = (Some (Inr (Some (client_exit (cw_signum W) st))), io, w')
            \<and> w_out (ci_stdout io) = w_out out @ stdout_of evs \<and> w_out (ci_stderr io) = w_out err @ stderr_of evs))
    \<and> accept_channel V (Inr (rd (w_out w') None, sw) :: 'me + reader \<times> writer) = Inr inc
    \<and> dispatch_channel V config inc = Spawn (SessionTask ch)
    \<and> session_task_start V openpty set_modes fuel home_is_dir tz lang etc hushlogin motd config ch = (Some (cmd, None), sc)
    \<and> session_task V openpty set_modes fuel home_is_dir tz lang etc hushlogin motd config W ch
        = (Some (Inr ()), Some (o', p))
    \<and> sp_reaped p \<and> w_out (or_writer o') = answer
    \<and> (\<forall>n s. in_reader s = ch_reader sc \<longrightarrow> endless (in_sink s) \<longrightarrow> length (w_out w') < n \<longrightarrow>
         w_out (in_sink (relay_input_piped V lag n s)) = w_out (in_sink s) @ typed_of sevs)"
proof -
  have none: "\<forall>p \<in> set []. valid_pty p" "length ([] :: pty_request list) < fuel"
    "motd_fits (final = RunShell \<and> ([] :: pty_request list) \<noteq> []) motd"
    using assms(8) by (simp_all add: motd_fits_def)
  obtain su where su: "finish_setup openpty set_modes (requested_setup [] final) = Inr su" "se_pty su = None"
    by (simp add: finish_setup_def requested_setup_def Let_def)
  have cmd: "cmd = session_command home_is_dir tz lang etc (requested_mode (ui_shell (sc_user config)) final) config
      (st_term_type (requested_setup [] final)) []" using assms(16) by (simp add: requested_setup_def)
  have stop: "cw_stop W \<noteq> BeforeAccept" using assms(18) by simp
  from server_command [OF assms(1) none(1) assms(2,6,7) none(2,3) su(1) cmd stop, where 'me = 'me
      and input = "stdin_wire V False sevs" and hushlogin = hushlogin] obtain inc ch ws where server:
    "accept_channel V (Inr (rd (request_wire V [] final @ stdin_wire V False sevs) None, sw) :: 'me + reader \<times> writer) = Inr inc"
    "dispatch_channel V config inc = Spawn (SessionTask ch)"
    "session_task_start V openpty set_modes fuel home_is_dir tz lang etc hushlogin motd config ch
      = (Some (cmd, None), \<lparr>ch_reader = rd (stdin_wire V False sevs) None, ch_writer = ws\<rparr>)"
    "session_task V openpty set_modes fuel home_is_dir tz lang etc hushlogin motd config W ch = run_command V W cmd None ws"
    "endless ws" "w_out ws = setup_wire V config []"
    using su(2) by (auto simp: motd_wire_def split: sum.splits)
  from run_piped_output [where V = V and sg = "cw_signum W" and A = "cw_child W" and start = "cw_start W" and stop = False
      and spawn = "cw_spawn W" and cmd = cmd, OF assms(12-15) server(5) assms(17)] obtain ms o' p where run:
    "run_command V W cmd None ws = (Some (Inr ()), Some (o', p))" "sp_reaped p"
    "w_out (or_writer o') = setup_wire V config [] @ closed_wire V (cw_signum W) ms"
    "list_all short_msg ms" "exits ms = [st]" "outs ms = stdout_of evs" "errs ms = stderr_of evs"
    using assms(11,18,19) server(6) by (auto simp: run_command_def closed_wire_def)
  from client_session [OF assms(1) none(1) assms(2-5) input run(4,5,3), where 'me = 'me and interactive = False and lag = lag] obtain c0 c1 w' where
    client: "open_channel V (Inr (rd (w_out (or_writer o')) None, w) :: 'me + reader \<times> writer)
        (channel_type SessionChannelOpen) (channel_open_payload V SessionChannelOpen) DEFAULT_MAX_MESSAGE_SIZE = Inr c0"
    "client_setup V [] final c0 = (Inr (), c1)" "w_out w' = request_wire V [] final @ stdin_wire V False sevs"
    "\<forall>n out err. length (w_out (or_writer o')) < n \<longrightarrow> endless out \<longrightarrow> endless err \<longrightarrow>
         (\<exists>io. client_run V lag n sevs out err c1 = (Some (Inr (Some (client_exit (cw_signum W) st))), io, w')
            \<and> w_out (ci_stdout io) = w_out out @ stdout_of evs \<and> w_out (ci_stderr io) = w_out err @ stderr_of evs)"
    using run(6,7) by auto
  have "w_out (in_sink (relay_input_piped V lag n s)) = w_out (in_sink s) @ typed_of sevs"
    if "in_reader s = rd (stdin_wire V False sevs) None" "endless (in_sink s)" "length (w_out w') < n" for n s
    using input_delivered [OF assms(1) input, of s False "[]" None n handle_piped_notice lag] that client(3)
    by (simp add: relay_input_piped_def)
  then have gets: "\<forall>n s. in_reader s = ch_reader \<lparr>ch_reader = rd (stdin_wire V False sevs) None, ch_writer = ws\<rparr> \<longrightarrow>
      endless (in_sink s) \<longrightarrow> length (w_out w') < n \<longrightarrow>
      w_out (in_sink (relay_input_piped V lag n s)) = w_out (in_sink s) @ typed_of sevs" by simp
  note acc = server(1) [folded client(3)]
  note task = server(4) [unfolded run(1)]
  show ?thesis
    by (intro exI conjI) (rule client(1) client(2) client(4) acc server(2) server(3) task run(2) refl gets)+
qed

definition no_child :: child_api where
  "no_child = \<lparr>ca_try_wait = (\<lambda>_ _. Inr None), ca_wait = (\<lambda>_ _. None), ca_late = (\<lambda>_. 0)\<rparr>"

definition sample_world :: "winsize child_world" where
  "sample_world = \<lparr>cw_signum = (\<lambda>_. 1), cw_child = no_child, cw_spawn = (\<lambda>_. Inr (Some 7)), cw_start = 0,
     cw_pty_setup = (\<lambda>_. \<lparr>ps_dup_stdout = Inr (), ps_dup_stderr = Inr (), ps_dup_master = Inr (),
        ps_async_reader = Inr (), ps_async_writer = Inr ()\<rparr>),
     cw_piped_events = sample_events,
     cw_pty_events = [PtyRead (Inr [36]), PtyChildExit (Inr (Exited 0)), PtyEio],
     cw_stop = NoStop, cw_input_ends = True\<rparr>"

lemma fresh_is_new: "w_out fresh_writer = []"
  by (simp add: fresh_writer_def)

lemma default_session_size: "sc_max_message_size session_config_default < VARINT_LIMIT"
  by (simp add: session_config_default_def default_size_limit)

theorem command_session_end_to_end_witness:
  "\<exists>answer c0 c1 w' io. open_channel quic_varint (Inr (rd answer None, fresh_writer) :: unit + reader \<times> writer)
        (channel_type SessionChannelOpen) (channel_open_payload quic_varint SessionChannelOpen) DEFAULT_MAX_MESSAGE_SIZE = Inr c0
    \<and> client_setup quic_varint [] (RunExec \<lparr>exec_command = [108, 115]\<rparr>) c0 = (Inr (), c1)
    \<and> client_run quic_varint 0 (Suc (length answer)) [StdinRead (Inr [65]), Done] fresh_writer fresh_writer c1
        = (Some (Inr (Some (ExitStatus 3))), io, w')
    \<and> w_out (ci_stdout io) = [104, 105, 10] \<and> w_out (ci_stderr io) = [33]"
proof -
  let ?sevs = "[StdinRead (Inr [65]), Done]" and ?final = "RunExec \<lparr>exec_command = [108, 115]\<rparr>"
  have v: "valid_end ?final" "list_all read_fits ?sevs" "stdin_ends ?sevs"
    by (simp_all add: valid_exec_def valid_ssh_bytes_def MAX_REMOTE_FIELD_SIZE_def)
  have c: "sample_events = cw_piped_events sample_world" "list_all event_good sample_events"
    "OutRead (Inr []) \<in> set sample_events" "ErrRead (Inr []) \<in> set sample_events" "exit_of sample_events = Some (Exited 3)"
    "cw_spawn sample_world (session_command True None None None (requested_mode (ui_shell (sc_user session_config_default)) ?final)
        session_config_default None []) = Inr (Some 7)"
    "cw_stop sample_world = NoStop" "cw_input_ends sample_world"
    by (simp_all add: sample_world_def sample_events_def)
  have e: "client_exit (cw_signum sample_world) (Exited 3) = ExitStatus 3"
    "stdout_of sample_events = [104, 105, 10]" "stderr_of sample_events = [33]"
    by (simp_all add: client_exit_def sample_events_def)
  from command_session_end_to_end [where 'me = unit and W = sample_world and lag = 0 and hushlogin = False,
      OF quic.varint_codec_axioms v(1) default_session_size endless_fresh fresh_is_new endless_fresh fresh_is_new zero_less_one
        v(2,3) c(1-5) refl c(6-8), unfolded e]
  obtain answer c0 c1 w' where
    1: "open_channel quic_varint (Inr (rd answer None, fresh_writer) :: unit + reader \<times> writer)
        (channel_type SessionChannelOpen) (channel_open_payload quic_varint SessionChannelOpen) DEFAULT_MAX_MESSAGE_SIZE = Inr c0"
      "client_setup quic_varint [] ?final c0 = (Inr (), c1)"
    and 2: "\<forall>n out err. length answer < n \<longrightarrow> endless out \<longrightarrow> endless err \<longrightarrow>
         (\<exists>io. client_run quic_varint 0 n ?sevs out err c1 = (Some (Inr (Some (ExitStatus 3))), io, w')
            \<and> w_out (ci_stdout io) = w_out out @ [104, 105, 10] \<and> w_out (ci_stderr io) = w_out err @ [33])" by blast
  from 2 [rule_format, OF lessI endless_fresh endless_fresh, unfolded fresh_is_new append_Nil] 1 show ?thesis by blast
qed

subsection \<open>A terminal session\<close>

definition motd_shown :: "bool \<Rightarrow> bool \<Rightarrow> io_error + bytes \<Rightarrow> bytes" where
  "motd_shown interactive hushlogin motd = (case motd of
       Inl _ \<Rightarrow> []
     | Inr data \<Rightarrow> if interactive \<and> \<not> hushlogin then data else [])"

text \<open>On the wire the message of the day is the first message of the output.\<close>

lemma motd_msgs:
  assumes "motd_fits interactive motd"
  shows "\<exists>g. motd_wire V interactive hushlogin motd @ closed_wire V sg ms = closed_wire V sg (g @ ms)
    \<and> list_all short_msg g \<and> exits g = [] \<and> outs g = motd_shown interactive hushlogin motd \<and> errs g = []"
proof (cases "motd_shown interactive hushlogin motd = []")
  case True
  then show ?thesis
    by (intro exI [of _ "[]"]) (auto simp: motd_wire_def motd_shown_def split: sum.splits if_splits)
next
  case False
  with assms show ?thesis
    by (intro exI [of _ "[SM_Out (motd_shown interactive hushlogin motd)]"])
      (auto simp: motd_wire_def motd_shown_def motd_fits_def closed_wire_def split: sum.splits if_splits)
qed

text \<open>
  C2: a terminal session end to end. As for a command, but the client asks for a terminal and the
  child runs on it: the client's output is the message of the day, if one is due, followed by
  everything the terminal showed; nothing goes to its standard error; the terminal gets the bytes
  the user typed and, in order, every size reported by the client; and the exit result is the
  child's.
\<close>

theorem terminal_session_end_to_end:
  fixes hushlogin :: bool and W :: "'pty child_world"
  assumes "varint_codec V" "\<forall>p \<in> set ptys. valid_pty p" "valid_end final" "sc_max_message_size config < VARINT_LIMIT"
    and "endless w" "w_out w = []" "endless sw" "w_out sw = []" "length ptys < fuel"
    and "interactive \<longleftrightarrow> final = RunShell \<and> ptys \<noteq> []" "motd_fits interactive motd"
    and "finish_setup openpty set_modes (requested_setup ptys final) = Inr setup" "se_pty setup = Some pty"
    and input: "list_all read_fits sevs" "stdin_ends sevs"
    and "evs = cw_pty_events W" "list_all pty_good evs" "PtyEio \<in> set evs \<or> PtyRead (Inr []) \<in> set evs"
    and "pty_exit_of evs = Some st"
    and "cmd = session_command home_is_dir tz lang etc (requested_mode (ui_shell (sc_user config)) final) config
        (st_term_type (requested_setup ptys final)) []"
    and "cw_spawn W cmd = Inr (Some pid)" "cw_stop W = NoStop" "cw_input_ends W"
    and "ps_dup_stdout (cw_pty_setup W pty) = Inr ()" "ps_dup_stderr (cw_pty_setup W pty) = Inr ()"
    and "pty_endpoints (cw_pty_setup W pty) = Inr ()"
  shows "\<exists>answer c0 c1 w' inc ch sc o' p.
      open_channel V (Inr (rd answer None, w) :: 'me + reader \<times> writer)
        (channel_type SessionChannelOpen) (channel_open_payload V SessionChannelOpen) DEFAULT_MAX_MESSAGE_SIZE = Inr c0
    \<and> client_setup V ptys final c0 = (Inr (), c1)
    \<and> (\<forall>n out err. length answer < n \<longrightarrow> endless out \<longrightarrow> endless err \<longrightarrow>
         (\<exists>io. client_run_interactive V lag n sevs out err c1 = (Some (Inr (Some (client_exit (cw_signum W) st))), io, w')
            \<and> w_out (ci_stdout io) = w_out out @ motd_shown interactive hushlogin motd @ screen_of evs
            \<and> w_out (ci_stderr io) = w_out err))
    \<and> accept_channel V (Inr (rd (w_out w') None, sw) :: 'me + reader \<times> writer) = Inr inc
    \<and> dispatch_channel V config inc = Spawn (SessionTask ch)
    \<and> session_task_start V openpty set_modes fuel home_is_dir tz lang etc hushlogin motd config ch = (Some (cmd, Some pty), sc)
    \<and> session_task V openpty set_modes fuel home_is_dir tz lang etc hushlogin motd config W ch
        = (Some (Inr ()), Some (o', p))
    \<and> sp_reaped p \<and> w_out (or_writer o') = answer
    \<and> (\<forall>n s. in_reader s = ch_reader sc \<longrightarrow> endless (in_sink s) \<longrightarrow> length (w_out w') < n \<longrightarrow>
         w_out (in_sink (relay_input_pty V lag n s)) = w_out (in_sink s) @ typed_of sevs
         \<and> in_resizes (relay_input_pty V lag n s) = in_resizes s @ sizes_of sevs)"
proof -
  have stop: "cw_stop W \<noteq> BeforeAccept" using assms(22) by simp
  from server_command [OF assms(1-3,7-9) assms(11) [unfolded assms(10)] assms(12,20) stop, where 'me = 'me
      and input = "stdin_wire V True sevs" and hushlogin = hushlogin] obtain inc ch ws where server:
    "accept_channel V (Inr (rd (request_wire V ptys final @ stdin_wire V True sevs) None, sw) :: 'me + reader \<times> writer) = Inr inc"
    "dispatch_channel V config inc = Spawn (SessionTask ch)"
    "session_task_start V openpty set_modes fuel home_is_dir tz lang etc hushlogin motd config ch
      = (Some (cmd, Some pty), \<lparr>ch_reader = rd (stdin_wire V True sevs) None, ch_writer = ws\<rparr>)"
    "session_task V openpty set_modes fuel home_is_dir tz lang etc hushlogin motd config W ch = run_command V W cmd (Some pty) ws"
    "endless ws" "w_out ws = setup_wire V config ptys @ motd_wire V interactive hushlogin motd"
    unfolding assms(10,13) by blast
  from run_pty_output [where V = V and sg = "cw_signum W" and A = "cw_child W" and start = "cw_start W" and stop = False
      and spawn = "cw_spawn W" and cmd = cmd, OF assms(17-19) server(5) assms(21,24-26)] obtain ms o' p where run:
    "run_command V W cmd (Some pty) ws = (Some (Inr ()), Some (o', p))" "sp_reaped p"
    "w_out (or_writer o') = w_out ws @ closed_wire V (cw_signum W) ms"
    "list_all short_msg ms" "exits ms = [st]" "outs ms = screen_of evs" "errs ms = []"
    using assms(16,22,23) by (auto simp: run_command_def closed_wire_def)
  from motd_msgs [OF assms(11), of V hushlogin "cw_signum W" ms] obtain g where g:
    "motd_wire V interactive hushlogin motd @ closed_wire V (cw_signum W) ms = closed_wire V (cw_signum W) (g @ ms)"
    "list_all short_msg g" "exits g = []" "outs g = motd_shown interactive hushlogin motd" "errs g = []" by blast
  have gms: "list_all short_msg (g @ ms)" "exits (g @ ms) = [st]"
    "w_out (or_writer o') = setup_wire V config ptys @ closed_wire V (cw_signum W) (g @ ms)"
    using run(3-5) g server(6) by (simp_all add: summary_append)
  from client_session [OF assms(1-6) input gms, where 'me = 'me and interactive = True and lag = lag] obtain c0 c1 w' where
    client: "open_channel V (Inr (rd (w_out (or_writer o')) None, w) :: 'me + reader \<times> writer)
        (channel_type SessionChannelOpen) (channel_open_payload V SessionChannelOpen) DEFAULT_MAX_MESSAGE_SIZE = Inr c0"
    "client_setup V ptys final c0 = (Inr (), c1)" "w_out w' = request_wire V ptys final @ stdin_wire V True sevs"
    "\<forall>n out err. length (w_out (or_writer o')) < n \<longrightarrow> endless out \<longrightarrow> endless err \<longrightarrow>
         (\<exists>io. client_run_interactive V lag n sevs out err c1 = (Some (Inr (Some (client_exit (cw_signum W) st))), io, w')
            \<and> w_out (ci_stdout io) = w_out out @ motd_shown interactive hushlogin motd @ screen_of evs
            \<and> w_out (ci_stderr io) = w_out err)"
    using run(6,7) g(4,5) by (auto simp: summary_append)
  have "w_out (in_sink (relay_input_pty V lag n s)) = w_out (in_sink s) @ typed_of sevs
      \<and> in_resizes (relay_input_pty V lag n s) = in_resizes s @ sizes_of sevs"
    if "in_reader s = rd (stdin_wire V True sevs) None" "endless (in_sink s)" "length (w_out w') < n" for n s
    using input_delivered [OF assms(1) input, of s True "[]" None n handle_pty_notice lag] that client(3)
    by (simp add: relay_input_pty_def)
  then have gets: "\<forall>n s. in_reader s = ch_reader \<lparr>ch_reader = rd (stdin_wire V True sevs) None, ch_writer = ws\<rparr> \<longrightarrow>
      endless (in_sink s) \<longrightarrow> length (w_out w') < n \<longrightarrow>
      w_out (in_sink (relay_input_pty V lag n s)) = w_out (in_sink s) @ typed_of sevs
      \<and> in_resizes (relay_input_pty V lag n s) = in_resizes s @ sizes_of sevs" by simp
  note acc = server(1) [folded client(3)]
  note task = server(4) [unfolded run(1)]
  show ?thesis
    by (intro exI conjI) (rule client(1) client(2) client(4) acc server(2) server(3) task run(2) refl gets)+
qed

theorem terminal_session_end_to_end_witness:
  "\<exists>answer c0 c1 w' io. open_channel quic_varint (Inr (rd answer None, fresh_writer) :: unit + reader \<times> writer)
        (channel_type SessionChannelOpen) (channel_open_payload quic_varint SessionChannelOpen) DEFAULT_MAX_MESSAGE_SIZE = Inr c0
    \<and> client_setup quic_varint [xterm_request] RunShell c0 = (Inr (), c1)
    \<and> client_run_interactive quic_varint 0 (Suc (length answer)) [Resize (Some (100, 40)), Done] fresh_writer fresh_writer c1
        = (Some (Inr (Some (ExitStatus 0))), io, w')
    \<and> w_out (ci_stdout io) = [72, 105, 36] \<and> w_out (ci_stderr io) = []"
proof -
  let ?sevs = "[Resize (Some (100, 40)), Done]" and ?evs = "cw_pty_events sample_world"
  have v: "\<forall>p \<in> set [xterm_request]. valid_pty p" "valid_end RunShell" "list_all read_fits ?sevs" "stdin_ends ?sevs"
    "length [xterm_request] < 2" "True \<longleftrightarrow> RunShell = RunShell \<and> [xterm_request] \<noteq> []" "motd_fits True (Inr [72, 105])"
    by (simp_all add: xterm_request_def valid_pty_def valid_ssh_string_def valid_ssh_bytes_def utf8_valid_lit ascii_def
        byte_of_def MAX_REMOTE_FIELD_SIZE_def VARINT_LIMIT_def motd_fits_def)
  obtain su pty where f: "finish_setup Inr (\<lambda>_. id) (requested_setup [xterm_request] RunShell) = Inr su" "se_pty su = Some pty"
    by (simp add: finish_setup_def requested_setup_def xterm_request_def allocate_pty_def winsize_from_pty_def winsize_of_def
        try_u16_def U16_LIMIT_def Let_def)
  have c: "list_all pty_good ?evs" "PtyEio \<in> set ?evs \<or> PtyRead (Inr []) \<in> set ?evs" "pty_exit_of ?evs = Some (Exited 0)"
    "cw_stop sample_world = NoStop" "cw_input_ends sample_world" "ps_dup_stdout (cw_pty_setup sample_world pty) = Inr ()"
    "ps_dup_stderr (cw_pty_setup sample_world pty) = Inr ()" "pty_endpoints (cw_pty_setup sample_world pty) = Inr ()"
    by (simp_all add: sample_world_def pty_endpoints_def)
  have sp: "cw_spawn sample_world cmd = Inr (Some 7)" for cmd by (simp add: sample_world_def)
  have e: "client_exit (cw_signum sample_world) (Exited 0) = ExitStatus 0"
    "motd_shown True False (Inr [72, 105]) @ screen_of ?evs = [72, 105, 36]"
    by (simp_all add: client_exit_def motd_shown_def sample_world_def)
  from terminal_session_end_to_end [where 'me = unit and W = sample_world and lag = 0 and hushlogin = False,
      OF quic.varint_codec_axioms v(1,2) default_session_size endless_fresh fresh_is_new endless_fresh fresh_is_new v(5,6,7) f
        v(3,4) refl c(1-3) refl sp c(4-8), unfolded e]
  obtain answer c0 c1 w' where
    1: "open_channel quic_varint (Inr (rd answer None, fresh_writer) :: unit + reader \<times> writer)
        (channel_type SessionChannelOpen) (channel_open_payload quic_varint SessionChannelOpen) DEFAULT_MAX_MESSAGE_SIZE = Inr c0"
      "client_setup quic_varint [xterm_request] RunShell c0 = (Inr (), c1)"
    and 2: "\<forall>n out err. length answer < n \<longrightarrow> endless out \<longrightarrow> endless err \<longrightarrow>
         (\<exists>io. client_run_interactive quic_varint 0 n ?sevs out err c1 = (Some (Inr (Some (ExitStatus 0))), io, w')
            \<and> w_out (ci_stdout io) = w_out out @ [72, 105, 36] \<and> w_out (ci_stderr io) = w_out err)" by blast
  from 2 [rule_format, OF lessI endless_fresh endless_fresh, unfolded fresh_is_new append_Nil] 1 show ?thesis by blast
qed

end
