(* ===== verification/Dispatcher_Run.thy ===== *)
theory Dispatcher_Run
  imports Forward_Registry
begin

text \<open>
  The life of a session dispatcher: the steps its loop takes on the listeners as a relation, the
  invariants of every run, how a run ends, and what the end of the session releases.
\<close>

subsection \<open>Steps\<close>

text \<open>
  What one iteration of the loop can do to the listeners, whatever the peer sends and whatever
  fails. The conversation changes arbitrarily.
\<close>

inductive registry_step :: "socket_api \<Rightarrow> dispatcher \<Rightarrow> dispatcher \<Rightarrow> bool" for A where
  rs_keep: "registry_step A d (d\<lparr>dp_server := (dp_server d)\<lparr>sv_conv := c\<rparr>\<rparr>)"
| rs_leftover: "so_unix_bind A (sv_unix (dp_server d)) p = Inr () \<Longrightarrow>
    registry_step A d (d\<lparr>dp_server := (dp_server d)\<lparr>sv_conv := c, sv_unix := sv_unix (dp_server d) @ [p]\<rparr>\<rparr>)"
| rs_tcp: "bind_tcp_forward_group A (sv_tcp (dp_server d)) host bp = Inr l \<Longrightarrow>
    registry_step A d (spawn_tcp (host, tl_bound_port l) l
      (d\<lparr>dp_server := (dp_server d)\<lparr>sv_conv := c, sv_tcp := sv_tcp (dp_server d) @ tl_listeners l\<rparr>\<rparr>))"
| rs_unix: "so_unix_bind A (sv_unix (dp_server d)) p = Inr () \<Longrightarrow>
    registry_step A d (spawn_unix p
      (d\<lparr>dp_server := (dp_server d)\<lparr>sv_conv := c, sv_unix := sv_unix (dp_server d) @ [p]\<rparr>\<rparr>))"
| rs_stop: "registry_step A d (snd (stop_forward key (d\<lparr>dp_server := (dp_server d)\<lparr>sv_conv := c\<rparr>\<rparr>)))"
| rs_reap: "i \<in> fst ` set (dp_tasks d) \<Longrightarrow> registry_step A d (reap_forward i d)"

abbreviation registry_steps :: "socket_api \<Rightarrow> dispatcher \<Rightarrow> dispatcher \<Rightarrow> bool" where
  "registry_steps A \<equiv> (registry_step A)\<^sup>*\<^sup>*"

abbreviation set_conv :: "conversation_shared \<Rightarrow> dispatcher \<Rightarrow> dispatcher" where
  "set_conv c d \<equiv> d\<lparr>dp_server := (dp_server d)\<lparr>sv_conv := c\<rparr>\<rparr>"

lemma set_conv_twice [simp]: "set_conv c (set_conv c' d) = set_conv c d" by simp

lemma reply_effect:
  assumes "reply V t ok d = (r, d')"
  shows "\<exists>c. d' = set_conv c d"
  using assms
  by (auto simp: reply_def anyway_def on_shared_def on_server_def on_conv_def split: prod.splits option.splits if_splits)

lemma decode_request_effect:
  assumes "decode_request pdec d = (r, d')"
  shows "\<exists>c. d' = set_conv c d"
  using assms by (auto simp: decode_request_def split: prod.splits)

lemma stop_effect:
  assumes "reply V t ok (snd (stop_forward key (set_conv c d))) = (r, d')"
  shows "registry_step A d d'"
proof -
  have s: "set_conv c' (snd (stop_forward key (set_conv c d))) = snd (stop_forward key (set_conv c' d))" for c'
    by (auto simp: stop_forward_def stop_tcp_def stop_unix_def split: sum.splits option.splits)
  from reply_effect [OF assms] s show ?thesis by (auto intro: rs_stop)
qed

lemma accept_tcp_effect:
  assumes "accept_tcp_forward V A t req s = (Some r, s')"
  shows "\<exists>c. case r of
      Inl _ \<Rightarrow> s' = s\<lparr>sv_conv := c\<rparr>
    | Inr l \<Rightarrow> s' = s\<lparr>sv_conv := c, sv_tcp := sv_tcp s @ tl_listeners l\<rparr>
        \<and> bind_tcp_forward_group A (sv_tcp s) (canonicalize_remote_bind_host (text_of (tf_bind_address req)))
            (word_of_nat (tf_bind_port req)) = Inr l"
  using assms
  by (cases s, intro exI [of _ "sv_conv s'"])
    (auto simp: accept_tcp_forward_def Let_def anyway_def on_conv_def split: prod.splits option.splits sum.splits if_splits)

lemma accept_unix_effect:
  assumes "accept_unix_forward V A t req s = (Some r, s')"
  shows "\<exists>c. s' = s\<lparr>sv_conv := c\<rparr> \<and> (\<exists>e. r = Inl e)
    \<or> s' = s\<lparr>sv_conv := c, sv_unix := sv_unix s @ [text_of (sf_socket_path req)]\<rparr>
        \<and> so_unix_bind A (sv_unix s) (text_of (sf_socket_path req)) = Inr ()"
  using assms
  by (cases s, intro exI [of _ "sv_conv s'"])
    (auto simp: accept_unix_forward_def Let_def anyway_def on_conv_def split: prod.splits option.splits sum.splits if_splits)

lemma dispatch_tcpip_effect:
  assumes "dispatch_tcpip_forward V A t d = (Some u, d')"
  shows "registry_step A d d'"
proof -
  obtain r d1 where d1: "decode_request (dec_tcpip_forward V) d = (r, d1)" by fastforce
  from decode_request_effect [OF d1] obtain c where c: "d1 = set_conv c d" ..
  show ?thesis
  proof (cases r)
    case (Inl e)
    with assms d1 c show ?thesis by (auto simp: dispatch_tcpip_forward_def intro: rs_keep)
  next
    case (Inr req)
    let ?host = "canonicalize_remote_bind_host (text_of (tf_bind_address req))"
    obtain q s where q: "accept_tcp_forward V A t req (dp_server d1) = (Some q, s)"
      using assms d1 Inr by (auto simp: dispatch_tcpip_forward_def on_server_def Let_def split: prod.splits option.splits)
    show ?thesis
    proof (cases q)
      case (Inl e)
      with accept_tcp_effect [OF q] obtain c' where "s = (dp_server d1)\<lparr>sv_conv := c'\<rparr>" by auto
      with assms d1 Inr q Inl c show ?thesis
        by (auto simp: dispatch_tcpip_forward_def on_server_def Let_def intro: rs_keep)
    next
      case r: (Inr l)
      with accept_tcp_effect [OF q] obtain c' where c':
          "s = (dp_server d1)\<lparr>sv_conv := c', sv_tcp := sv_tcp (dp_server d1) @ tl_listeners l\<rparr>"
          "bind_tcp_forward_group A (sv_tcp (dp_server d1)) ?host (word_of_nat (tf_bind_port req)) = Inr l" by auto
      have "d' = spawn_tcp (?host, tl_bound_port l) l (d1\<lparr>dp_server := s\<rparr>)"
        using assms d1 Inr q r by (simp add: dispatch_tcpip_forward_def on_server_def Let_def)
      with rs_tcp [of A d ?host "word_of_nat (tf_bind_port req)" l c'] c' c show ?thesis by simp
    qed
  qed
qed

lemma dispatch_streamlocal_effect:
  assumes "dispatch_streamlocal_forward V A t d = (Some u, d')"
  shows "registry_step A d d'"
proof -
  obtain r d1 where d1: "decode_request (dec_streamlocal_forward V) d = (r, d1)" by fastforce
  from decode_request_effect [OF d1] obtain c where c: "d1 = set_conv c d" ..
  show ?thesis
  proof (cases r)
    case (Inl e)
    with assms d1 c show ?thesis by (auto simp: dispatch_streamlocal_forward_def intro: rs_keep)
  next
    case (Inr req)
    let ?p = "text_of (sf_socket_path req)"
    obtain q s where q: "accept_unix_forward V A t req (dp_server d1) = (Some q, s)"
      using assms d1 Inr by (auto simp: dispatch_streamlocal_forward_def on_server_def split: prod.splits option.splits)
    have d': "d' = (case q of Inl _ \<Rightarrow> d1\<lparr>dp_server := s\<rparr> | Inr _ \<Rightarrow> spawn_unix ?p (d1\<lparr>dp_server := s\<rparr>))"
      using assms d1 Inr q by (auto simp: dispatch_streamlocal_forward_def on_server_def split: sum.splits)
    from accept_unix_effect [OF q] obtain c' where
      "s = (dp_server d1)\<lparr>sv_conv := c'\<rparr> \<and> (\<exists>e. q = Inl e)
       \<or> s = (dp_server d1)\<lparr>sv_conv := c', sv_unix := sv_unix (dp_server d1) @ [?p]\<rparr>
          \<and> so_unix_bind A (sv_unix (dp_server d1)) ?p = Inr ()" by blast
    then show ?thesis
      using d' c rs_keep [of A d c'] rs_leftover [of A d ?p c'] rs_unix [of A d ?p c'] by (auto split: sum.splits)
  qed
qed

lemma dispatch_cancel_effect:
  "dispatch_cancel_tcpip_forward V t d = (Some u, d') \<Longrightarrow> registry_step A d d'"
  "dispatch_cancel_streamlocal_forward V t d = (Some u, d') \<Longrightarrow> registry_step A d d'"
proof -
  assume a: "dispatch_cancel_tcpip_forward V t d = (Some u, d')"
  obtain r d1 where d1: "decode_request (dec_cancel_tcpip_forward V) d = (r, d1)" by fastforce
  from decode_request_effect [OF d1] obtain c where c: "d1 = set_conv c d" ..
  have "stop_tcp k d1 = (found, d2) \<Longrightarrow> reply V t found d2 = (Some u, d') \<Longrightarrow> registry_step A d d'" for k found d2
    using stop_effect [of V t found "Inl k" c d "Some u" d' A] c by (simp add: stop_forward_def)
  then show "registry_step A d d'" using a d1 c reply_effect [of V t False d1 "Some u" d']
    by (auto simp: dispatch_cancel_tcpip_forward_def intro: rs_keep split: sum.splits if_splits prod.splits)
next
  assume a: "dispatch_cancel_streamlocal_forward V t d = (Some u, d')"
  obtain r d1 where d1: "decode_request (dec_cancel_streamlocal_forward V) d = (r, d1)" by fastforce
  from decode_request_effect [OF d1] obtain c where c: "d1 = set_conv c d" ..
  have "stop_unix k d1 = (found, d2) \<Longrightarrow> reply V t found d2 = (Some u, d') \<Longrightarrow> registry_step A d d'" for k found d2
    using stop_effect [of V t found "Inr k" c d "Some u" d' A] c by (simp add: stop_forward_def)
  then show "registry_step A d d'" using a d1 c
    by (auto simp: dispatch_cancel_streamlocal_forward_def intro: rs_keep split: sum.splits if_splits prod.splits)
qed

lemma dispatch_global_effect:
  assumes "dispatch_global V A incoming d = (Some u, d')"
  shows "registry_step A d d'"
  using assms dispatch_tcpip_effect [of V A _ d u d'] dispatch_streamlocal_effect [of V A _ d u d']
    dispatch_cancel_effect [of V _ d u d']
  by (auto simp: dispatch_global_def poison_conversation_def intro: rs_keep
      split: incoming_global.splits if_splits)

lemma run_step_effect:
  assumes "run_step V A config ev s = Some r"
  shows "(case r of Continue s' \<Rightarrow> registry_steps A (rs_disp s) (rs_disp s')
    | Break _ s' \<Rightarrow> rs_disp s' = rs_disp s | _ \<Rightarrow> True)"
  using assms dispatch_global_effect [of V A _ "rs_disp s" "()"]
    rs_reap [OF image_eqI [where f = fst, OF refl], of "(_, _)" "rs_disp s" A]
  by (auto simp: run_step_def on_channel_def Let_def split: run_event.splits sum.splits prod.splits option.splits
      if_splits channel_action.splits intro!: r_into_rtranclp)

text \<open>Every run of the loop is a sequence of such steps.\<close>

lemma run_loop_steps:
  assumes "run_loop V A config evs s = Some r"
  shows "(case r of Continue s' \<Rightarrow> registry_steps A (rs_disp s) (rs_disp s')
    | Break _ s' \<Rightarrow> registry_steps A (rs_disp s) (rs_disp s') | _ \<Rightarrow> True)"
  using assms
proof (induction V A config evs s rule: run_loop.induct)
  case (2 V A config ev evs s)
  then obtain q where q: "run_step V A config ev s = Some q" by (auto split: option.splits)
  note e = run_step_effect [OF q]
  show ?case
  proof (cases q)
    case (Continue s1)
    then have "run_loop V A config evs s1 = Some r" using 2(2) q by simp
    with 2(1) q Continue have "case r of Continue s' \<Rightarrow> registry_steps A (rs_disp s1) (rs_disp s')
       | Break _ s' \<Rightarrow> registry_steps A (rs_disp s1) (rs_disp s') | _ \<Rightarrow> True" by blast
    then show ?thesis using e Continue by (auto split: loop_result.splits)
  qed (use 2(2) q e in auto)
qed auto

subsection \<open>Every open socket has an owner\<close>

definition task_sockets :: "forward_task \<Rightarrow> socket_addr set" where
  "task_sockets t = (case t of TcpTask l \<Rightarrow> set (tl_listeners l) | UnixTask _ \<Rightarrow> {})"

definition task_key :: "forward_task \<Rightarrow> forward_key" where
  "task_key t = (case t of TcpTask l \<Rightarrow> Inl (tl_advertised_host l, tl_bound_port l) | UnixTask p \<Rightarrow> Inr p)"

definition sockets_of :: "(nat \<times> forward_task) list \<Rightarrow> socket_addr set" where
  "sockets_of ts = (\<Union>(i, t) \<in> set ts. task_sockets t)"

definition tasks_inv :: "dispatcher \<Rightarrow> bool" where
  "tasks_inv d \<longleftrightarrow> distinct (map fst (dp_tasks d)) \<and> (\<forall>i \<in> fst ` set (dp_tasks d). i < dp_next d)
     \<and> set (sv_tcp (dp_server d)) \<subseteq> sockets_of (dp_tasks d)"

lemma start_forward_fields:
  "dp_tasks (spawn_tcp k l d) = dp_tasks d @ [(dp_next d, TcpTask l)]" "dp_next (spawn_tcp k l d) = dp_next d + 1"
  "dp_server (spawn_tcp k l d) = dp_server d" "dp_aborted (spawn_tcp k l d) = dp_aborted d"
  "dp_tasks (spawn_unix p d) = dp_tasks d @ [(dp_next d, UnixTask p)]" "dp_next (spawn_unix p d) = dp_next d + 1"
  "dp_server (spawn_unix p d) = dp_server d" "dp_aborted (spawn_unix p d) = dp_aborted d"
  by (simp_all add: spawn_tcp_def spawn_unix_def)

lemma stop_forward_fields [simp]:
  "dp_tasks (snd (stop_forward key d)) = dp_tasks d" "dp_next (snd (stop_forward key d)) = dp_next d"
  "dp_server (snd (stop_forward key d)) = dp_server d"
  by (simp_all add: stop_forward_def stop_tcp_def stop_unix_def split: sum.splits option.splits)

lemma reap_forward_fields [simp]:
  "dp_tasks (reap_forward i d) = filter (\<lambda>(j, _). j \<noteq> i) (dp_tasks d)" "dp_next (reap_forward i d) = dp_next d"
  "dp_aborted (reap_forward i d) = dp_aborted d" "active_forwards (reap_forward i d) = active_forwards d"
proof -
  have "map_of (dp_tasks d) i = None \<Longrightarrow> filter (\<lambda>(j, _). j \<noteq> i) (dp_tasks d) = dp_tasks d"
    by (force simp: map_of_eq_None_iff filter_id_conv)
  then show "dp_tasks (reap_forward i d) = filter (\<lambda>(j, _). j \<noteq> i) (dp_tasks d)"
    by (auto simp: reap_forward_def split: option.splits)
qed (auto simp: reap_forward_def active_forwards_def fun_eq_iff split: option.splits sum.splits)

lemma reap_forward_sockets:
  "sv_tcp (dp_server (reap_forward i d)) = filter (\<lambda>a. \<forall>t. map_of (dp_tasks d) i = Some t \<longrightarrow> a \<notin> task_sockets t)
     (sv_tcp (dp_server d))"
  "sv_unix (dp_server (reap_forward i d)) = filter (\<lambda>p. map_of (dp_tasks d) i \<noteq> Some (UnixTask p))
     (sv_unix (dp_server d))"
proof -
  show "sv_tcp (dp_server (reap_forward i d)) = filter (\<lambda>a. \<forall>t. map_of (dp_tasks d) i = Some t \<longrightarrow> a \<notin> task_sockets t)
     (sv_tcp (dp_server d))"
    by (simp add: reap_forward_def task_closed_def unix_guard_drop_def task_sockets_def
        split: option.splits forward_task.splits)
  show "sv_unix (dp_server (reap_forward i d)) = filter (\<lambda>p. map_of (dp_tasks d) i \<noteq> Some (UnixTask p))
     (sv_unix (dp_server d))"
    by (auto simp: reap_forward_def task_closed_def unix_guard_drop_def removeAll_filter_not_eq
        split: option.splits forward_task.splits intro: filter_cong)
qed

lemma sockets_of_append [simp]: "sockets_of (ts @ us) = sockets_of ts \<union> sockets_of us"
  by (auto simp: sockets_of_def)

lemma sockets_of_single [simp]: "sockets_of [(i, t)] = task_sockets t" "sockets_of [] = {}"
  by (simp_all add: sockets_of_def)

lemma sockets_of_reap:
  assumes "distinct (map fst ts)"
  shows "sockets_of ts - {a. \<exists>t. map_of ts i = Some t \<and> a \<in> task_sockets t} \<subseteq> sockets_of (filter (\<lambda>(j, _). j \<noteq> i) ts)"
  using assms by (fastforce simp: sockets_of_def)

lemma reap_tasks_inv:
  assumes "tasks_inv d"
  shows "tasks_inv (reap_forward i d)"
  using assms sockets_of_reap [of "dp_tasks d" i]
  by (auto simp: tasks_inv_def reap_forward_sockets distinct_map_filter)

lemma active_forwards_server [simp]: "active_forwards (d\<lparr>dp_server := s\<rparr>) = active_forwards d"
  by (simp add: active_forwards_def fun_eq_iff split: sum.splits)

lemma registry_inv_server [simp]: "registry_inv (d\<lparr>dp_server := s\<rparr>) = registry_inv d"
  by (simp add: registry_inv_def)

lemma registry_step_invs:
  assumes "registry_step A d d'" "registry_inv d" "tasks_inv d"
  shows "registry_inv d' \<and> tasks_inv d'"
  using assms
proof (induction rule: registry_step.induct)
  case (rs_tcp d host bp l c)
  let ?d = "d\<lparr>dp_server := (dp_server d)\<lparr>sv_conv := c, sv_tcp := sv_tcp (dp_server d) @ tl_listeners l\<rparr>\<rparr>"
  have "registry_inv ?d" using rs_tcp(2) by simp
  from registry_inv_ops(1) [OF this, of "Inl (host, tl_bound_port l)" l] show ?case using rs_tcp(3)
    by (auto simp: start_forward_def tasks_inv_def start_forward_fields task_sockets_def)
next
  case (rs_unix d p c)
  let ?d = "d\<lparr>dp_server := (dp_server d)\<lparr>sv_conv := c, sv_unix := sv_unix (dp_server d) @ [p]\<rparr>\<rparr>"
  have "registry_inv ?d" using rs_unix(2) by simp
  from registry_inv_ops(1) [OF this, of "Inr p"] show ?case using rs_unix(3)
    by (auto simp: start_forward_def tasks_inv_def start_forward_fields task_sockets_def)
next
  case (rs_stop d key c)
  have "registry_inv (set_conv c d)" using rs_stop(1) by simp
  from registry_inv_ops(2) [OF this] show ?case using rs_stop(2) by (simp add: tasks_inv_def)
next
  case (rs_reap i d)
  then show ?case using reap_tasks_inv by (simp add: registry_inv_def)
qed (simp_all add: tasks_inv_def)

lemma registry_steps_invs:
  assumes "registry_steps A d d'" "registry_inv d" "tasks_inv d"
  shows "registry_inv d' \<and> tasks_inv d'"
  using assms by (induction rule: rtranclp_induct) (use registry_step_invs in blast)+

definition state_after :: "loop_result \<Rightarrow> run_state option" where
  "state_after r = (case r of Continue s \<Rightarrow> Some s | Break _ s \<Rightarrow> Some s | _ \<Rightarrow> None)"

lemma run_loop_state:
  assumes "run_loop V A config evs s = Some r" "state_after r = Some s'"
  shows "registry_steps A (rs_disp s) (rs_disp s')"
  using run_loop_steps [OF assms(1)] assms(2) by (auto simp: state_after_def split: loop_result.splits)

text \<open>
  C8: listeners stay accounted for. Whatever the peer sends, whatever binding and answering do,
  and however tasks end, after any run of the loop every open TCP socket belongs to a running
  listener task, task numbers are unique and fresh, no two addresses share a task, and no aborted
  task is registered or aborted twice.
\<close>

theorem run_keeps_registry:
  assumes "registry_inv (rs_disp s)" "tasks_inv (rs_disp s)"
    and "run_loop V A config evs s = Some r" "state_after r = Some s'"
  shows "registry_inv (rs_disp s') \<and> tasks_inv (rs_disp s')"
  using registry_steps_invs [OF run_loop_state [OF assms(3,4)] assms(1,2)] .

lemma run_start_invs:
  assumes "sv_tcp srv = []"
  shows "registry_inv (rs_disp (run_start srv))" "tasks_inv (rs_disp (run_start srv))"
proof -
  have "active_forwards (rs_disp (run_start srv)) = Map.empty"
    by (simp add: run_start_def active_forwards_def fun_eq_iff split: sum.splits)
  then show "registry_inv (rs_disp (run_start srv))" by (simp add: registry_inv_def run_start_def)
  show "tasks_inv (rs_disp (run_start srv))" using assms by (simp add: tasks_inv_def run_start_def)
qed

definition one_listener :: run_state where
  "one_listener = (let s = run_start (idle_server []) in s\<lparr>rs_disp := (rs_disp s)\<lparr>dp_unix := [''/run/x'' \<mapsto> 0],
     dp_tasks := [(0, UnixTask ''/run/x'')], dp_next := 1\<rparr>\<rparr>)"

lemma one_listener_invs: "registry_inv (rs_disp one_listener)" "tasks_inv (rs_disp one_listener)"
proof -
  have "active_forwards (rs_disp one_listener) = [Inr ''/run/x'' \<mapsto> 0]"
    by (simp add: one_listener_def idle_dispatcher_def active_forwards_def fun_eq_iff Let_def split: sum.splits)
  then show "registry_inv (rs_disp one_listener)"
    by (simp add: registry_inv_def one_listener_def idle_dispatcher_def Let_def)
  show "tasks_inv (rs_disp one_listener)"
    by (simp add: tasks_inv_def one_listener_def idle_dispatcher_def quiet_server_def Let_def)
qed

theorem run_keeps_registry_witness:
  "\<exists>s'. run_loop quic_varint any_socket session_config_default
       [GlobalResult (Inr (IG_Notify (lit ''x''))), ForwardJoin 0, (ShutdownToken :: unit run_event)] one_listener
     = Some (Break Shutdown s') \<and> registry_inv (rs_disp s') \<and> tasks_inv (rs_disp s')"
proof -
  let ?evs = "[GlobalResult (Inr (IG_Notify (lit ''x''))), ForwardJoin 0, (ShutdownToken :: unit run_event)]"
  obtain s' where r: "run_loop quic_varint any_socket session_config_default ?evs one_listener = Some (Break Shutdown s')"
    by (simp add: run_step_def dispatch_global_def poison_conversation_def one_listener_def Let_def idle_dispatcher_def)
  have "state_after (Break Shutdown s') = Some s'" by (simp add: state_after_def)
  from run_keeps_registry [OF one_listener_invs r this] r show ?thesis by blast
qed

subsection \<open>How the loop ends\<close>

definition session_event :: "'me run_event \<Rightarrow> bool" where
  "session_event ev = (case ev of ChannelResult (Inr c) \<Rightarrow> ic_channel_type c = lit ''session'' | _ \<Rightarrow> False)"

definition spent_by :: "varint_api \<Rightarrow> session_config \<Rightarrow> 'me run_event \<Rightarrow> bool" where
  "spent_by V config ev = (case ev of
     ChannelResult (Inr c) \<Rightarrow> (case dispatch_channel V config c of AcceptFailed _ \<Rightarrow> True | _ \<Rightarrow> False) | _ \<Rightarrow> False)"

definition closing_event :: "'me run_event \<Rightarrow> bool" where
  "closing_event ev = (case ev of ChannelResult (Inl _) \<Rightarrow> True | GlobalResult (Inl _) \<Rightarrow> True | _ \<Rightarrow> False)"

definition failed_join :: "process_error \<Rightarrow> 'me run_event \<Rightarrow> bool" where
  "failed_join e ev = (\<exists>i. ev = ChannelJoin i (Some (Inl e)))"

text \<open>The session is not over: none was opened, or some channel task is still running.\<close>

definition unfinished :: "run_state \<Rightarrow> bool" where
  "unfinished s \<longleftrightarrow> (rs_had_session s \<longrightarrow> rs_channels s \<noteq> [])"

text \<open>\<open>loop_end\<close>: what the observations say about how the loop ended.\<close>

definition loop_end ::
    "varint_api \<Rightarrow> session_config \<Rightarrow> bool \<Rightarrow> bool \<Rightarrow> 'me run_event list \<Rightarrow> loop_result \<Rightarrow> bool" where
  "loop_end V config had spent evs r = (case r of
       Break ConversationClosed s \<Rightarrow> unfinished s \<and> (\<exists>ev \<in> set evs. closing_event ev)
     | Break SessionFinished s \<Rightarrow> rs_channels s = [] \<and> (had \<or> (\<exists>ev \<in> set evs. session_event ev))
     | Break Shutdown s \<Rightarrow> unfinished s \<and> ShutdownToken \<in> set evs
     | Return e \<Rightarrow> \<exists>ev \<in> set evs. failed_join e ev
     | Panic \<Rightarrow> spent \<or> (\<exists>ev \<in> set evs. spent_by V config ev)
     | Continue s \<Rightarrow> unfinished s \<and> (rs_had_session s \<longleftrightarrow> had \<or> (\<exists>ev \<in> set evs. session_event ev))
         \<and> (rs_accept_spent s \<longleftrightarrow> spent \<or> (\<exists>ev \<in> set evs. spent_by V config ev))
         \<and> ShutdownToken \<notin> set evs \<and> \<not> (\<exists>ev \<in> set evs. closing_event ev))"

lemmas event_defs = session_event_def spent_by_def closing_event_def failed_join_def

lemma dispatch_channel_types:
  "dispatch_channel V config c = AcceptFailed c' \<Longrightarrow> ic_channel_type c \<noteq> lit ''session''"
  "dispatch_channel V config c = Rejected c' \<Longrightarrow> ic_channel_type c \<noteq> lit ''session''"
  "dispatch_channel V config c = Spawn t \<Longrightarrow> is_session t \<longleftrightarrow> ic_channel_type c = lit ''session''"
  by (auto simp: dispatch_channel_def Let_def is_session_def split: if_splits sum.splits prod.splits)

lemma on_channel_unfinished: "unfinished s \<Longrightarrow> unfinished (on_channel V config c s)"
  by (auto simp: unfinished_def on_channel_def Let_def split: channel_action.splits)

lemma run_step_end:
  assumes "run_step V A config ev s = Some r" "unfinished s"
  shows "loop_end V config (rs_had_session s) (rs_accept_spent s) [ev] r"
proof -
  have "unfinished s'" if "r = Continue s'" for s'
    using assms that on_channel_unfinished [OF assms(2)]
    by (auto simp: run_step_def unfinished_def Let_def
        split: run_event.splits sum.splits prod.splits option.splits if_splits)
  then show ?thesis
    using assms
    by (auto simp: run_step_def on_channel_def Let_def loop_end_def event_defs dispatch_channel_types
        dest: dispatch_channel_types
        split: run_event.splits sum.splits prod.splits option.splits if_splits channel_action.splits)
qed

lemma loop_end_cons:
  assumes "loop_end V config had spent [ev] (Continue s)"
    and "loop_end V config (rs_had_session s) (rs_accept_spent s) evs r"
  shows "loop_end V config had spent (ev # evs) r"
  using assms by (auto simp: loop_end_def split: loop_result.splits run_session_outcome.splits)

lemma run_loop_end:
  assumes "run_loop V A config evs s = Some r" "unfinished s"
  shows "loop_end V config (rs_had_session s) (rs_accept_spent s) evs r"
  using assms
proof (induction V A config evs s rule: run_loop.induct)
  case (2 V A config ev evs s)
  then obtain q where q: "run_step V A config ev s = Some q" by (auto split: option.splits)
  note e = run_step_end [OF q 2(3)]
  show ?case
  proof (cases q)
    case (Continue s1)
    then have "run_loop V A config evs s1 = Some r" "unfinished s1" using 2(2) q e by (simp_all add: loop_end_def)
    with 2(1) q Continue loop_end_cons e show ?thesis by blast
  qed (use 2(2) q e in \<open>auto simp: loop_end_def split: run_session_outcome.splits\<close>)
qed (auto simp: loop_end_def)

text \<open>
  C10: a session ends for the reason it reports. The loop reports a finished session only when some
  session channel was opened and no channel task is left; a shutdown only when it was requested; a
  closed conversation only when accepting a channel or a request failed and the session was not
  finished, which means that no session channel was opened or some channel task was still
  running (others may have completed). It fails only with the error of a channel task, and panics
  only after accepting a \<open>socks5\<close> channel failed. While it goes on, none of these has happened.
\<close>

theorem session_outcome_justified:
  assumes "run_loop V A config evs (run_start srv) = Some r"
  shows "loop_end V config False False evs r"
  using run_loop_end [OF assms] by (simp add: run_start_def unfinished_def)

theorem session_outcome_justified_witness:
  "\<exists>s. run_loop quic_varint any_socket session_config_default [ForwardJoin 0 :: unit run_event] (run_start quiet_server) = None
   \<and> run_loop quic_varint any_socket session_config_default [ChannelPoll, ShutdownToken :: unit run_event] (run_start quiet_server)
      = Some (Break Shutdown s)
   \<and> loop_end quic_varint session_config_default False False [ChannelPoll, ShutdownToken :: unit run_event] (Break Shutdown s)"
proof -
  have r: "run_loop quic_varint any_socket session_config_default [ChannelPoll, ShutdownToken :: unit run_event] (run_start quiet_server)
      = Some (Break Shutdown (run_start quiet_server))" by (simp add: run_step_def run_start_def)
  from session_outcome_justified [OF r] r show ?thesis
    by (auto simp: run_step_def run_start_def)
qed

text \<open>
  Two sessions, of which the first has completed when the conversation closes: the outcome is a
  closed conversation, although a session channel completed.
\<close>

theorem closed_after_a_session_completed:
  assumes "ic_channel_type c = lit ''session''" "ic_channel_type c' = lit ''session''"
  shows "\<exists>s. run_loop V A config [ChannelResult (Inr c), ChannelResult (Inr c'),
       ChannelJoin 0 (Some (Inr ())), ChannelResult (Inl err)] (run_start srv) = Some (Break ConversationClosed s)"
  using assms by (simp add: run_step_def on_channel_def dispatch_channel_def run_start_def is_session_def Let_def)

text \<open>
  After a \<open>socks5\<close> channel could not be accepted, the accept future is not replaced, and the next
  poll of it panics.
\<close>

theorem failed_socks5_accept_panics:
  assumes "dispatch_channel V config c = AcceptFailed c'" "\<not> rs_accept_spent s"
  shows "run_loop V A config [ChannelResult (Inr c), ChannelPoll] s = Some Panic"
  using assms by (simp add: run_step_def on_channel_def)

subsection \<open>The end of a session\<close>

text \<open>
  What an operating system promises: no address is bound while a socket listens on it, and no
  socket file is created where one exists.
\<close>

definition exclusive_binds :: "socket_api \<Rightarrow> bool" where
  "exclusive_binds A \<longleftrightarrow> socket_laws A
     \<and> (\<forall>opened a b. so_bind A opened a = Inr b \<longrightarrow> b \<notin> set opened)
     \<and> (\<forall>files p. so_unix_bind A files p = Inr () \<longrightarrow> p \<notin> set files)"

lemma set_port_own: "same_ip a b \<Longrightarrow> b = set_port (sock_port b) a"
  by (cases a; cases b) (auto simp: same_ip_def)

lemma bind_tcp_socket_fresh:
  assumes "exclusive_binds A" "bind_tcp_socket A opened a = Inr l"
  shows "l \<notin> set opened"
  using assms by (auto simp: exclusive_binds_def bind_tcp_socket_def andE_Inr split: socket_addr.splits)

lemma bind_group_fresh:
  assumes "exclusive_binds A" "bind_group_loop A opened bp cs ls lp = Inr (ls', lp')"
  shows "set ls \<subseteq> set ls' \<and> set ls' \<inter> set opened \<subseteq> set ls"
  using assms(2)
proof (induction cs arbitrary: ls lp)
  case (Cons c cs)
  let ?b = "bind_tcp_socket A (opened @ ls) (set_port (case lp of Some p \<Rightarrow> p | None \<Rightarrow> bp) c)"
  show ?case
  proof (cases ?b)
    case (Inl e)
    with Cons.prems have "bind_group_loop A opened bp cs ls lp = Inr (ls', lp')"
      by (auto simp: Let_def split: if_splits)
    then show ?thesis by (rule Cons.IH)
  next
    case (Inr l)
    then obtain lp2 where "bind_group_loop A opened bp cs (ls @ [l]) lp2 = Inr (ls', lp')"
      using Cons.prems by (auto simp: Let_def split: option.splits sum.splits)
    from Cons.IH [OF this] bind_tcp_socket_fresh [OF assms(1) Inr] show ?thesis by auto
  qed
qed simp

text \<open>The first address of a group: it is the same for equal hosts and ports.\<close>

definition anchor :: "socket_api \<Rightarrow> string \<Rightarrow> 16 word \<Rightarrow> socket_addr" where
  "anchor A host port = set_port port (case resolve_bind_candidates A host of Inr (c # _) \<Rightarrow> c)"

lemma bind_group_anchor:
  assumes "exclusive_binds A" "bind_tcp_forward_group A opened host bp = Inr l"
  shows "tl_advertised_host l = host \<and> anchor A host (tl_bound_port l) \<in> set (tl_listeners l)
    \<and> set (tl_listeners l) \<inter> set opened = {}"
proof -
  have laws: "socket_laws A" using assms(1) by (simp add: exclusive_binds_def)
  from assms(2) obtain cs ls p where c: "resolve_bind_candidates A host = Inr cs"
      "bind_group_loop A opened bp cs [] None = Inr (ls, Some p)"
      "l = \<lparr>tl_advertised_host = host, tl_bound_port = p, tl_listeners = ls\<rparr>"
    by (auto simp: bind_tcp_forward_group_def andE_Inr split: option.splits)
  then obtain c0 ds where cs: "cs = c0 # ds" by (cases cs) auto
  then obtain l0 where l0: "bind_tcp_socket A opened (set_port bp c0) = Inr l0"
    using c(2) by (auto simp: Let_def split: sum.splits)
  then obtain b where b: "so_local_addr A l0 = Inr b" "bind_group_loop A opened bp ds [l0] (Some (sock_port b)) = Inr (ls, Some p)"
    using c(2) cs by (auto simp: Let_def split: sum.splits)
  have "b = l0" using laws b(1) by (auto simp: socket_laws_def)
  moreover note bind_tcp_socket_law [OF laws l0]
  ultimately have "sock_port l0 = p" using bind_more [OF laws _ b(2)] by auto
  then have "l0 = anchor A host p"
    using set_port_own [of c0 l0] bind_tcp_socket_law [OF laws l0] c(1) cs by (simp add: anchor_def)
  moreover have "l0 \<in> set ls" using bind_group_fresh [OF assms(1) b(2)] by simp
  moreover have "set ls \<inter> set opened = {}" using bind_group_fresh [OF assms(1) c(2)] by auto
  ultimately show ?thesis using c(3) by simp
qed

text \<open>What a task holds, what is open, and what tells two keys apart.\<close>

definition task_resources :: "forward_task \<Rightarrow> (socket_addr + string) set" where
  "task_resources t = (case t of TcpTask l \<Rightarrow> Inl ` set (tl_listeners l) | UnixTask p \<Rightarrow> {Inr p})"

definition open_resources :: "dispatcher \<Rightarrow> (socket_addr + string) set" where
  "open_resources d = Inl ` set (sv_tcp (dp_server d)) \<union> Inr ` set (sv_unix (dp_server d))"

definition key_anchor :: "socket_api \<Rightarrow> forward_key \<Rightarrow> socket_addr + string" where
  "key_anchor A key = (case key of Inl (host, port) \<Rightarrow> Inl (anchor A host port) | Inr p \<Rightarrow> Inr p)"

text \<open>Every running task holds its resources alone, and is registered or aborted.\<close>

definition holds_inv :: "socket_api \<Rightarrow> dispatcher \<Rightarrow> bool" where
  "holds_inv A d \<longleftrightarrow>
     (\<forall>(i, t) \<in> set (dp_tasks d). key_anchor A (task_key t) \<in> task_resources t \<and> task_resources t \<subseteq> open_resources d
        \<and> (i \<in> set (dp_aborted d) \<or> active_forwards d (task_key t) = Some i))
     \<and> (\<forall>(i, t) \<in> set (dp_tasks d). \<forall>(j, u) \<in> set (dp_tasks d). i \<noteq> j \<longrightarrow> task_resources t \<inter> task_resources u = {})"

lemma holds_start:
  assumes "holds_inv A d" "started (task_key t) t d d'" "key_anchor A (task_key t) \<in> task_resources t"
    and "task_resources t \<inter> open_resources d = {}" "open_resources d' = open_resources d \<union> task_resources t"
  shows "holds_inv A d'"
proof -
  have other: "task_key u \<noteq> task_key t \<and> task_resources u \<inter> task_resources t = {}" if "(i, u) \<in> set (dp_tasks d)" for i u
  proof -
    have "key_anchor A (task_key u) \<in> open_resources d" "task_resources u \<subseteq> open_resources d"
      using assms(1) that by (auto simp: holds_inv_def)
    then show ?thesis using assms(3,4) by (auto simp: disjoint_iff)
  qed
  have tasks: "set (dp_tasks d') = insert (dp_next d, t) (set (dp_tasks d))"
    and rest: "dp_aborted d' = dp_aborted d" "active_forwards d' = (active_forwards d)(task_key t \<mapsto> dp_next d)"
    using assms(2) by (auto simp: started_def)
  have "key_anchor A (task_key u) \<in> task_resources u \<and> task_resources u \<subseteq> open_resources d'
      \<and> (i \<in> set (dp_aborted d') \<or> active_forwards d' (task_key u) = Some i)" if "(i, u) \<in> set (dp_tasks d')" for i u
    using that assms(1,3,5) other rest unfolding tasks holds_inv_def by auto
  moreover have "task_resources u \<inter> task_resources v = {}"
    if "(i, u) \<in> set (dp_tasks d')" "(j, v) \<in> set (dp_tasks d')" "i \<noteq> j" for i j u v
    using that assms(1) other unfolding tasks holds_inv_def by fast
  ultimately show ?thesis unfolding holds_inv_def by blast
qed

lemma holds_stop:
  assumes "holds_inv A d"
  shows "holds_inv A (snd (stop_forward key d))"
proof -
  have "open_resources (snd (stop_forward key d)) = open_resources d" by (simp add: open_resources_def)
  then show ?thesis
    using assms by (fastforce simp: holds_inv_def fw.stop_active fw.stop_aborted split: option.splits if_splits)
qed

lemma reap_resources:
  "open_resources (reap_forward i d) = open_resources d - {x. \<exists>t. map_of (dp_tasks d) i = Some t \<and> x \<in> task_resources t}"
proof (cases "map_of (dp_tasks d) i")
  case (Some t)
  then show ?thesis
    by (cases t) (auto simp: open_resources_def reap_forward_sockets task_resources_def task_sockets_def)
qed (simp add: open_resources_def reap_forward_sockets)

lemma holds_reap:
  assumes "holds_inv A d"
  shows "holds_inv A (reap_forward i d)"
proof -
  have "task_resources u \<subseteq> open_resources (reap_forward i d)" if "(j, u) \<in> set (dp_tasks d)" "j \<noteq> i" for j u
    using that assms by (fastforce simp: reap_resources holds_inv_def dest: map_of_SomeD)
  then show ?thesis using assms unfolding holds_inv_def by fastforce
qed

lemma holds_grow:
  assumes "holds_inv A d" "open_resources d \<subseteq> open_resources (d\<lparr>dp_server := s\<rparr>)"
  shows "holds_inv A (d\<lparr>dp_server := s\<rparr>)"
  using assms by (fastforce simp: holds_inv_def)

lemma registry_step_holds:
  assumes "registry_step A d d'" "exclusive_binds A" "holds_inv A d"
  shows "holds_inv A d'"
  using assms
proof (induction rule: registry_step.induct)
  case (rs_tcp d host bp l c)
  have a: "tl_advertised_host l = host" "anchor A host (tl_bound_port l) \<in> set (tl_listeners l)"
      "set (tl_listeners l) \<inter> set (sv_tcp (dp_server d)) = {}"
    using bind_group_anchor [OF rs_tcp(2,1)] by auto
  show ?case
    by (rule holds_start [OF rs_tcp(3), of "TcpTask l"])
      (use a started_spawn(1) in \<open>auto simp: task_key_def key_anchor_def task_resources_def open_resources_def
          start_forward_fields\<close>)
next
  case (rs_unix d p c)
  then have "p \<notin> set (sv_unix (dp_server d))" by (auto simp: exclusive_binds_def)
  then show ?case
    by (intro holds_start [OF rs_unix(3), of "UnixTask p"])
      (use started_spawn(2) in \<open>auto simp: task_key_def key_anchor_def task_resources_def open_resources_def
          start_forward_fields\<close>)
next
  case (rs_stop d key c)
  then show ?case by (intro holds_stop holds_grow) (auto simp: open_resources_def)
next
  case (rs_reap i d)
  then show ?case by (intro holds_reap)
qed (auto intro!: holds_grow simp: open_resources_def)

lemma registry_steps_holds:
  assumes "registry_steps A d d'" "exclusive_binds A" "holds_inv A d"
  shows "holds_inv A d'"
  using assms by (induction rule: rtranclp_induct) (use registry_step_holds in blast)+

lemma fold_reap_fields:
  "dp_tasks (fold (\<lambda>(i, _). reap_forward i) ts d) = filter (\<lambda>(j, _). j \<notin> fst ` set ts) (dp_tasks d)"
  "active_forwards (fold (\<lambda>(i, _). reap_forward i) ts d) = active_forwards d"
  "tasks_inv d \<Longrightarrow> tasks_inv (fold (\<lambda>(i, _). reap_forward i) ts d)"
  by (induction ts arbitrary: d) (auto simp: reap_tasks_inv intro: filter_cong)

lemma fold_reap_resources:
  assumes "distinct (map fst (dp_tasks d))" "set ts \<subseteq> set (dp_tasks d)" "distinct (map fst ts)"
  shows "open_resources (fold (\<lambda>(i, _). reap_forward i) ts d) = open_resources d - (\<Union>(i, t) \<in> set ts. task_resources t)"
  using assms
proof (induction ts arbitrary: d)
  case (Cons a ts)
  obtain i t where a: "a = (i, t)" by (cases a)
  then have m: "map_of (dp_tasks d) i = Some t" using Cons.prems by simp
  have "set ts \<subseteq> set (dp_tasks (reap_forward i d))" using Cons.prems a by (auto simp: rev_image_eqI)
  with Cons show ?case by (simp add: a m reap_resources distinct_map_filter Diff_eq) blast
qed simp

lemma abort_registered_fields [simp]:
  "dp_tasks (abort_registered d) = dp_tasks d" "dp_server (abort_registered d) = dp_server d"
  "dp_next (abort_registered d) = dp_next d" "active_forwards (abort_registered d) = Map.empty"
  by (auto simp: abort_registered_def active_forwards_def fun_eq_iff split: sum.splits)

lemma abort_registered_joins:
  assumes "holds_inv A d"
  shows "joins_forwards E (abort_registered d)"
proof -
  have "i \<in> ran (dp_tcp d) \<or> i \<in> ran (dp_unix d)" if "active_forwards d key = Some i" for i key
    using that by (auto simp: active_forwards_def ran_def split: sum.splits)
  then have "i \<in> set (dp_aborted d) \<or> i \<in> ran (dp_tcp d) \<or> i \<in> ran (dp_unix d)" if "(i, t) \<in> set (dp_tasks d)" for i t
    using that assms unfolding holds_inv_def by blast
  then show ?thesis by (force simp: joins_forwards_def abort_registered_def)
qed

lemma finish_run_releases:
  assumes "tasks_inv (rs_disp s)" "holds_inv A (rs_disp s)" "join_channels results = Inr ()"
    and "joins_relays relays"
  shows "\<exists>d. finish_run results E relays outcome s = (Some (Inr outcome), d) \<and> dp_tasks d = [] \<and> active_forwards d = Map.empty
    \<and> sv_tcp (dp_server d) = [] \<and> (\<forall>(i, t) \<in> set (dp_tasks (rs_disp s)). task_resources t \<inter> open_resources d = {})"
proof -
  let ?a = "abort_registered (rs_disp s)"
  let ?d = "fold (\<lambda>(i, _). reap_forward i) (dp_tasks ?a) ?a"
  have dist: "distinct (map fst (dp_tasks (rs_disp s)))" using assms(1) by (simp add: tasks_inv_def)
  have "tasks_inv ?a" using assms(1) by (simp add: tasks_inv_def)
  then have "tasks_inv ?d" by (rule fold_reap_fields(3))
  moreover have none: "dp_tasks ?d = []" by (force simp: fold_reap_fields(1) filter_empty_conv)
  ultimately have "sv_tcp (dp_server ?d) = []" by (simp add: tasks_inv_def)
  moreover have "open_resources ?d = open_resources ?a - (\<Union>(i, t) \<in> set (dp_tasks ?a). task_resources t)"
    using fold_reap_resources [of ?a "dp_tasks ?a"] dist by simp
  moreover have "finish_run results E relays outcome s = (Some (Inr outcome), ?d)"
    using abort_registered_joins [OF assms(2), of E] assms(3,4) by (simp add: finish_run_def Let_def)
  ultimately show ?thesis using none fold_reap_fields(2) [of "dp_tasks ?a" ?a] by fastforce
qed

text \<open>
  C4: the end of a session. On a host where an address or socket file in use is not bound again, a
  session whose loop has ended, whose channel tasks end without error and whose peer has answered,
  or will answer, each channel the server is opening for a connection always returns, with the
  outcome of the loop, whatever was requested, cancelled or failed before: no listener task is left
  running or registered, no TCP socket stays open, and the socket file of every listener task is
  removed. (The file of a request whose success response failed has no listener and is not removed:
  \<open>unix_socket_file_left_behind\<close>.)
\<close>

theorem session_end_releases:
  assumes "exclusive_binds A" "sv_tcp srv = []"
    and "run_loop V A config evs (run_start srv) = Some (Break outcome s)" "join_channels results = Inr ()"
    and "joins_relays relays"
  shows "run_session V A config False evs results E relays srv = Some (Inr outcome)
    \<and> (\<exists>d. finish_run results E relays outcome s = (Some (Inr outcome), d) \<and> dp_tasks d = [] \<and> active_forwards d = Map.empty
        \<and> sv_tcp (dp_server d) = [] \<and> (\<forall>(i, t) \<in> set (dp_tasks (rs_disp s)). task_resources t \<inter> open_resources d = {}))"
proof -
  have "state_after (Break outcome s) = Some s" by (simp add: state_after_def)
  from run_loop_state [OF assms(3) this] have steps: "registry_steps A (rs_disp (run_start srv)) (rs_disp s)" .
  have "holds_inv A (rs_disp (run_start srv))" by (simp add: holds_inv_def run_start_def)
  from finish_run_releases [OF _ registry_steps_holds [OF steps assms(1) this] assms(4,5), of E outcome]
    registry_steps_invs [OF steps run_start_invs [OF assms(2)]]
  show ?thesis using assms(3) by (fastforce simp: run_session_def)
qed

text \<open>A host that refuses what is in use.\<close>

definition strict_socket :: socket_api where
  "strict_socket = any_socket\<lparr>
     so_bind := \<lambda>opened a. let b = if sock_port a = 0 then set_port 4000 a else a in
       if b \<in> set opened then Inl AddrInUse else Inr b,
     so_unix_bind := \<lambda>files p. if p \<in> set files then Inl AddrInUse else Inr ()\<rparr>"

lemma strict_socket_exclusive: "exclusive_binds strict_socket"
  unfolding exclusive_binds_def socket_laws_def strict_socket_def any_socket_def
  by (auto simp: same_ip_def Let_def split: if_splits)

definition run_x :: streamlocal_forward_request where
  "run_x = \<lparr>sf_socket_path = lit ''/run/x''\<rparr>"

lemma streamlocal_starts:
  assumes "our_turn 0 (dp_conv d)" "in_stream (dp_conv d) = rd (img_streamlocal_forward quic_varint run_x @ []) None"
    and "so_unix_bind A (sv_unix (dp_server d)) ''/run/x'' = Inr ()"
  shows "\<exists>s. dispatch_streamlocal_forward quic_varint A 0 d = (Some (), spawn_unix ''/run/x'' (d\<lparr>dp_server := s\<rparr>))"
proof -
  have "valid_ssh_string (lit ''/run/x'')"
    by (simp add: valid_ssh_string_def utf8_valid_lit ascii_def byte_of_def MAX_REMOTE_FIELD_SIZE_def)
  then have v: "valid_streamlocal_forward run_x" by (simp add: valid_streamlocal_forward_def run_x_def)
  obtain c where c: "decode_request (dec_streamlocal_forward quic_varint) d
      = (Inr run_x, d\<lparr>dp_server := (dp_server d)\<lparr>sv_conv := c\<rparr>\<rparr>)" "our_turn 0 c"
    using quic.decode_forward_request [where pdec = "dec_streamlocal_forward quic_varint", OF assms(2) _ assms(1)]
      quic.forward_dec_img(6) [OF v] by fastforce
  let ?s = "(dp_server d)\<lparr>sv_conv := c\<rparr>"
  have path: "text_of (sf_socket_path run_x) = ''/run/x''" by (simp add: run_x_def ascii_def)
  with accept_unix_run [of 0 ?s quic_varint A run_x] c(2) assms(3) obtain r s' where
    r: "accept_unix_forward quic_varint A 0 run_x ?s = (Some r, s')" "is_ok r" by auto
  then show ?thesis
    using c(1) path by (cases r) (auto simp: dispatch_streamlocal_forward_def on_server_def)
qed

theorem session_end_releases_witness:
  "\<exists>s d. run_loop quic_varint strict_socket session_config_default
       [GlobalResult (Inr (IG_Request (lit ''streamlocal-forward@openssh.com'') 0)), ShutdownToken :: unit run_event]
       (run_start (idle_server (img_streamlocal_forward quic_varint run_x))) = Some (Break Shutdown s)
     \<and> dp_tasks (rs_disp s) = [(0, UnixTask ''/run/x'')]
     \<and> finish_run [Some (Inr ())] {} [RelayMoving, RelayOpening True] Shutdown s = (Some (Inr Shutdown), d) \<and> Inr ''/run/x'' \<notin> open_resources d"
proof -
  let ?srv = "idle_server (img_streamlocal_forward quic_varint run_x)"
  let ?evs = "[GlobalResult (Inr (IG_Request (lit ''streamlocal-forward@openssh.com'') 0)), ShutdownToken :: unit run_event]"
  let ?d = "rs_disp (run_start ?srv)"
  have bind: "so_unix_bind strict_socket (sv_unix (dp_server ?d)) ''/run/x'' = Inr ()"
    by (simp add: strict_socket_def run_start_def idle_server_def quiet_server_def)
  obtain s' where s': "dispatch_streamlocal_forward quic_varint strict_socket 0 ?d
      = (Some (), spawn_unix ''/run/x'' (?d\<lparr>dp_server := s'\<rparr>))"
    using streamlocal_starts [OF idle_turn(1) _ bind] idle_turn(2) by auto
  define s where "s = (run_start ?srv)\<lparr>rs_disp := spawn_unix ''/run/x'' (?d\<lparr>dp_server := s'\<rparr>)\<rparr>"
  have "dispatch_global quic_varint strict_socket (IG_Request (lit ''streamlocal-forward@openssh.com'') 0) ?d
      = (Some (), rs_disp s)" using s' by (simp add: dispatch_global_def s_def)
  then have r: "run_loop quic_varint strict_socket session_config_default ?evs (run_start ?srv) = Some (Break Shutdown s)"
    by (simp add: run_step_def s_def)
  have t: "dp_tasks (rs_disp s) = [(0, UnixTask ''/run/x'')]" by (simp add: s_def run_start_def spawn_unix_def)
  have h: "sv_tcp ?srv = []" "join_channels [Some (Inr ())] = Inr ()" "joins_relays [RelayMoving, RelayOpening True]"
    by (simp_all add: idle_server_def quiet_server_def joins_relays_def)
  from session_end_releases [OF strict_socket_exclusive h(1) r h(2,3), of "{}"] r t show ?thesis
    by (fastforce simp: task_resources_def)
qed

text \<open>
  Without that promise a listener can leak. When the socket file of a registered path has been
  removed and the path is requested again, the new task replaces the old one in the registry
  without stopping it: the old task is never aborted, and the end of the session waits for it
  forever.
\<close>

theorem replaced_listener_blocks_the_end:
  "\<exists>d. dispatch_streamlocal_forward quic_varint any_socket 0
       ((idle_dispatcher (img_streamlocal_forward quic_varint run_x))
         \<lparr>dp_unix := [''/run/x'' \<mapsto> 0], dp_tasks := [(0, UnixTask ''/run/x'')], dp_next := 1\<rparr>) = (Some (), d)
     \<and> dp_unix d = [''/run/x'' \<mapsto> 1] \<and> map fst (dp_tasks d) = [0, 1] \<and> dp_aborted d = []
     \<and> fst (finish_run [] {} [] Shutdown ((run_start quiet_server)\<lparr>rs_disp := d\<rparr>)) = None"
proof -
  let ?d = "(idle_dispatcher (img_streamlocal_forward quic_varint run_x))
    \<lparr>dp_unix := [''/run/x'' \<mapsto> 0], dp_tasks := [(0, UnixTask ''/run/x'')], dp_next := 1\<rparr>"
  have t: "our_turn 0 (dp_conv ?d)" "in_stream (dp_conv ?d) = rd (img_streamlocal_forward quic_varint run_x @ []) None"
    using idle_turn [of "img_streamlocal_forward quic_varint run_x"] by simp_all
  have "so_unix_bind any_socket (sv_unix (dp_server ?d)) ''/run/x'' = Inr ()" by (simp add: any_socket_def)
  from streamlocal_starts [OF t this] obtain s' where
    run: "dispatch_streamlocal_forward quic_varint any_socket 0 ?d = (Some (), spawn_unix ''/run/x'' (?d\<lparr>dp_server := s'\<rparr>))" ..
  define e where "e = spawn_unix ''/run/x'' (?d\<lparr>dp_server := s'\<rparr>)"
  have e: "dp_unix e = [''/run/x'' \<mapsto> 1]" "map fst (dp_tasks e) = [0, 1]" "dp_aborted e = []" "dp_tcp e = Map.empty"
    by (simp_all add: e_def spawn_unix_def idle_dispatcher_def)
  then have "0 \<in> fst ` set (dp_tasks (abort_registered e))" "0 \<notin> set (dp_aborted (abort_registered e))"
    unfolding abort_registered_def by (simp_all flip: set_map)
  then have "\<not> joins_forwards {} (abort_registered e)" by (auto simp: joins_forwards_def)
  then have "fst (finish_run [] {} [] Shutdown ((run_start quiet_server)\<lparr>rs_disp := e\<rparr>)) = None"
    by (simp add: finish_run_def Let_def)
  with run e(1-3) show ?thesis unfolding e_def [symmetric] by (intro exI [of _ e] conjI)
qed

text \<open>
  A peer can keep the end of a session waiting: the channel the server opens for a forwarded
  connection is awaited for as long as the peer does not answer it, although the session has been
  told to shut down.
\<close>

theorem unanswered_open_blocks_the_end:
  assumes "RelayOpening False \<in> set relays" "join_channels results = Inr ()"
  shows "fst (finish_run results E relays outcome s) = None"
  using assms by (auto simp: finish_run_def Let_def joins_relays_def list_all_iff)

end
