(* ===== verification/Login.thy ===== *)
theory Login
  imports Handshake Process
begin

text \<open>
  Logging a user in on the server (\<open>src/session/pam.rs\<close>, \<open>src/session/privilege.rs\<close> and the
  identity part of \<open>src/session/mod.rs\<close>): PAM authentication or account check, the identity from
  the password database, the login prohibition files, and dropping privileges. PAM, the password
  database and the kernel's credential calls are parameters.
\<close>

subsection \<open>Requests and errors\<close>

record auth_request =
  ar_username :: string
  ar_credential :: auth_credential

datatype 'ce auth_error = AU_PamFailed string | AU_UserNotFound string | AU_RemoteCall 'ce

primrec auth_error_display :: "'ce auth_error \<Rightarrow> string" where
  "auth_error_display (AU_PamFailed reason) = ''PAM authentication failed: '' @ reason"
| "auth_error_display (AU_UserNotFound username) = ''user not found: '' @ username"
| "auth_error_display (AU_RemoteCall _) = ''remote call failed''"

datatype 'ce session_run_error =
    SR_DropPrivileges string | SR_ConversationBuild string | SR_Session string | SR_RemoteCall 'ce

primrec session_run_error_display :: "'ce session_run_error \<Rightarrow> string" where
  "session_run_error_display (SR_DropPrivileges reason) = ''failed to drop privileges: '' @ reason"
| "session_run_error_display (SR_ConversationBuild reason) = ''failed to build conversation: '' @ reason"
| "session_run_error_display (SR_Session reason) = ''session dispatcher failed: '' @ reason"
| "session_run_error_display (SR_RemoteCall _) = ''remote call failed''"

subsection \<open>The password database\<close>

record passwd_entry =
  pw_name :: string
  pw_uid :: nat
  pw_gid :: nat
  pw_dir :: string
  pw_shell :: string

type_synonym user_database = "string \<Rightarrow> nat + passwd_entry option"

definition user_info_from :: "passwd_entry \<Rightarrow> (string \<times> string) list \<Rightarrow> user_info" where
  "user_info_from user pam_env = \<lparr>ui_username = pw_name user, ui_uid = pw_uid user, ui_gid = pw_gid user,
     ui_home = pw_dir user, ui_shell = pw_shell user, ui_pam_env = pam_env\<rparr>"

datatype lookup_user_error = LU_UserQuery nat | LU_UserNotFound string

definition lookup_user :: "user_database \<Rightarrow> string \<Rightarrow> lookup_user_error + user_info" where
  "lookup_user from_name username = (case from_name username of
       Inl e \<Rightarrow> Inl (LU_UserQuery e)
     | Inr None \<Rightarrow> Inl (LU_UserNotFound username)
     | Inr (Some user) \<Rightarrow> Inr (user_info_from user []))"

text \<open>\<open>files\<close>: the files that exist, with their text when it can be read.\<close>

fun first_nologin :: "(string \<rightharpoonup> string option) \<Rightarrow> string list \<Rightarrow> string + unit" where
  "first_nologin files [] = Inr ()"
| "first_nologin files (path # paths) = (case files path of
       Some content \<Rightarrow>
         (let msg = (case content of Some m \<Rightarrow> m | None \<Rightarrow> []) in
          Inl (if msg = [] then ''system is unavailable'' else msg))
     | None \<Rightarrow> first_nologin files paths)"

definition check_nologin :: "(string \<rightharpoonup> string option) \<Rightarrow> nat \<Rightarrow> string + unit" where
  "check_nologin files uid =
     (if uid = 0 then Inr () else first_nologin files [''/etc/nologin'', ''/var/run/nologin''])"

subsection \<open>PAM\<close>

text \<open>
  A login is the sequence of PAM calls it makes; what PAM answers may depend on the calls before.
\<close>

datatype pam_call =
    PamContext string string | PamSetTty string | PamAuthenticate string string | PamAcctMgmt | PamOpenSession

record 'p pam_host =
  ph_pid :: int
  ph_tid :: int
  ph_answer :: "pam_call list \<Rightarrow> pam_call \<Rightarrow> 'p + unit"
  ph_envlist :: "pam_call list \<Rightarrow> (bytes \<times> bytes) list"
  ph_from_name :: user_database

datatype 'p pam_auth_error =
    PA_CreateContext 'p | PA_Authenticate 'p | PA_AccountManagement 'p | PA_OpenSession 'p
  | PA_UserQuery nat | PA_UserNotFound string | PA_ProcessLeaderRequired int int

definition pam :: "'p pam_host \<Rightarrow> pam_call \<Rightarrow> (pam_call list, 'p, unit) io" where
  "pam P c = (\<lambda>calls. (ph_answer P calls c, calls @ [c]))"

definition ensure_process_leader :: "'p pam_host \<Rightarrow> (pam_call list, 'p pam_auth_error, unit) io" where
  "ensure_process_leader P =
     (if ph_pid P = ph_tid P then okS () else failS (PA_ProcessLeaderRequired (ph_pid P) (ph_tid P)))"

text \<open>\<open>let _ = m;\<close>\<close>

definition ignoring :: "('s, 'e, 'a) io \<Rightarrow> ('s, 'f, unit) io" where
  "ignoring m = (\<lambda>s. (Inr (), snd (m s)))"

definition extract_pam_env :: "'p pam_host \<Rightarrow> (pam_call list, 'e, (string \<times> string) list) io" where
  "extract_pam_env P = (\<lambda>calls.
     (Inr (map (\<lambda>(k, v). (text_of k, text_of v)) (filter (\<lambda>(k, v). utf8_valid k \<and> utf8_valid v) (ph_envlist P calls))), calls))"

definition user_from_passwd ::
    "'p pam_host \<Rightarrow> string \<Rightarrow> (string \<times> string) list \<Rightarrow> (pam_call list, 'p pam_auth_error, user_info) io" where
  "user_from_passwd P username pam_env = (case ph_from_name P username of
       Inl e \<Rightarrow> failS (PA_UserQuery e)
     | Inr None \<Rightarrow> failS (PA_UserNotFound username)
     | Inr (Some user) \<Rightarrow> okS (user_info_from user pam_env))"

definition authenticate ::
    "'p pam_host \<Rightarrow> string \<Rightarrow> string \<Rightarrow> string \<Rightarrow> (pam_call list, 'p pam_auth_error, user_info) io" where
  "authenticate P service username password =
     bindS (ensure_process_leader P) (\<lambda>_.
     bindS (ctx PA_CreateContext (pam P (PamContext service username))) (\<lambda>_.
     bindS (ignoring (pam P (PamSetTty ''ssh''))) (\<lambda>_.
     bindS (ctx PA_Authenticate (pam P (PamAuthenticate username password))) (\<lambda>_.
     bindS (ctx PA_AccountManagement (pam P PamAcctMgmt)) (\<lambda>_.
     bindS (ctx PA_OpenSession (pam P PamOpenSession)) (\<lambda>_.
     bindS (extract_pam_env P) (\<lambda>pam_env.
       user_from_passwd P username pam_env)))))))"

definition open_session ::
    "'p pam_host \<Rightarrow> string \<Rightarrow> string \<Rightarrow> (pam_call list, 'p pam_auth_error, user_info) io" where
  "open_session P service username =
     bindS (ensure_process_leader P) (\<lambda>_.
     bindS (ctx PA_CreateContext (pam P (PamContext service username))) (\<lambda>_.
     bindS (ignoring (pam P (PamSetTty ''ssh''))) (\<lambda>_.
     bindS (ctx PA_AccountManagement (pam P PamAcctMgmt)) (\<lambda>_.
     bindS (ctx PA_OpenSession (pam P PamOpenSession)) (\<lambda>_.
     bindS (extract_pam_env P) (\<lambda>pam_env.
       user_from_passwd P username pam_env))))))"

subsection \<open>Privileges\<close>

record credentials =
  cr_uid :: nat
  cr_gid :: nat
  cr_groups :: "nat set"

text \<open>The kernel's calls on the credentials of the process; an error is an error number.\<close>

record kernel =
  k_setgid :: "nat \<Rightarrow> credentials \<Rightarrow> nat + credentials"
  k_initgroups :: "string \<Rightarrow> nat \<Rightarrow> credentials \<Rightarrow> nat + credentials"
  k_setuid :: "nat \<Rightarrow> credentials \<Rightarrow> nat + credentials"

datatype drop_privileges_error =
    DP_InvalidUsername | DP_SetGid nat nat | DP_InitGroups string nat nat | DP_SetUid nat nat

definition syscall :: "(credentials \<Rightarrow> nat + credentials) \<Rightarrow> (credentials, nat, unit) io" where
  "syscall f = (\<lambda>c. case f c of Inl e \<Rightarrow> (Inl e, c) | Inr c' \<Rightarrow> (Inr (), c'))"

definition drop_privileges ::
    "kernel \<Rightarrow> nat \<Rightarrow> nat \<Rightarrow> string \<Rightarrow> (credentials, drop_privileges_error, unit) io" where
  "drop_privileges K uid gid username =
     (if CHR 0x00 \<in> set username then failS DP_InvalidUsername
      else seqS [ctx (DP_SetGid gid) (syscall (k_setgid K gid)),
                 ctx (DP_InitGroups username gid) (syscall (k_initgroups K username gid)),
                 ctx (DP_SetUid uid) (syscall (k_setuid K uid))])"

subsection \<open>Properties\<close>

text \<open>
  What the calls promise: a call that succeeds sets its part of the credentials only, the group
  list being that of the group database; only the superuser may change the group list, and only it
  may take another user or group id.
\<close>

definition kernel_laws :: "(string \<Rightarrow> nat set) \<Rightarrow> kernel \<Rightarrow> bool" where
  "kernel_laws groups K \<longleftrightarrow>
     (\<forall>g c c'. k_setgid K g c = Inr c' \<longrightarrow> c' = c\<lparr>cr_gid := g\<rparr> \<and> (cr_uid c = 0 \<or> g = cr_gid c))
     \<and> (\<forall>u g c c'. k_initgroups K u g c = Inr c' \<longrightarrow> c' = c\<lparr>cr_groups := insert g (groups u)\<rparr> \<and> cr_uid c = 0)
     \<and> (\<forall>u c c'. k_setuid K u c = Inr c' \<longrightarrow> c' = c\<lparr>cr_uid := u\<rparr> \<and> (cr_uid c = 0 \<or> u = cr_uid c))"

text \<open>A kernel that lets the superuser do all this.\<close>

definition obliging :: "kernel \<Rightarrow> bool" where
  "obliging K \<longleftrightarrow> (\<forall>c. cr_uid c = 0 \<longrightarrow>
     (\<forall>g. is_ok (k_setgid K g c)) \<and> (\<forall>u g. is_ok (k_initgroups K u g c)) \<and> (\<forall>u. is_ok (k_setuid K u c)))"

text \<open>
  C7: privileges are dropped completely or not at all. When the call succeeds, the process has the
  user id and group id asked for and exactly the groups of that user, none of the superuser's;
  when it fails, the user id is what it was; and a superuser whose calls the kernel grants always
  succeeds for a name without a null byte.
\<close>

theorem drop_privileges_complete:
  assumes "kernel_laws groups K" "drop_privileges K uid gid username c = (r, c')"
  shows "(r = Inr () \<longrightarrow> c' = \<lparr>cr_uid = uid, cr_gid = gid, cr_groups = insert gid (groups username)\<rparr>)
    \<and> ((\<exists>e. r = Inl e) \<longrightarrow> cr_uid c' = cr_uid c)
    \<and> (obliging K \<and> cr_uid c = 0 \<and> CHR 0x00 \<notin> set username \<longrightarrow> r = Inr ())"
proof (cases "CHR 0x00 \<in> set username")
  case True
  then show ?thesis using assms(2) by (auto simp: drop_privileges_def io_simps)
next
  case False
  note laws = assms(1) [unfolded kernel_laws_def] and run = drop_privileges_def syscall_def io_simps
  show ?thesis
  proof (cases "k_setgid K gid c")
    case (Inl e)
    then have "obliging K \<Longrightarrow> cr_uid c \<noteq> 0" unfolding obliging_def by (metis is_ok_simps(2))
    moreover have "r = Inl (DP_SetGid gid e) \<and> c' = c" using assms(2) False Inl by (simp add: run)
    ultimately show ?thesis by auto
  next
    case c1: (Inr c1)
    with laws have 1: "c1 = c\<lparr>cr_gid := gid\<rparr>" by blast
    show ?thesis
    proof (cases "k_initgroups K username gid c1")
      case (Inl e)
      then have "obliging K \<Longrightarrow> cr_uid c1 \<noteq> 0" unfolding obliging_def by (metis is_ok_simps(2))
      moreover have "r = Inl (DP_InitGroups username gid e) \<and> c' = c1" using assms(2) False c1 Inl by (simp add: run)
      ultimately show ?thesis using 1 by auto
    next
      case c2: (Inr c2)
      with laws have 2: "c2 = c1\<lparr>cr_groups := insert gid (groups username)\<rparr>" by blast
      show ?thesis
      proof (cases "k_setuid K uid c2")
        case (Inl e)
        then have "obliging K \<Longrightarrow> cr_uid c2 \<noteq> 0" unfolding obliging_def by (metis is_ok_simps(2))
        moreover have "r = Inl (DP_SetUid uid e) \<and> c' = c2" using assms(2) False c1 c2 Inl by (simp add: run)
        ultimately show ?thesis using 1 2 by auto
      next
        case (Inr c3)
        with laws have "c3 = c2\<lparr>cr_uid := uid\<rparr>" by blast
        moreover have "r = Inr () \<and> c' = c3" using assms(2) False c1 c2 Inr by (simp add: run)
        ultimately show ?thesis using 1 2 by simp
      qed
    qed
  qed
qed

definition unix_kernel :: kernel where
  "unix_kernel = \<lparr>k_setgid = \<lambda>g c. if cr_uid c = 0 \<or> g = cr_gid c then Inr (c\<lparr>cr_gid := g\<rparr>) else Inl 1,
     k_initgroups = \<lambda>_ g c. if cr_uid c = 0 then Inr (c\<lparr>cr_groups := {g}\<rparr>) else Inl 1,
     k_setuid = \<lambda>u c. if cr_uid c = 0 \<or> u = cr_uid c then Inr (c\<lparr>cr_uid := u\<rparr>) else Inl 1\<rparr>"

theorem drop_privileges_complete_witness:
  "drop_privileges unix_kernel 1000 100 ''anna'' \<lparr>cr_uid = 0, cr_gid = 0, cr_groups = {0, 4, 27}\<rparr>
   = (Inr (), \<lparr>cr_uid = 1000, cr_gid = 100, cr_groups = {100}\<rparr>)"
proof -
  let ?c = "\<lparr>cr_uid = 0, cr_gid = 0, cr_groups = {0, 4, 27}\<rparr>"
  have k: "kernel_laws (\<lambda>_. {}) unix_kernel" by (simp add: kernel_laws_def unix_kernel_def)
  have o: "obliging unix_kernel" by (simp add: obliging_def unix_kernel_def)
  obtain r c' where rc: "drop_privileges unix_kernel 1000 100 ''anna'' ?c = (r, c')"
    by (cases "drop_privileges unix_kernel 1000 100 ''anna'' ?c")
  from drop_privileges_complete [OF k rc] o rc show ?thesis by simp
qed

text \<open>The calls a login with a password makes, and one without.\<close>

definition login_calls :: "string \<Rightarrow> string \<Rightarrow> string option \<Rightarrow> pam_call list" where
  "login_calls service username password =
     [PamContext service username, PamSetTty ''ssh'']
     @ (case password of Some pw \<Rightarrow> [PamAuthenticate username pw] | None \<Rightarrow> [])
     @ [PamAcctMgmt, PamOpenSession]"

definition login :: "'p pam_host \<Rightarrow> string \<Rightarrow> string \<Rightarrow> string option \<Rightarrow> (pam_call list, 'p pam_auth_error, user_info) io" where
  "login P service username password = (case password of
       Some pw \<Rightarrow> authenticate P service username pw
     | None \<Rightarrow> open_session P service username)"

text \<open>
  A refusal of the terminal's name is ignored; every other call has to be granted. \<open>go_ahead\<close>: call
  number \<open>n\<close> does not stand in the way of what comes after it.
\<close>

definition go_ahead :: "'p pam_host \<Rightarrow> pam_call list \<Rightarrow> nat \<Rightarrow> bool" where
  "go_ahead P calls n \<longleftrightarrow> calls ! n = PamSetTty ''ssh'' \<or> ph_answer P (take n calls) (calls ! n) = Inr ()"

lemmas login_defs = login_calls_def go_ahead_def ensure_process_leader_def pam_def ignoring_def extract_pam_env_def
  user_from_passwd_def bindS_def ctx_def okS_def failS_def

text \<open>
  C6: no session without authentication. A login makes no PAM call unless it runs on the process
  leader; its calls are made in the prescribed order, each one only after PAM granted all the calls
  before it, except that a refusal to set the terminal's name is ignored; it succeeds only when all
  calls were made and granted (again but for the terminal's name), with the identity of the
  password database; and when they are all granted and the name is known, it does succeed.
\<close>

theorem login_in_order:
  assumes "login P service username password [] = (r, calls)"
  shows "(calls \<noteq> [] \<longrightarrow> ph_pid P = ph_tid P)
    \<and> calls = take (length calls) (login_calls service username password)
    \<and> (\<forall>n. Suc n < length calls \<longrightarrow> go_ahead P calls n)
    \<and> (\<forall>ui. r = Inr ui \<longrightarrow> calls = login_calls service username password
        \<and> (\<forall>n < length calls. go_ahead P calls n)
        \<and> (\<exists>user env. ph_from_name P username = Inr (Some user) \<and> ui = user_info_from user env))
    \<and> (\<forall>user. ph_pid P = ph_tid P \<and> ph_from_name P username = Inr (Some user)
        \<and> (\<forall>n < length (login_calls service username password). go_ahead P (login_calls service username password) n)
        \<longrightarrow> (\<exists>env. r = Inr (user_info_from user env)))"
proof (cases password)
  case None
  then show ?thesis using assms
    by (auto simp: login_def open_session_def login_defs less_Suc_eq All_less_Suc numeral_eq_Suc
        split: sum.splits option.splits if_splits)
next
  case (Some pw)
  then show ?thesis using assms
    by (auto simp: login_def authenticate_def login_defs less_Suc_eq All_less_Suc numeral_eq_Suc
        split: sum.splits option.splits if_splits)
qed

definition open_pam :: "user_database \<Rightarrow> unit pam_host" where
  "open_pam db = \<lparr>ph_pid = 7, ph_tid = 7, ph_answer = \<lambda>_ _. Inr (), ph_envlist = \<lambda>_. [(lit ''LANG'', lit ''C'')],
     ph_from_name = db\<rparr>"

definition anna :: passwd_entry where
  "anna = \<lparr>pw_name = ''anna'', pw_uid = 1000, pw_gid = 100, pw_dir = ''/home/anna'', pw_shell = ''/bin/sh''\<rparr>"

theorem login_in_order_witness:
  "\<exists>ui. login (open_pam (\<lambda>_. Inr (Some anna))) ''sshd'' ''anna'' (Some ''pw'') []
      = (Inr ui, login_calls ''sshd'' ''anna'' (Some ''pw'')) \<and> ui_uid ui = 1000"
proof -
  let ?P = "open_pam (\<lambda>_. Inr (Some anna))"
  obtain ui calls where r: "login ?P ''sshd'' ''anna'' (Some ''pw'') [] = (Inr ui, calls)"
    by (simp add: login_def authenticate_def login_defs open_pam_def)
  from login_in_order [OF r] have "calls = login_calls ''sshd'' ''anna'' (Some ''pw'')" "ui_uid ui = 1000"
    by (auto simp: open_pam_def user_info_from_def anna_def)
  with r show ?thesis by blast
qed

text \<open>
  The identity is looked up only after the session was opened: for a name the password database
  does not know, the login fails and the session stays open.
\<close>

theorem session_left_open_for_unknown_user:
  "login (open_pam (\<lambda>_. Inr None)) ''sshd'' ''ghost'' None []
   = (Inl (PA_UserNotFound ''ghost''), login_calls ''sshd'' ''ghost'' None)"
  by (simp add: login_def open_session_def login_defs open_pam_def)

text \<open>Without PAM, the superuser may always log in, and anybody else exactly when no file forbids it.\<close>

theorem nologin_files_obeyed:
  "check_nologin files uid = Inr () \<longleftrightarrow> uid = 0 \<or> files ''/etc/nologin'' = None \<and> files ''/var/run/nologin'' = None"
  by (simp add: check_nologin_def Let_def split: option.splits)

end
