(* ===== verification/Byte_Channel.thy ===== *)
theory Byte_Channel
  imports Streams
begin

text \<open>
  Byte streams over message channels (\<open>src/byte_channel.rs\<close>): the reader that turns received
  messages into a stream of bytes, and the writer that flushes after every write. The receiver
  and the sink below are parameters.
\<close>

subsection \<open>The reader\<close>

datatype recv_event = RecvData bytes | RecvClosed | RecvFailed

text \<open>The next item of the stream: nothing yet, the end, an error, or a chunk; empty messages are skipped.\<close>

fun channel_next :: "recv_event list \<Rightarrow> ((io_error + bytes) option \<times> recv_event list) option" where
  "channel_next [] = None"
| "channel_next (RecvData d # evs) = (if d = [] then channel_next evs else Some (Some (Inr d), evs))"
| "channel_next (RecvClosed # evs) = Some (None, evs)"
| "channel_next (RecvFailed # evs) = Some (Some (Inl BrokenPipe), evs)"

text \<open>All chunks up to the end or an error; \<open>None\<close> while the channel is open.\<close>

function channel_chunks :: "recv_event list \<Rightarrow> bytes list \<times> (io_error + unit) option" where
  "channel_chunks evs = (case channel_next evs of
       None \<Rightarrow> ([], None)
     | Some (None, _) \<Rightarrow> ([], Some (Inr ()))
     | Some (Some (Inl e), _) \<Rightarrow> ([], Some (Inl e))
     | Some (Some (Inr d), evs') \<Rightarrow> (case channel_chunks evs' of (ds, r) \<Rightarrow> (d # ds, r)))"
  by pat_completeness auto

lemma channel_next_shorter: "channel_next evs = Some (x, evs') \<Longrightarrow> length evs' < length evs"
  by (induction evs rule: channel_next.induct) (auto split: if_splits)

termination channel_chunks
  by (relation "measure length") (auto dest: channel_next_shorter)

subsection \<open>The writer\<close>

datatype 'a poll = Ready 'a | Pending

text \<open>The sink writer below: its polls, on its own state.\<close>

record 's sink_writer =
  sk_write :: "bytes \<Rightarrow> 's \<Rightarrow> (io_error + nat) poll \<times> 's"
  sk_flush :: "'s \<Rightarrow> (io_error + unit) poll \<times> 's"

definition channel_poll_write :: "'s sink_writer \<Rightarrow> bytes \<Rightarrow> 's \<Rightarrow> (io_error + nat) poll \<times> 's" where
  "channel_poll_write K buf s = (case sk_write K buf s of
       (Ready (Inr written), s1) \<Rightarrow>
         (case sk_flush K s1 of
            (Ready (Inr _), s2) \<Rightarrow> (Ready (Inr written), s2)
          | (Ready (Inl error), s2) \<Rightarrow> (Ready (Inl error), s2)
          | (Pending, s2) \<Rightarrow> (Pending, s2))
     | (other, s1) \<Rightarrow> (other, s1))"

text \<open>\<open>write_all\<close> for at most \<open>n\<close> polls; \<open>None\<close>: not finished.\<close>

fun poll_write_all :: "'s sink_writer \<Rightarrow> nat \<Rightarrow> bytes \<Rightarrow> 's \<Rightarrow> (io_error + unit) option \<times> 's" where
  "poll_write_all K n [] s = (Some (Inr ()), s)"
| "poll_write_all K 0 (b # bs) s = (None, s)"
| "poll_write_all K (Suc n) (b # bs) s = (case channel_poll_write K (b # bs) s of
       (Pending, s') \<Rightarrow> poll_write_all K n (b # bs) s'
     | (Ready (Inl e), s') \<Rightarrow> (Some (Inl e), s')
     | (Ready (Inr 0), s') \<Rightarrow> (Some (Inl WriteZero), s')
     | (Ready (Inr (Suc k)), s') \<Rightarrow> poll_write_all K n (drop (Suc k) (b # bs)) s')"

subsection \<open>Properties\<close>

text \<open>What a sink has taken: exactly the bytes its writes reported.\<close>

definition sink_takes :: "'s sink_writer \<Rightarrow> ('s \<Rightarrow> bytes) \<Rightarrow> bool" where
  "sink_takes K taken \<longleftrightarrow>
     (\<forall>buf s r s'. sk_write K buf s = (r, s') \<longrightarrow> (case r of
        Ready (Inr n) \<Rightarrow> n \<le> length buf \<and> taken s' = taken s @ take n buf
      | _ \<Rightarrow> taken s' = taken s))
     \<and> (\<forall>s r s'. sk_flush K s = (r, s') \<longrightarrow> taken s' = taken s)"

text \<open>
  The reader delivers exactly the bytes sent before the channel closed, and no chunk is empty, so
  the end of the stream is reported only when the channel is closed.
\<close>

theorem channel_reader_exact:
  "channel_chunks (map RecvData ds @ RecvClosed # evs) = (filter (\<lambda>d. d \<noteq> []) ds, Some (Inr ()))"
  by (induction ds) (subst channel_chunks.simps; simp)+

text \<open>When flushing never waits, what is written reaches the sink once and in order.\<close>

lemma channel_poll_write_takes:
  assumes "sink_takes K taken" "\<And>s. fst (sk_flush K s) \<noteq> Pending" "channel_poll_write K buf s = (r, s')"
  shows "(r = Pending \<longrightarrow> taken s' = taken s)
    \<and> (\<forall>n. r = Ready (Inr n) \<longrightarrow> n \<le> length buf \<and> taken s' = taken s @ take n buf)"
proof -
  obtain w s1 where w: "sk_write K buf s = (w, s1)" by fastforce
  obtain f s2 where f: "sk_flush K s1 = (f, s2)" by fastforce
  have "f \<noteq> Pending" using assms(2) [of s1] f by simp
  then show ?thesis using w f assms(1,3)
    by (fastforce simp: channel_poll_write_def sink_takes_def split: poll.splits sum.splits)
qed

theorem channel_writer_exact:
  assumes "sink_takes K taken" "\<And>s. fst (sk_flush K s) \<noteq> Pending" "poll_write_all K n bs s = (Some (Inr ()), s')"
  shows "taken s' = taken s @ bs"
  using assms(3)
proof (induction n arbitrary: bs s)
  case 0
  then show ?case by (cases bs) simp_all
next
  case (Suc n)
  show ?case
  proof (cases bs)
    case Nil
    then show ?thesis using Suc.prems by simp
  next
    case (Cons b cs)
    obtain r s1 where r: "channel_poll_write K bs s = (r, s1)" by fastforce
    note takes = channel_poll_write_takes [OF assms(1,2) r]
    show ?thesis
    proof (cases r)
      case Pending
      then have "poll_write_all K n bs s1 = (Some (Inr ()), s')" using Suc.prems Cons r by simp
      with Suc.IH Pending takes show ?thesis by simp
    next
      case (Ready v)
      then obtain k where k: "v = Inr (Suc k)" "poll_write_all K n (drop (Suc k) bs) s1 = (Some (Inr ()), s')"
        using Suc.prems Cons r by (auto split: sum.splits nat.splits)
      with Suc.IH Ready takes have "taken s' = taken s @ take (Suc k) bs @ drop (Suc k) bs" by simp
      then show ?thesis by simp
    qed
  qed
qed

text \<open>
  A flush that has to wait makes the write report \<open>Pending\<close> although the bytes were taken: the
  caller writes them again, and they are sent twice.
\<close>

definition slow_sink :: "(bytes \<times> bool) sink_writer" where
  "slow_sink = \<lparr>sk_write = \<lambda>buf (taken, waits). (Ready (Inr (length buf)), (taken @ buf, waits)),
     sk_flush = \<lambda>(taken, waits). (if waits then Pending else Ready (Inr ()), (taken, False))\<rparr>"

theorem pending_flush_duplicates:
  "sink_takes slow_sink fst \<and> poll_write_all slow_sink 2 [1, 2] ([], True) = (Some (Inr ()), ([1, 2, 1, 2], False))"
  by (auto simp: sink_takes_def slow_sink_def channel_poll_write_def numeral_2_eq_2 split: prod.splits)

end
