(* ===== verification/Payload_Types.thy ===== *)
theory Payload_Types
  imports Session_Messages Forward_Messages
begin

text \<open>
  What may be assumed of a payload that was received: whatever bytes the peer sent, a decoded
  record is well formed, so it can be sent on unchanged.
\<close>

definition decodes_typed :: "(reader, 'd, 'a) io \<Rightarrow> ('a \<Rightarrow> bool) \<Rightarrow> ('a \<Rightarrow> (writer, 'e, unit) io) \<Rightarrow> bool" where
  "decodes_typed dec valid enc \<longleftrightarrow> (\<forall>r x r'. dec r = (Inr x, r') \<longrightarrow> valid x \<and> survives enc dec x)"

context wire_format
begin

lemma typed: "decodes_typed dec valid enc"
  unfolding decodes_typed_def using dec_valid survives by blast

end

context varint_codec
begin

lemmas payloads_typed = exec.typed subsystem.typed exit_status.typed exit_signal.typed pty.typed window_change.typed
  signal.typed env.typed tcpip_forward.typed direct_tcpip.typed cancel_tcpip_forward.typed tcpip_forward_reply.typed
  forwarded_tcpip.typed streamlocal_forward.typed cancel_streamlocal_forward.typed forwarded_streamlocal.typed
  direct_streamlocal.typed

end

text \<open>
  C27: received payloads are well typed. Whatever bytes arrive, if the payload of a session request
  or notice, of a forwarding request or reply or of a forwarding channel decodes, its strings are
  valid UTF-8 within the size limit and its numbers fit a variable-length integer; so it can be
  encoded again, and the encoding decodes to the same record.
\<close>

theorem received_payloads_typed:
  assumes "varint_codec V"
  shows "decodes_typed (dec_exec V) valid_exec (enc_exec V)
    \<and> decodes_typed (dec_subsystem V) valid_subsystem (enc_subsystem V)
    \<and> decodes_typed (dec_exit_status V) valid_exit_status (enc_exit_status V)
    \<and> decodes_typed (dec_exit_signal V) valid_exit_signal (enc_exit_signal V)
    \<and> decodes_typed (dec_pty V) valid_pty (enc_pty V)
    \<and> decodes_typed (dec_window_change V) valid_window_change (enc_window_change V)
    \<and> decodes_typed (dec_signal V) valid_signal (enc_signal V)
    \<and> decodes_typed (dec_env V) valid_env (enc_env V)
    \<and> decodes_typed (dec_tcpip_forward V) valid_tcpip_forward (enc_tcpip_forward V)
    \<and> decodes_typed (dec_direct_tcpip V) valid_direct_tcpip (enc_direct_tcpip V)
    \<and> decodes_typed (dec_cancel_tcpip_forward V) valid_cancel_tcpip_forward (enc_cancel_tcpip_forward V)
    \<and> decodes_typed (dec_tcpip_forward_reply V) valid_tcpip_forward_reply (enc_tcpip_forward_reply V)
    \<and> decodes_typed (dec_forwarded_tcpip V) valid_forwarded_tcpip (enc_forwarded_tcpip V)
    \<and> decodes_typed (dec_streamlocal_forward V) valid_streamlocal_forward (enc_streamlocal_forward V)
    \<and> decodes_typed (dec_cancel_streamlocal_forward V) valid_cancel_streamlocal_forward (enc_cancel_streamlocal_forward V)
    \<and> decodes_typed (dec_forwarded_streamlocal V) valid_forwarded_streamlocal (enc_forwarded_streamlocal V)
    \<and> decodes_typed (dec_direct_streamlocal V) valid_direct_streamlocal (enc_direct_streamlocal V)"
  using varint_codec.payloads_typed [OF assms] by (intro conjI)

theorem received_payloads_typed_witness:
  "decodes_typed (dec_pty quic_varint) valid_pty (enc_pty quic_varint)"
  using received_payloads_typed [OF quic.varint_codec_axioms] by blast

end
