(* ===== verification/Spec2Isabelle.thy ===== *)
theory Spec2Isabelle
  imports Ticket_Progress Remote_Session Dispatcher_Run Login Byte_Channel Payload_Types
begin

text \<open>
  A verification development of dshell, SSH sessions and port forwarding over QUIC streams (the Rust
  crate under \<open>src/src/\<close>). This theory imports all the others; the properties stand in the theory of
  the component they are about, each after a text that names it (C1 to C40).

  \<^bold>\<open>The program.\<close> A client opens an HTTP/3 extended-CONNECT request with Basic credentials and a list
  of protocol versions; the server answers with the version it chose (\<open>client.rs\<close>, \<open>auth.rs\<close>,
  \<open>version.rs\<close>, \<open>webtransport.rs\<close>). From then on the two share one control stream for global requests
  and one stream per channel (\<open>conversation.rs\<close>, \<open>conversation/\<close>). The server logs the user in and
  drops its privileges (\<open>session/pam.rs\<close>, \<open>session/privilege.rs\<close>), then runs a loop over incoming
  channels and global requests (\<open>session/dispatcher.rs\<close>): a session channel runs a command with pipes
  or on a terminal (\<open>session/process.rs\<close>, \<open>session/pty.rs\<close>), a direct channel or a SOCKS5 channel is
  relayed to a destination (\<open>forward/direct.rs\<close>, \<open>forward/socks5.rs\<close>), a forwarding request starts
  or stops a listener whose connections come back as channels the server opens
  (\<open>forward/reverse.rs\<close>). The client relays its terminal (\<open>session/client.rs\<close>) and forwards ports by
  rules given on the command line (\<open>forward/client.rs\<close>, \<open>forward/spec.rs\<close>). Configuration files
  in the syntax of ssh_config are parsed separately (\<open>config.rs\<close>, \<open>config/\<close>).

  \<^bold>\<open>Streams and errors.\<close> Code that may fail returns a sum, \<open>Inl\<close> the error. Code that reads or writes
  is a function from the state of the streams to a result and the state after it (type \<open>io\<close> of
  \<open>Dssh_Prelude\<close>); \<open>bindS\<close> is the question mark operator and \<open>ctx\<close> the \<open>.context\<close> of an error.
  Code that waits for another task returns an option, \<open>None\<close> while it waits (type \<open>aio\<close>). A writer
  (\<open>Streams\<close>) has a budget after which its writes fail and a flag that makes its flushes fail; a
  reader is the bytes to come and how the stream ends. So each theorem that does not assume \<open>endless\<close>
  or \<open>fits\<close> covers the failures of the transport as well. Concurrency is modelled where the code has
  to order it: in \<open>Tickets\<close> as a relation on the states of all handlers, in the relays and the session
  loop as the sequence of events that a \<open>select!\<close> observes.

  \<^bold>\<open>Theories.\<close>
  \<^item> \<open>Dssh_Prelude\<close>, \<open>Streams\<close>, \<open>Text_Util\<close>: the monads, streams, \<open>io::copy\<close>, decimal numerals and
    string functions, and the collections \<open>emits_intros\<close>, \<open>sends_intros\<close> and \<open>streaming_intros\<close> by
    which encoders and decoders inherit their properties from their fields. The locale
    \<open>wire_format\<close> is the contract of an encodable type.
  \<^item> \<open>Varint_Api\<close>: the transport library's integers as a parameter, with its documented laws as the
    locale \<open>varint_codec\<close>, interpreted by the QUIC encoding of RFC 9000.
  \<^item> \<open>Codec\<close> (\<open>codec.rs\<close>), \<open>Session_Messages\<close> (\<open>session/mod.rs\<close>), \<open>Forward_Messages\<close>
    (\<open>forward/mod.rs\<close>), \<open>Payload_Types\<close>: strings and payloads, each a \<open>wire_format\<close> by a \<open>sublocale\<close>:
    round trips, rejection of truncations, size limits, and that whatever is received is well formed.
  \<^item> \<open>Channel\<close>, \<open>Channel_Wire\<close> (\<open>conversation/channel.rs\<close>, \<open>message.rs\<close>): the messages of a channel,
    their byte images, and that what one end sends is what the other end reports.
  \<^item> \<open>Conversation\<close>, \<open>Global_Requests\<close>, \<open>Tickets\<close>, \<open>Ticket_Progress\<close> (\<open>conversation.rs\<close>,
    \<open>conversation/global.rs\<close>): the shared control stream with its tickets; single handlers, the
    exchange of a request and its response, poisoning; then all handlers interleaved, with the
    invariants of every reachable state, and that the holder of the served ticket always moves on.
  \<^item> \<open>Handshake\<close> (\<open>auth.rs\<close>, \<open>client.rs\<close>, \<open>version.rs\<close>, \<open>webtransport.rs\<close>): credentials, versions and
    the CONNECT exchange of client and server.
  \<^item> \<open>Config_Parser\<close>, \<open>Config_Lines\<close>, \<open>Config_Directives\<close> (\<open>config.rs\<close>, \<open>config/\<close>): the grammar and the
    parser, its equivalence with a parser of single lines, the line and column of each entry, and
    typed arguments: glob patterns by their characters, and \<open>Match\<close> lines by the table of keywords.
  \<^item> \<open>Login\<close> (\<open>session/pam.rs\<close>, \<open>session/privilege.rs\<close>, part of \<open>session/mod.rs\<close>): the order of the
    calls to PAM and to the kernel.
  \<^item> \<open>Signals\<close>, \<open>Process\<close>, \<open>Process_Lifecycle\<close>, \<open>Pty\<close> (\<open>session/signal.rs\<close>, \<open>session/process.rs\<close>,
    \<open>session/pty.rs\<close>): the command and its environment, the child and its termination, the relays of
    the server, the terminal with the meaning RFC 4254 gives to its modes.
  \<^item> \<open>Session_Client\<close>, \<open>Session_Setup\<close>, \<open>Session_Flow\<close>, \<open>Session_Input\<close>, \<open>Session_Start\<close>,
    \<open>Remote_Session\<close> (\<open>session/client.rs\<close> and the session task of \<open>session/dispatcher.rs\<close>): the client's
    session, the setup on the server, the compositions of the two for the output, the input and the
    start, and of all three with the task of the server: a command or a terminal session from the
    opening of its channel to its exit result (\<open>command_session_end_to_end\<close>,
    \<open>terminal_session_end_to_end\<close>).
  \<^item> \<open>Forward_Spec\<close>, \<open>Forward_Direct\<close>, \<open>Socks5\<close>, \<open>Reverse\<close>, \<open>Forward_Client\<close> (\<open>forward/\<close>): rules, the
    server's handlers and listeners, the client's loops, and the end-to-end theorems.
  \<^item> \<open>Dispatcher\<close>, \<open>Forward_Registry\<close>, \<open>Dispatcher_Run\<close> (\<open>session/dispatcher.rs\<close>): the loop of a session;
    the contract of a registry of listeners as the locale \<open>registry\<close>, interpreted for TCP, for Unix
    sockets and for both; the invariants of every run and what its end releases.
  \<^item> \<open>Byte_Channel\<close> (\<open>byte_channel.rs\<close>): byte streams over message channels.

  \<^bold>\<open>What is shown.\<close> For each wire format a round trip; for each handler its outcome on every branch; for
  the shared state an invariant of every reachable state; for the parsers the equivalence with a
  declarative meaning of the text; for the loops that they end; and for a session and for local, remote
  and proxied forwarding that the ends composed deliver what was asked for. Where the code departs
  from its documentation on some inputs, the property is stated for the others and says so. Some
  theorems state behaviour that the code surely does not intend: each says so in the text before it
  (for instance \<open>drain_failure_race\<close>, \<open>failed_socks5_accept_panics\<close>, \<open>unknown_request_desynchronises\<close>).

  \<^bold>\<open>Loops and fuel.\<close> A loop over a list of events is recursion on it. The two loops over a stream of
  messages, \<open>relay_output\<close> and \<open>setup_loop\<close>, take fuel and return \<open>None\<close> when it runs out; each round
  consumes at least a byte, so more fuel than the stream has bytes is enough
  (\<open>message_loops_end\<close>). Every other recursion terminates, by structure or by a measure. Integers
  that the code keeps in 16 or 32 bits are words, and every narrowing is written out; lengths and
  message numbers are below \<open>VARINT_LIMIT\<close>, the range of the transport's integers.

  \<^bold>\<open>Parameters.\<close> What is not in the repository is an argument of the definitions that use it: the
  transport's integers (\<open>varint_api\<close>), HTTP and URIs (\<open>http_api\<close>), base64, PAM, the password
  database and the kernel's credential calls (\<open>Login\<close>), spawning and waiting (\<open>child_api\<close>), signal
  numbers, terminals and termios (\<open>Pty\<close>), sockets and name lookup (\<open>socket_api\<close>), connecting. A
  property that relies on their documented behaviour assumes it by name, and its witness gives an
  instance.

  \<^bold>\<open>Not modelled.\<close> Logging and tracing; the implementations that serde and remoc derive and the remote
  functions of the bootstrap that only carry values (\<open>session/mod.rs\<close>); the texts of \<open>Display\<close> for
  errors, except where another component reads them; \<open>lib.rs\<close> (module declarations) and
  \<open>test_support.rs\<close>; plain accessors and constructors; \<open>RawRemainder\<close>; the constructor
  \<open>TcpForwardListener::bind\<close> and its Unix counterpart, which no code outside tests calls; reading a
  file from disk (\<open>SourceFile::read\<close>); cancellation of a future in the middle of a handler, except
  for the drop behaviour of requests and guards, which is modelled.
\<close>

end
